(* ===== verification/Prelude.thy ===== *)
theory Prelude
  imports Main "HOL-Library.Word" "HOL-Library.Monad_Syntax"
begin

text \<open>
  What the components share: machine integers and byte strings, the two ways a Go call
  ends badly (an error value, a panic), the little-endian integers of Go's
  \<^verbatim>\<open>encoding/binary\<close>, and generic lemmas on words and option-valued programs.

  A Go panic ends the goroutine that raises it, so a function that can panic has a result
  in \<open>'a run\<close>, where \<open>None\<close> is the panic; an error return is an ordinary value of a sum type
  \<open>error + 'a\<close>. A pointer or slice that may be nil is an option, \<open>None\<close> for nil.
\<close>

unbundle bit_operations_syntax

section \<open>Types\<close>

type_synonym byte = "8 word"
type_synonym bytes = "byte list"
type_synonym u32 = "32 word"
type_synonym u64 = "64 word"

type_synonym 'a run = "'a option"

abbreviation panic :: "'a run" where
  "panic \<equiv> None"

named_theorems roundtrip \<open>decoding what was encoded gives it back\<close>
named_theorems frame \<open>what an operation leaves unchanged\<close>

text \<open>The bytes of a text.\<close>

definition text_bytes :: "string \<Rightarrow> bytes" where
  "text_bytes s = map (\<lambda>c. word_of_nat (of_char c)) s"

section \<open>Option-valued programs\<close>

lemma bind_Some_iff [simp]:
  "(Option.bind x f = Some y) \<longleftrightarrow> (\<exists>a. x = Some a \<and> f a = Some y)"
  by (cases x) auto

lemma bind_None_iff [simp]:
  "(Option.bind x f = None) \<longleftrightarrow> (\<forall>a. x = Some a \<longrightarrow> f a = None)"
  by (cases x) auto

section \<open>Little-endian integers\<close>

text \<open>\<open>le_bytes n x\<close> is the \<open>n\<close> low bytes of \<open>x\<close>, least significant first.\<close>

primrec le_bytes :: "nat \<Rightarrow> nat \<Rightarrow> bytes" where
  "le_bytes 0 x = []"
| "le_bytes (Suc n) x = word_of_nat (x mod 256) # le_bytes n (x div 256)"

primrec le_nat :: "bytes \<Rightarrow> nat" where
  "le_nat [] = 0"
| "le_nat (b # bs) = unat b + 256 * le_nat bs"

lemma length_le_bytes [simp]: "length (le_bytes n x) = n"
  by (induction n arbitrary: x) auto

lemma unat_byte_of_nat: "unat (word_of_nat x :: byte) = x mod 256"
  by (simp add: unat_of_nat)

lemma le_nat_le_bytes: "le_nat (le_bytes n x) = x mod 256 ^ n"
proof (induction n arbitrary: x)
  case 0
  then show ?case by simp
next
  case (Suc n)
  have "x mod 256 ^ Suc n = x mod 256 + 256 * (x div 256 mod 256 ^ n)"
    by (simp add: mod_mult2_eq)
  with Suc show ?case by (simp add: unat_byte_of_nat)
qed

text \<open>
  \<^verbatim>\<open>binary.LittleEndian.PutUint32\<close>/\<^verbatim>\<open>PutUint64\<close> into a buffer of exactly that size, and
  \<^verbatim>\<open>Uint32\<close>/\<^verbatim>\<open>Uint64\<close>, which panic on a slice that is too short.
\<close>

definition put_u32 :: "u32 \<Rightarrow> bytes" where
  "put_u32 w = le_bytes 4 (unat w)"

definition put_u64 :: "u64 \<Rightarrow> bytes" where
  "put_u64 w = le_bytes 8 (unat w)"

definition get_u32 :: "bytes \<Rightarrow> u32 run" where
  "get_u32 bs = (if length bs < 4 then panic else Some (word_of_nat (le_nat (take 4 bs))))"

definition get_u64 :: "bytes \<Rightarrow> u64 run" where
  "get_u64 bs = (if length bs < 8 then panic else Some (word_of_nat (le_nat (take 8 bs))))"

lemma length_put [simp]: "length (put_u32 w) = 4" "length (put_u64 v) = 8"
  by (simp_all add: put_u32_def put_u64_def)

lemma le_nat_put_u32: "le_nat (put_u32 w) = unat w"
proof -
  have "unat w < 2 ^ LENGTH(32)" by (rule unsigned_less)
  then have "unat w < 256 ^ 4" by simp
  then show ?thesis by (simp only: put_u32_def le_nat_le_bytes mod_less)
qed

lemma le_nat_put_u64: "le_nat (put_u64 w) = unat w"
proof -
  have "unat w < 2 ^ LENGTH(64)" by (rule unsigned_less)
  then have "unat w < 256 ^ 8" by simp
  then show ?thesis by (simp only: put_u64_def le_nat_le_bytes mod_less)
qed

lemma get_put_u32 [simp, roundtrip]: "get_u32 (put_u32 w @ r) = Some w"
  by (simp add: get_u32_def le_nat_put_u32)

lemma get_put_u64 [simp, roundtrip]: "get_u64 (put_u64 w @ r) = Some w"
  by (simp add: get_u64_def le_nat_put_u64)

lemma put_u64_inject [simp]: "put_u64 v = put_u64 w \<longleftrightarrow> v = w"
  by (metis get_put_u64 append_Nil2 option.inject)

section \<open>Words\<close>

lemma unat_Suc_word: "(w::'a::len word) < v \<Longrightarrow> unat (w + 1) = Suc (unat w)"
  by unat_arith

lemma low7_mask: "(0x7f::'a::len word) = mask 7"
  by (simp add: mask_eq_exp_minus_1)

lemma bit_0x80: "bit (0x80::'a::len word) n \<longleftrightarrow> n = 7 \<and> 7 < LENGTH('a)"
proof -
  have e: "(0x80::'a word) = 2 ^ 7" by simp
  show ?thesis unfolding e bit_exp_iff by auto
qed

lemma bit_0x80_int: "bit (0x80::int) n \<longleftrightarrow> n = 7"
proof -
  have e: "(0x80::int) = 2 ^ 7" by simp
  show ?thesis unfolding e bit_exp_iff by auto
qed

lemma take_bit_7_small: "x < 0x80 \<Longrightarrow> take_bit 7 x = (x::'a::len word)"
  by (simp add: take_bit_eq_mod word_unat_eq_iff unat_mod word_less_nat_alt)

end
