(* ===== verification/Pair_Codec.thy ===== *)
theory Pair_Codec
  imports Prelude
begin

text \<open>
  The byte format of a key-value snapshot (\<^verbatim>\<open>storage/pair.go\<close>): a sequence of records, each
  the 32-bit size of the record, the 32-bit size of the key, the key and the value.

  Slicing a Go slice is bounded by its capacity, not by its length: \<^verbatim>\<open>encs[a:b]\<close> may read
  the bytes behind the slice. \<open>Decode\<close> therefore takes these bytes, \<open>spare\<close>, beside the slice.
  The copy \<^verbatim>\<open>append([]byte{}, ..)\<close> that \<^verbatim>\<open>decode\<close> gets may have spare capacity too, but there a
  key that runs over the end makes the slicing of the value panic, so no result depends on it.
\<close>

record Pair =
  Key :: bytes
  Val :: bytes

definition Pair_String :: "Pair \<Rightarrow> bytes" where
  "Pair_String p = text_bytes ''Pair{Key: '' @ Key p @ text_bytes '', Val: '' @ Val p @ text_bytes ''}''"

definition encode :: "Pair \<Rightarrow> bytes" where
  "encode p =
     (let ksize = length (Key p); vsize = length (Val p)
      in put_u32 (word_of_nat (ksize + vsize + 8)) @ put_u32 (word_of_nat ksize) @ Key p @ Val p)"

fun Encode :: "Pair list \<Rightarrow> bytes" where
  "Encode [] = []"
| "Encode (p # ps) = encode p @ Encode ps"

definition decode :: "bytes \<Rightarrow> Pair run" where
  "decode enc =
     (if length enc < 4 then panic
      else do {
        ksize \<leftarrow> get_u32 (drop 4 enc);
        let e = unat (8 + ksize);
        if 8 \<le> e \<and> e \<le> length enc
        then Some \<lparr>Key = take (e - 8) (drop 8 enc), Val = drop e enc\<rparr>
        else panic
      })"

lemma decode_long: "decode enc = Some p \<Longrightarrow> 8 \<le> length enc"
  by (auto simp: decode_def Let_def split: if_splits)

text \<open>The loop of \<^verbatim>\<open>Decode\<close>, on what is left of the slice from \<^verbatim>\<open>offset\<close> on.\<close>

function Decode :: "bytes \<Rightarrow> bytes \<Rightarrow> Pair list run" where
  "Decode spare encs =
     (if encs = [] then Some []
      else case get_u32 encs of
        None \<Rightarrow> panic
      | Some i \<Rightarrow>
          if unat i > length encs + length spare then panic
          else (case decode (take (unat i) (encs @ spare)) of
                  None \<Rightarrow> panic
                | Some p \<Rightarrow> map_option (\<lambda>ps. p # ps) (Decode spare (drop (unat i) encs))))"
  by pat_completeness auto
termination
  by (relation "measure (\<lambda>(_, encs). length encs)") (auto dest!: decode_long)

declare Decode.simps [simp del]

section \<open>Round trips\<close>

text \<open>A pair that the 32-bit size field can describe.\<close>

definition pair_fits :: "Pair \<Rightarrow> bool" where
  "pair_fits p \<longleftrightarrow> length (Key p) + length (Val p) + 8 < 2 ^ 32"

lemma length_encode [simp]: "length (encode p) = 8 + length (Key p) + length (Val p)"
  by (simp add: encode_def Let_def)

lemma encode_nonempty [simp]: "encode p \<noteq> []"
  using length_encode [of p] by (metis add_is_0 list.size(3) zero_neq_numeral)

lemma get_u32_encode: "get_u32 (encode p @ r) = Some (word_of_nat (8 + length (Key p) + length (Val p)))"
  by (simp add: encode_def Let_def add.commute add.left_commute)

lemma decode_encode [simp, roundtrip]:
  assumes "pair_fits p"
  shows "decode (encode p) = Some p"
proof -
  have "unat (8 + word_of_nat (length (Key p)) :: u32) = 8 + length (Key p)"
    using assms by (simp add: pair_fits_def unat_word_ariths unat_of_nat)
  then show ?thesis by (simp add: decode_def encode_def Let_def)
qed

lemma Decode_step:
  assumes "pair_fits p"
  shows "Decode spare (encode p @ r) = map_option (\<lambda>ps. p # ps) (Decode spare r)"
proof -
  have "unat (word_of_nat (8 + length (Key p) + length (Val p)) :: u32)
      = 8 + length (Key p) + length (Val p)"
    using assms by (simp add: pair_fits_def unat_of_nat del: of_nat_add)
  then show ?thesis
    by (subst Decode.simps) (use assms in \<open>simp add: get_u32_encode del: of_nat_add\<close>)
qed

lemma Decode_Encode [roundtrip]:
  "list_all pair_fits ps \<Longrightarrow> Decode spare (Encode ps) = Some ps"
proof (induction ps)
  case Nil
  then show ?case by (subst Decode.simps) simp
next
  case (Cons p ps)
  then show ?case by (simp add: Decode_step)
qed

subsection \<open>Nothing else decodes\<close>

lemma byte_bound: "unat (b :: byte) < 256"
  using unsigned_less [of b] by simp

lemma le_bytes_le_nat: "le_bytes (length bs) (le_nat bs) = bs"
  by (induction bs) (auto simp: unat_byte_of_nat byte_bound)

lemma put_get_u32: "get_u32 bs = Some w \<Longrightarrow> put_u32 w = take 4 bs"
proof -
  assume a: "get_u32 bs = Some w"
  then have l: "4 \<le> length bs" and w: "w = word_of_nat (le_nat (take 4 bs))"
    by (auto simp: get_u32_def split: if_splits)
  have "le_nat xs < 256 ^ length xs" for xs :: bytes
  proof (induction xs)
    case (Cons x xs)
    then show ?case using byte_bound [of x] by simp
  qed simp
  from this [of "take 4 bs"] l have "unat w = le_nat (take 4 bs)"
    by (simp add: w unat_of_nat)
  then show ?thesis using le_bytes_le_nat [of "take 4 bs"] l by (simp add: put_u32_def)
qed

lemma decode_sound:
  assumes "decode enc = Some p"
  shows "enc = take 4 enc @ drop 4 (encode p)" "length enc = 8 + length (Key p) + length (Val p)"
proof -
  from assms obtain ksize where l: "4 \<le> length enc" and g: "get_u32 (drop 4 enc) = Some ksize"
    and e: "8 \<le> unat (8 + ksize)" "unat (8 + ksize) \<le> length enc"
    and p: "p = \<lparr>Key = take (unat (8 + ksize) - 8) (drop 8 enc), Val = drop (unat (8 + ksize)) enc\<rparr>"
    by (auto simp: decode_def Let_def split: if_splits)
  have n: "unat (8 + ksize) = 8 + unat ksize"
    using e(1) by unat_arith
  show "length enc = 8 + length (Key p) + length (Val p)"
    using e by (simp add: p n)
  have "put_u32 ksize = take 4 (drop 4 enc)"
    using put_get_u32 [OF g] .
  moreover have "length (Key p) = unat ksize" using e by (simp add: p n)
  ultimately have "drop 4 (encode p) = take 4 (drop 4 enc) @ take (unat ksize) (drop 8 enc)
      @ drop (8 + unat ksize) enc"
    by (simp add: encode_def Let_def) (simp add: p n)
  also have "\<dots> = drop 4 enc"
    by (metis (no_types, opaque_lifting) append_take_drop_id drop_drop add.commute
        numeral_Bit0)
  finally show "enc = take 4 enc @ drop 4 (encode p)" by simp
qed

lemma encode_decode:
  assumes "decode enc = Some p" "get_u32 enc = Some i" "length enc = unat i"
  shows "encode p = enc" "pair_fits p"
proof -
  note s = decode_sound [OF assms(1)]
  have "word_of_nat (8 + length (Key p) + length (Val p)) = i"
    by (metis s(2) assms(3) of_nat_unat ucast_id)
  then have "take 4 (encode p) = put_u32 i"
    by (simp add: encode_def Let_def add.commute add.left_commute)
  also have "\<dots> = take 4 enc" by (rule put_get_u32 [OF assms(2)])
  finally show "encode p = enc" using s(1) by (metis append_take_drop_id)
  show "pair_fits p" using s(2) assms(3) unsigned_less [of i, where 'a = nat] by (simp add: pair_fits_def)
qed

lemma Encode_Decode:
  "Decode [] bs = Some ps \<Longrightarrow> Encode ps = bs \<and> list_all pair_fits ps"
proof (induction "[] :: bytes" bs arbitrary: ps rule: Decode.induct)
  case (1 bs)
  show ?case
  proof (cases "bs = []")
    case True
    with "1.prems" show ?thesis by (subst (asm) Decode.simps) simp
  next
    case False
    with "1.prems" obtain i p ps' where i: "get_u32 bs = Some i" and len: "\<not> unat i > length bs"
      and p: "decode (take (unat i) bs) = Some p"
      and rest: "Decode [] (drop (unat i) bs) = Some ps'" and ps: "ps = p # ps'"
      by (subst (asm) Decode.simps) (auto split: option.splits if_splits)
    have "get_u32 (take (unat i) bs) = Some i"
      using i decode_long [OF p] by (simp add: get_u32_def min_def split: if_splits)
    then have e: "encode p = take (unat i) bs" "pair_fits p"
      using encode_decode [OF p] len by simp_all
    have "Encode ps' = drop (unat i) bs \<and> list_all pair_fits ps'"
      using "1.hyps" [OF False i _ _ rest, of p] len p by simp
    with e ps show ?thesis by simp
  qed
qed

subsection \<open>Records that do not fit\<close>

text \<open>A shorter size than the record header is never accepted.\<close>

lemma Decode_small_size:
  assumes "bs \<noteq> []" "get_u32 bs = Some i" "unat i < 8"
  shows "Decode spare bs = panic"
proof -
  have "decode (take (unat i) (bs @ spare)) = panic"
    using assms(3) decode_long [of "take (unat i) (bs @ spare)"]
    by (cases "decode (take (unat i) (bs @ spare))") auto
  then show ?thesis using assms by (subst Decode.simps) auto
qed

text \<open>A pair of \<open>2 ^ 32\<close> bytes or more is written with a wrapped size: its record is not read
  back as one pair.\<close>

lemma oversized_not_read_back:
  assumes "length (Key p) + length (Val p) + 8 = 2 ^ 32 + n" "n < 8"
  shows "Decode spare (encode p) = panic"
proof (rule Decode_small_size)
  show "get_u32 (encode p) = Some (word_of_nat n)"
  proof -
    have "(word_of_nat (8 + length (Key p) + length (Val p)) :: u32) = word_of_nat (2 ^ 32 + n)"
      using assms(1) by (metis add.commute add.left_commute)
    also have "\<dots> = word_of_nat n"
      by (rule word_unat_eq_iff [THEN iffD2]) (simp add: unat_of_nat del: of_nat_add)
    finally show ?thesis using get_u32_encode [of p "[]"] by simp
  qed
  show "unat (word_of_nat n :: u32) < 8" using assms(2) by (simp add: unat_of_nat)
qed simp

end
