(* ===== verification/Engines.thy ===== *)
theory Engines
  imports Pair_Codec "HOL-Library.AList"
begin

text \<open>
  The storage engines (\<^verbatim>\<open>storage/storage.go\<close>, \<^verbatim>\<open>engines.go\<close>, \<^verbatim>\<open>modify.go\<close>): a pair of Pebble
  databases, one for the user's data and one for the raft meta data.

  Pebble is a library the code calls. It is a parameter: the record \<open>'d pebble\<close> of the
  operations the code uses on a database of type \<open>'d\<close>. What the code relies on is
  \<open>pebble_ok\<close> (a write that reports no error is read back and leaves the other keys alone, an
  iterator visits every key once) and, where the code drops errors, \<open>healthy\<close> (no operation
  fails). \<open>mem_pebble\<close> is a concrete instance, on which the witnesses are evaluated.
\<close>

section \<open>Errors\<close>

text \<open>The error values of the store: Pebble's, the standard library's and other libraries'
  (numbered), and the ones the code makes itself.\<close>

datatype err =
    PebbleNotFound
  | PebbleErr nat
  | OsErr nat
  | ProtoErr
  | RaftErr nat
  | ErrUnknownModify
  | ErrNotFound
  | ErrCompacted
  | ErrSnapOutOfDate
  | ErrUnavailable
  | ErrSnapshotTemporarilyUnavailable
  | ErrRangeLow u64 u64
  | ErrRangeHigh u64
  | ErrSnapTried int
  | ErrLostReadResponse

section \<open>Pebble\<close>

datatype WriteOptions = Pebble_Sync | Pebble_NoSync

record 'd pebble =
  pb_set :: "bytes \<Rightarrow> bytes \<Rightarrow> WriteOptions \<Rightarrow> 'd \<Rightarrow> err option \<times> 'd"
  pb_get :: "bytes \<Rightarrow> 'd \<Rightarrow> err + bytes"
  pb_delete :: "bytes \<Rightarrow> WriteOptions \<Rightarrow> 'd \<Rightarrow> err option \<times> 'd"
  pb_iter :: "'d \<Rightarrow> (bytes \<times> bytes) list"
  pb_close :: "'d \<Rightarrow> err option"

definition contents :: "'d pebble \<Rightarrow> 'd \<Rightarrow> bytes \<Rightarrow> bytes option" where
  "contents P d k = (case pb_get P k d of Inl _ \<Rightarrow> None | Inr v \<Rightarrow> Some v)"

definition pebble_ok :: "'d pebble \<Rightarrow> bool" where
  "pebble_ok P \<longleftrightarrow>
     (\<forall>k v s d d'. pb_set P k v s d = (None, d') \<longrightarrow> contents P d' = (contents P d)(k \<mapsto> v)) \<and>
     (\<forall>k s d d'. pb_delete P k s d = (None, d') \<longrightarrow> contents P d' = (contents P d)(k := None)) \<and>
     (\<forall>d. map_of (pb_iter P d) = contents P d \<and> distinct (map fst (pb_iter P d)))"

definition healthy :: "'d pebble \<Rightarrow> bool" where
  "healthy P \<longleftrightarrow>
     (\<forall>k v s d. fst (pb_set P k v s d) = None) \<and> (\<forall>k s d. fst (pb_delete P k s d) = None) \<and>
     (\<forall>k d e. pb_get P k d = Inl e \<longrightarrow> e = PebbleNotFound)"

text \<open>A map of byte strings, kept as an association list.\<close>

definition mem_pebble :: "(bytes \<times> bytes) list pebble" where
  "mem_pebble =
     \<lparr>pb_set = (\<lambda>k v s d. (None, AList.update k v d)),
      pb_get = (\<lambda>k d. case map_of d k of None \<Rightarrow> Inl PebbleNotFound | Some v \<Rightarrow> Inr v),
      pb_delete = (\<lambda>k s d. (None, AList.delete k d)),
      pb_iter = AList.clearjunk,
      pb_close = (\<lambda>d. None)\<rparr>"

lemma contents_mem_pebble: "contents mem_pebble d = map_of d"
  by (rule ext) (simp add: contents_def mem_pebble_def split: option.splits)

lemma mem_pebble_ok [simp]: "pebble_ok mem_pebble"
  unfolding pebble_ok_def contents_mem_pebble
  by (auto simp: mem_pebble_def update_conv' delete_conv' map_of_clearjunk distinct_clearjunk)

lemma mem_pebble_healthy [simp]: "healthy mem_pebble"
  by (auto simp: healthy_def mem_pebble_def split: option.splits)

lemma contents_set:
  assumes "pebble_ok P" "healthy P"
  shows "contents P (snd (pb_set P k v s d)) = (contents P d)(k \<mapsto> v)"
  using assms unfolding pebble_ok_def healthy_def by (metis prod.collapse)

lemma contents_delete:
  assumes "pebble_ok P" "healthy P"
  shows "contents P (snd (pb_delete P k s d)) = (contents P d)(k := None)"
  using assms unfolding pebble_ok_def healthy_def by (metis prod.collapse)

lemma healthy_get:
  "healthy P \<Longrightarrow> pb_get P k d = (case contents P d k of None \<Rightarrow> Inl PebbleNotFound | Some v \<Rightarrow> Inr v)"
  by (auto simp: healthy_def contents_def split: sum.splits option.splits)

section \<open>One database: storage.go\<close>

definition toWriteOptions :: "bool \<Rightarrow> WriteOptions" where
  "toWriteOptions sync = (if sync then Pebble_Sync else Pebble_NoSync)"

definition storage_set :: "'d pebble \<Rightarrow> bytes \<Rightarrow> bytes \<Rightarrow> bool \<Rightarrow> 'd \<Rightarrow> err option \<times> 'd" where
  "storage_set P key val sync d = pb_set P key val (toWriteOptions sync) d"

text \<open>An empty value comes back as nil.\<close>

definition storage_get :: "'d pebble \<Rightarrow> bytes \<Rightarrow> 'd \<Rightarrow> err + bytes option" where
  "storage_get P key d =
     (case pb_get P key d of
        Inl e \<Rightarrow> Inl e
      | Inr val \<Rightarrow> if length val = 0 then Inr None else Inr (Some val))"

definition storage_delete :: "'d pebble \<Rightarrow> bytes \<Rightarrow> bool \<Rightarrow> 'd \<Rightarrow> err option \<times> 'd" where
  "storage_delete P key sync d = pb_delete P key (toWriteOptions sync) d"

definition storage_snapshot :: "'d pebble \<Rightarrow> 'd \<Rightarrow> bytes" where
  "storage_snapshot P d = Encode (map (\<lambda>(k, v). \<lparr>Key = k, Val = v\<rparr>) (pb_iter P d))"

definition storage_close :: "'d pebble \<Rightarrow> 'd \<Rightarrow> err option" where
  "storage_close P d = pb_close P d"

section \<open>Modifications: modify.go\<close>

text \<open>The dynamic type of \<^verbatim>\<open>Data\<close>: a put, a delete, or anything else.\<close>

datatype modify = Put bytes bytes bool | Delete bytes bool | OtherData

definition PutMeta :: "bytes \<Rightarrow> ('m \<Rightarrow> bytes) \<Rightarrow> 'm \<Rightarrow> bool \<Rightarrow> modify" where
  "PutMeta key marshal msg sync = Put key (marshal msg) sync"

definition DeleteMeta :: "bytes \<Rightarrow> bool \<Rightarrow> modify" where
  "DeleteMeta key sync = Delete key sync"

definition PutData :: "bytes \<Rightarrow> bytes \<Rightarrow> bool \<Rightarrow> modify" where
  "PutData key val sync = Put key val sync"

definition DeleteData :: "bytes \<Rightarrow> bool \<Rightarrow> modify" where
  "DeleteData key sync = Delete key sync"

fun modify_Key :: "modify \<Rightarrow> bytes option" where
  "modify_Key (Put key val sync) = Some key"
| "modify_Key (Delete key sync) = Some key"
| "modify_Key OtherData = None"

fun modify_Value :: "modify \<Rightarrow> bytes option" where
  "modify_Value (Put key val sync) = Some val"
| "modify_Value (Delete key sync) = None"
| "modify_Value OtherData = None"

fun modify_Sync :: "modify \<Rightarrow> bool" where
  "modify_Sync (Put key val sync) = sync"
| "modify_Sync (Delete key sync) = sync"
| "modify_Sync OtherData = False"

text \<open>A nil slice handed to Pebble is an empty key or value.\<close>

definition slice :: "bytes option \<Rightarrow> bytes" where
  "slice b = (case b of None \<Rightarrow> [] | Some x \<Rightarrow> x)"

lemma slice_simps [simp]: "slice None = []" "slice (Some x) = x"
  by (simp_all add: slice_def)

section \<open>The two databases: engines.go\<close>

record 'd engines =
  kv :: 'd
  kvPath :: string
  meta :: 'd
  metaPath :: string

text \<open>Opening a database: the file system's answers and Pebble's \<^verbatim>\<open>Open\<close> are parameters.\<close>

definition exist :: "(string \<Rightarrow> err option) \<Rightarrow> string \<Rightarrow> bool" where
  "exist stat name = (case stat name of None \<Rightarrow> True | Some _ \<Rightarrow> False)"

definition newStorage ::
    "(string \<Rightarrow> err option) \<Rightarrow> (string \<Rightarrow> err option) \<Rightarrow> (string \<Rightarrow> err + 'd) \<Rightarrow> string \<Rightarrow> 'd run" where
  "newStorage stat mkdirAll open dir =
     (if \<not> exist stat dir \<and> mkdirAll dir \<noteq> None then panic
      else case open dir of Inl _ \<Rightarrow> panic | Inr d \<Rightarrow> Some d)"

definition NewEngines ::
    "(string \<Rightarrow> err option) \<Rightarrow> (string \<Rightarrow> err option) \<Rightarrow> (string \<Rightarrow> err + 'd) \<Rightarrow> string \<Rightarrow> string
     \<Rightarrow> 'd engines run" where
  "NewEngines stat mkdirAll open kvP raftP =
     do {
       d \<leftarrow> newStorage stat mkdirAll open kvP;
       d' \<leftarrow> newStorage stat mkdirAll open raftP;
       Some \<lparr>kv = d, kvPath = kvP, meta = d', metaPath = raftP\<rparr>
     }"

definition WriteKV :: "'d pebble \<Rightarrow> modify \<Rightarrow> 'd engines \<Rightarrow> err option \<times> 'd engines" where
  "WriteKV P m e =
     (case m of
        Put _ _ _ \<Rightarrow>
          (let (er, d) = storage_set P (slice (modify_Key m)) (slice (modify_Value m)) (modify_Sync m) (kv e)
           in (er, e\<lparr>kv := d\<rparr>))
      | Delete _ _ \<Rightarrow>
          (let (er, d) = storage_delete P (slice (modify_Key m)) (modify_Sync m) (kv e)
           in (er, e\<lparr>kv := d\<rparr>))
      | OtherData \<Rightarrow> (Some ErrUnknownModify, e))"

definition WriteMeta :: "'d pebble \<Rightarrow> modify \<Rightarrow> 'd engines \<Rightarrow> err option \<times> 'd engines" where
  "WriteMeta P m e =
     (case m of
        Put _ _ _ \<Rightarrow>
          (let (er, d) = storage_set P (slice (modify_Key m)) (slice (modify_Value m)) (modify_Sync m) (meta e)
           in (er, e\<lparr>meta := d\<rparr>))
      | Delete _ _ \<Rightarrow>
          (let (er, d) = storage_delete P (slice (modify_Key m)) (modify_Sync m) (meta e)
           in (er, e\<lparr>meta := d\<rparr>))
      | OtherData \<Rightarrow> (Some ErrUnknownModify, e))"

definition ReadKV :: "'d pebble \<Rightarrow> bytes \<Rightarrow> 'd engines \<Rightarrow> err + bytes option" where
  "ReadKV P key e =
     (case storage_get P key (kv e) of
        Inl er \<Rightarrow> if er = PebbleNotFound then Inl ErrNotFound else Inl er
      | Inr v \<Rightarrow> Inr v)"

definition ReadMeta :: "'d pebble \<Rightarrow> bytes \<Rightarrow> 'd engines \<Rightarrow> err + bytes option" where
  "ReadMeta P key e =
     (case storage_get P key (meta e) of
        Inl er \<Rightarrow> if er = PebbleNotFound then Inl ErrNotFound else Inl er
      | Inr v \<Rightarrow> Inr v)"

definition KVSnapshot :: "'d pebble \<Rightarrow> 'd engines \<Rightarrow> bytes" where
  "KVSnapshot P e = storage_snapshot P (kv e)"

definition Close :: "'d pebble \<Rightarrow> 'd engines \<Rightarrow> err option" where
  "Close P e =
     (case storage_close P (kv e) of
        Some er \<Rightarrow> Some er
      | None \<Rightarrow> storage_close P (meta e))"

text \<open>\<^verbatim>\<open>os.RemoveAll\<close> is a parameter on the state \<open>'f\<close> of the file system.\<close>

definition Destroy ::
    "'d pebble \<Rightarrow> (string \<Rightarrow> 'f \<Rightarrow> err option \<times> 'f) \<Rightarrow> 'd engines \<Rightarrow> 'f \<Rightarrow> err option \<times> 'f" where
  "Destroy P rmAll e f =
     (case Close P e of
        Some er \<Rightarrow> (Some er, f)
      | None \<Rightarrow>
          (case rmAll (kvPath e) f of
             (Some er, f') \<Rightarrow> (Some er, f')
           | (None, f') \<Rightarrow> rmAll (metaPath e) f'))"

subsection \<open>What the engines hold\<close>

abbreviation kv_map :: "'d pebble \<Rightarrow> 'd engines \<Rightarrow> bytes \<Rightarrow> bytes option" where
  "kv_map P e \<equiv> contents P (kv e)"

abbreviation meta_map :: "'d pebble \<Rightarrow> 'd engines \<Rightarrow> bytes \<Rightarrow> bytes option" where
  "meta_map P e \<equiv> contents P (meta e)"

lemmas write_defs =
  WriteKV_def WriteMeta_def storage_set_def storage_delete_def
  PutMeta_def DeleteMeta_def PutData_def DeleteData_def

lemma WriteKV_Put [simp]:
  assumes "pebble_ok P" "healthy P"
  shows "fst (WriteKV P (Put k v s) e) = None"
    "kv_map P (snd (WriteKV P (Put k v s) e)) = (kv_map P e)(k \<mapsto> v)"
  using assms contents_set [OF assms]
  by (auto simp: write_defs healthy_def split: prod.splits) (metis fst_conv snd_conv)+

lemma WriteKV_Delete [simp]:
  assumes "pebble_ok P" "healthy P"
  shows "fst (WriteKV P (Delete k s) e) = None"
    "kv_map P (snd (WriteKV P (Delete k s) e)) = (kv_map P e)(k := None)"
  using assms contents_delete [OF assms]
  by (auto simp: write_defs healthy_def split: prod.splits) (metis fst_conv snd_conv)+

lemma WriteMeta_Put [simp]:
  assumes "pebble_ok P" "healthy P"
  shows "fst (WriteMeta P (Put k v s) e) = None"
    "meta_map P (snd (WriteMeta P (Put k v s) e)) = (meta_map P e)(k \<mapsto> v)"
  using assms contents_set [OF assms]
  by (auto simp: write_defs healthy_def split: prod.splits) (metis fst_conv snd_conv)+

lemma WriteMeta_Delete [simp]:
  assumes "pebble_ok P" "healthy P"
  shows "fst (WriteMeta P (Delete k s) e) = None"
    "meta_map P (snd (WriteMeta P (Delete k s) e)) = (meta_map P e)(k := None)"
  using assms contents_delete [OF assms]
  by (auto simp: write_defs healthy_def split: prod.splits) (metis fst_conv snd_conv)+

lemma WriteKV_frame [simp, frame]:
  "meta (snd (WriteKV P m e)) = meta e" "kvPath (snd (WriteKV P m e)) = kvPath e"
  "metaPath (snd (WriteKV P m e)) = metaPath e"
  by (auto simp: WriteKV_def split: modify.splits prod.splits)

lemma WriteMeta_frame [simp, frame]:
  "kv (snd (WriteMeta P m e)) = kv e" "kvPath (snd (WriteMeta P m e)) = kvPath e"
  "metaPath (snd (WriteMeta P m e)) = metaPath e"
  by (auto simp: WriteMeta_def split: modify.splits prod.splits)

text \<open>What a read returns of a stored value: nil for an empty one.\<close>

definition nil_if_empty :: "bytes \<Rightarrow> bytes option" where
  "nil_if_empty v = (if v = [] then None else Some v)"

lemma slice_nil_if_empty [simp]: "slice (nil_if_empty v) = v"
  by (simp add: nil_if_empty_def)

lemma ReadKV_healthy:
  "healthy P \<Longrightarrow> ReadKV P k e =
     (case kv_map P e k of None \<Rightarrow> Inl ErrNotFound | Some v \<Rightarrow> Inr (nil_if_empty v))"
  by (auto simp: ReadKV_def storage_get_def healthy_get nil_if_empty_def split: option.splits)

lemma ReadMeta_healthy:
  "healthy P \<Longrightarrow> ReadMeta P k e =
     (case meta_map P e k of None \<Rightarrow> Inl ErrNotFound | Some v \<Rightarrow> Inr (nil_if_empty v))"
  by (auto simp: ReadMeta_def storage_get_def healthy_get nil_if_empty_def split: option.splits)

text \<open>A value that is there is read even where other reads may fail.\<close>

lemma storage_get_present:
  "contents P d k = Some v \<Longrightarrow> storage_get P k d = Inr (nil_if_empty v)"
  by (auto simp: contents_def storage_get_def nil_if_empty_def split: sum.splits)

lemma ReadKV_present: "kv_map P e k = Some v \<Longrightarrow> ReadKV P k e = Inr (nil_if_empty v)"
  by (simp add: ReadKV_def storage_get_present)

lemma ReadMeta_present: "meta_map P e k = Some v \<Longrightarrow> ReadMeta P k e = Inr (nil_if_empty v)"
  by (simp add: ReadMeta_def storage_get_present)

subsection \<open>Snapshots\<close>

definition kv_fits :: "(bytes \<Rightarrow> bytes option) \<Rightarrow> bool" where
  "kv_fits m \<longleftrightarrow> (\<forall>k v. m k = Some v \<longrightarrow> length k + length v + 8 < 2 ^ 32)"

lemma KVSnapshot_decodes:
  assumes "pebble_ok P" "kv_fits (kv_map P e)"
  shows "Decode spare (KVSnapshot P e) = Some (map (\<lambda>(k, v). \<lparr>Key = k, Val = v\<rparr>) (pb_iter P (kv e)))"
proof -
  have it: "map_of (pb_iter P (kv e)) = kv_map P e" "distinct (map fst (pb_iter P (kv e)))"
    using assms(1) by (auto simp: pebble_ok_def)
  have "list_all pair_fits (map (\<lambda>(k, v). \<lparr>Key = k, Val = v\<rparr>) (pb_iter P (kv e)))"
    using assms(2) map_of_is_SomeI [OF it(2)] it(1)
    by (fastforce simp: list_all_iff kv_fits_def pair_fits_def)
  then show ?thesis by (simp add: KVSnapshot_def storage_snapshot_def Decode_Encode)
qed

end
