(* ===== verification/Wire.thy ===== *)
theory Wire
  imports Prelude
begin

text \<open>
  The protobuf wire format, as far as the store's messages need it: base-128 varints,
  length-delimited fields, and the scan of a message into its fields. Two decoders are
  in use and both are here: the generated code of \<^verbatim>\<open>raftpb\<close> (\<open>Gogo\<close>) and the runtime of
  \<^verbatim>\<open>google.golang.org/protobuf\<close> (\<open>Golang\<close>), which decodes \<^verbatim>\<open>raftstorepb\<close>. They differ in the
  tenth byte of a varint, in the field numbers they accept, in what a known field of the
  wrong wire type is (an error, an unknown field) and in how they skip groups.

  A decoder's error is \<open>None\<close>: every caller only asks whether there was one.
\<close>

section \<open>Varints\<close>

function encodeVarintRaft :: "u64 \<Rightarrow> bytes" where
  "encodeVarintRaft v =
     (if v < 0x80 then [ucast v]
      else ucast (v AND 0x7f OR 0x80) # encodeVarintRaft (drop_bit 7 v))"
  by pat_completeness auto
termination
  by (relation "measure unat")
    (auto simp: unat_drop_bit_eq drop_bit_eq_div word_less_nat_alt unat_div)

declare encodeVarintRaft.simps [simp del]

datatype proto_impl = Gogo | Golang

fun varint :: "proto_impl \<Rightarrow> nat \<Rightarrow> u64 \<Rightarrow> bytes \<Rightarrow> (u64 \<times> bytes) option" where
  "varint impl shift acc [] = None"
| "varint impl shift acc (b # bs) =
     (if shift \<ge> 64 then None
      else if impl = Golang \<and> shift = 63 \<and> b \<ge> 2 then None
      else let acc' = acc OR push_bit shift (ucast (b AND 0x7f)) in
           if b < 0x80 then Some (acc', bs) else varint impl (shift + 7) acc' bs)"

abbreviation getVarint :: "proto_impl \<Rightarrow> bytes \<Rightarrow> (u64 \<times> bytes) option" where
  "getVarint impl bs \<equiv> varint impl 0 0 bs"

lemma varint_shorter: "varint impl s acc bs = Some (v, r) \<Longrightarrow> length r < length bs"
  by (induction impl s acc bs rule: varint.induct) (auto simp: Let_def split: if_splits)

text \<open>Encoding, then decoding: the loop invariant is that the low \<open>s\<close> bits have been read.\<close>

lemma low7_more: "(ucast (x AND 0x7f OR 0x80 :: u64) :: byte) AND 0x7f = ucast (take_bit 7 x)"
  by (rule bit_word_eqI) (auto simp: bit_simps low7_mask bit_0x80 bit_0x80_int)

lemma low7_last: "(ucast (x::u64) :: byte) AND 0x7f = ucast (take_bit 7 x)"
  by (rule bit_word_eqI) (auto simp: bit_simps low7_mask)

lemma ucast_low7: "(ucast (ucast (take_bit 7 x :: u64) :: byte) :: u64) = take_bit 7 x"
  by (rule bit_word_eqI) (auto simp: bit_simps)

lemma take_bit_step:
  "take_bit s v OR push_bit s (take_bit 7 (drop_bit s v)) = take_bit (s + 7) (v::u64)"
proof (rule bit_word_eqI)
  fix n assume "n < LENGTH(64)"
  then show "bit (take_bit s v OR push_bit s (take_bit 7 (drop_bit s v))) n
    = bit (take_bit (s + 7) v) n"
    by (cases "n < s") (auto simp: bit_or_iff bit_take_bit_iff bit_push_bit_iff bit_drop_bit_eq)
qed

lemma more_byte: "\<not> (ucast (x AND 0x7f OR 0x80 :: u64) :: byte) < 0x80"
proof -
  have "bit (ucast (x AND 0x7f OR 0x80 :: u64) :: byte) 7" by (simp add: bit_simps bit_0x80)
  moreover have "y < 0x80 \<Longrightarrow> \<not> bit y 7" for y :: byte
    using take_bit_7_small [of y] by (metis bit_take_bit_iff less_irrefl)
  ultimately show ?thesis by blast
qed

lemma last_byte: "x < 0x80 \<Longrightarrow> (ucast (x::u64) :: byte) < 0x80"
  by (simp add: word_less_nat_alt unsigned_ucast_eq take_bit_nat_eq_self)

lemma drop_bit_bound: "s \<le> 64 \<Longrightarrow> unat (drop_bit s (v::u64)) < 2 ^ (64 - s)"
proof -
  assume s: "s \<le> 64"
  have "unat v < 2 ^ LENGTH(64)" by (rule unsigned_less)
  then have "unat v < 2 ^ (64 - s) * 2 ^ s" using s by (simp flip: power_add)
  then show ?thesis
    by (simp add: unat_drop_bit_eq drop_bit_eq_div [where 'a = nat] less_mult_imp_div_less)
qed

lemma top_byte: "(ucast (drop_bit 63 (v::u64)) :: byte) < 2"
proof -
  have "unat (drop_bit 63 v) < 2" using drop_bit_bound [of 63 v] by simp
  then show ?thesis by (simp add: word_less_nat_alt unsigned_ucast_eq take_bit_nat_eq_self)
qed

lemma take_bit_all: "drop_bit s (v::u64) < 0x80 \<Longrightarrow> take_bit (s + 7) v = v"
proof -
  assume "drop_bit s v < 0x80"
  then have "drop_bit 7 (drop_bit s v) = 0"
    by (simp add: word_unat_eq_iff unat_drop_bit_eq drop_bit_eq_div [where 'a = nat]
        word_less_nat_alt del: drop_bit_drop_bit)
  then have "drop_bit (s + 7) v = 0" by (simp add: add.commute)
  then show ?thesis by (metis bits_ident add_0 push_bit_of_0)
qed

lemma varint_loop:
  "s < 64 \<Longrightarrow> varint impl s (take_bit s v) (encodeVarintRaft (drop_bit s v) @ r) = Some (v, r)"
proof (induction "64 - s" arbitrary: s rule: less_induct)
  case less
  show ?case
  proof (cases "drop_bit s v < 0x80")
    case True
    then show ?thesis
      using less.prems
      by (subst encodeVarintRaft.simps)
        (auto simp: Let_def low7_last ucast_low7 take_bit_step take_bit_all last_byte
          top_byte not_le)
  next
    case False
    have "s + 7 < 64"
    proof (rule ccontr)
      assume "\<not> s + 7 < 64"
      then have "(2::nat) ^ (64 - s) \<le> 2 ^ 7" by (intro power_increasing) auto
      then have "unat (drop_bit s v) < 128"
        using drop_bit_bound [of s v] less.prems by simp
      with False show False by (simp add: word_less_nat_alt)
    qed
    then have "varint impl (s + 7) (take_bit (s + 7) v)
        (encodeVarintRaft (drop_bit (s + 7) v) @ r) = Some (v, r)"
      by (intro less.hyps) auto
    with False less.prems \<open>s + 7 < 64\<close> show ?thesis
      by (subst encodeVarintRaft.simps)
        (simp add: Let_def low7_more ucast_low7 take_bit_step more_byte add.commute)
  qed
qed

declare varint.simps(2) [simp del]

lemma getVarint_encode [simp, roundtrip]:
  "getVarint impl (encodeVarintRaft v @ r) = Some (v, r)"
  using varint_loop [of 0 impl v r] by simp

lemma encodeVarintRaft_nonempty [simp]: "encodeVarintRaft v \<noteq> []"
  by (subst encodeVarintRaft.simps) simp


section \<open>Fields\<close>

text \<open>
  A field on the wire: its number and its payload, a varint (wire type 0) or a
  length-delimited byte string (wire type 2). All the messages modelled here have field
  numbers below 16, so the tag \<open>num << 3 | type\<close> is one byte.
\<close>

datatype wire_val = VInt u64 | VBytes bytes

fun put_field :: "nat \<times> wire_val \<Rightarrow> bytes" where
  "put_field (num, VInt v) = word_of_nat (8 * num) # encodeVarintRaft v"
| "put_field (num, VBytes bs) =
     word_of_nat (8 * num + 2) # encodeVarintRaft (word_of_nat (length bs)) @ bs"

abbreviation put_fields :: "(nat \<times> wire_val) list \<Rightarrow> bytes" where
  "put_fields fs \<equiv> concat (map put_field fs)"

text \<open>What a message declares of a field: a scalar, a length-delimited field, or a repeated
  scalar, which may also come packed into one length-delimited field.\<close>

datatype field_kind = KVarint | KBytes | KPacked

type_synonym schema = "nat \<Rightarrow> field_kind option"

definition scan_tag :: "proto_impl \<Rightarrow> bytes \<Rightarrow> (nat \<times> nat \<times> bytes) option" where
  "scan_tag impl bs =
     (case getVarint impl bs of
        None \<Rightarrow> None
      | Some (wire, r) \<Rightarrow>
          let wt = unat (wire AND 7) in
          (case impl of
             Gogo \<Rightarrow>
               (let fieldNum = ucast (drop_bit 3 wire) :: 32 word in
                if wt = 4 \<or> sint fieldNum \<le> 0 then None else Some (unat fieldNum, wt, r))
           | Golang \<Rightarrow>
               (let n = drop_bit 3 wire in
                if n < 1 \<or> n > 2 ^ 29 - 1 \<or> wt = 4 then None else Some (unat n, wt, r))))"

definition take_bytes :: "nat \<Rightarrow> bytes \<Rightarrow> (bytes \<times> bytes) option" where
  "take_bytes n bs = (if n > length bs then None else Some (take n bs, drop n bs))"

definition get_bytes :: "proto_impl \<Rightarrow> bytes \<Rightarrow> (bytes \<times> bytes) option" where
  "get_bytes impl bs =
     (case getVarint impl bs of None \<Rightarrow> None | Some (n, r) \<Rightarrow> take_bytes (unat n) r)"

subsection \<open>Skipping an unknown field\<close>

text \<open>One turn of \<^verbatim>\<open>skipRaft\<close>'s loop: a tag and its value, with the group depth.\<close>

definition skip_step :: "nat \<Rightarrow> bytes \<Rightarrow> (nat \<times> bytes) option" where
  "skip_step depth bs =
     (case getVarint Gogo bs of
        None \<Rightarrow> None
      | Some (wire, r) \<Rightarrow>
          let wt = unat (wire AND 7) in
          if wt = 0 then map_option (\<lambda>(_, r'). (depth, r')) (getVarint Gogo r)
          else if wt = 1 then map_option (\<lambda>(_, r'). (depth, r')) (take_bytes 8 r)
          else if wt = 2 then map_option (\<lambda>(_, r'). (depth, r')) (get_bytes Gogo r)
          else if wt = 3 then Some (Suc depth, r)
          else if wt = 4 then (if depth = 0 then None else Some (depth - 1, r))
          else if wt = 5 then map_option (\<lambda>(_, r'). (depth, r')) (take_bytes 4 r)
          else None)"

lemma take_bytes_shorter: "take_bytes n bs = Some (x, r) \<Longrightarrow> length r \<le> length bs"
  by (auto simp: take_bytes_def split: if_splits)

lemma get_bytes_shorter: "get_bytes impl bs = Some (x, r) \<Longrightarrow> length r < length bs"
  by (auto simp: get_bytes_def split: option.splits dest!: varint_shorter take_bytes_shorter)

lemma skip_step_shorter: "skip_step d bs = Some (d', r) \<Longrightarrow> length r < length bs"
  by (auto simp: skip_step_def Let_def split: option.splits if_splits
      dest!: varint_shorter take_bytes_shorter get_bytes_shorter)

function skipRaft :: "nat \<Rightarrow> bytes \<Rightarrow> bytes option" where
  "skipRaft depth bs =
     (case skip_step depth bs of
        None \<Rightarrow> None
      | Some (depth', r) \<Rightarrow> if depth' = 0 then Some r else skipRaft depth' r)"
  by pat_completeness auto
termination
  by (relation "measure (\<lambda>(_, bs). length bs)") (auto dest: skip_step_shorter)

declare skipRaft.simps [simp del]

text \<open>
  \<^verbatim>\<open>protowire.ConsumeFieldValue\<close>, its recursion on groups as a loop over the open groups'
  numbers (innermost first); at most 10001 may be open, from \<^verbatim>\<open>DefaultRecursionLimit\<close>.
\<close>

definition consume_value :: "nat list \<Rightarrow> nat \<Rightarrow> nat \<Rightarrow> bytes \<Rightarrow> (nat list \<times> bytes) option" where
  "consume_value gs num wt bs =
     (if wt = 0 then map_option (\<lambda>(_, r). (gs, r)) (getVarint Golang bs)
      else if wt = 5 then map_option (\<lambda>(_, r). (gs, r)) (take_bytes 4 bs)
      else if wt = 1 then map_option (\<lambda>(_, r). (gs, r)) (take_bytes 8 bs)
      else if wt = 2 then map_option (\<lambda>(_, r). (gs, r)) (get_bytes Golang bs)
      else if wt = 3 then (if length gs > 10000 then None else Some (num # gs, bs))
      else None)"

lemma consume_value_shorter:
  "consume_value gs num wt bs = Some (gs', r) \<Longrightarrow> length r \<le> length bs"
  by (auto simp: consume_value_def split: if_splits
      dest!: varint_shorter take_bytes_shorter get_bytes_shorter)

definition consume_tag :: "bytes \<Rightarrow> (nat \<times> nat \<times> bytes) option" where
  "consume_tag bs =
     (case getVarint Golang bs of
        None \<Rightarrow> None
      | Some (v, r) \<Rightarrow>
          let n = unat (drop_bit 3 v) in
          if n < 1 \<or> n > 2 ^ 31 - 1 then None else Some (n, unat (v AND 7), r))"

lemma consume_tag_shorter: "consume_tag bs = Some (n, wt, r) \<Longrightarrow> length r < length bs"
  by (auto simp: consume_tag_def Let_def split: option.splits if_splits dest!: varint_shorter)

function consume_groups :: "nat list \<Rightarrow> bytes \<Rightarrow> bytes option" where
  "consume_groups [] bs = Some bs"
| "consume_groups (g # gs) bs =
     (case consume_tag bs of
        None \<Rightarrow> None
      | Some (num, wt, r) \<Rightarrow>
          if wt = 4 then (if num = g then consume_groups gs r else None)
          else (case consume_value (g # gs) num wt r of
                  None \<Rightarrow> None
                | Some (gs', r') \<Rightarrow> consume_groups gs' r'))"
  by pat_completeness auto
termination
  by (relation "measure (\<lambda>(_, bs). length bs)")
    (auto dest!: consume_tag_shorter consume_value_shorter)

definition skip_field :: "proto_impl \<Rightarrow> nat \<Rightarrow> nat \<Rightarrow> bytes \<Rightarrow> bytes \<Rightarrow> bytes option" where
  "skip_field impl num wt field value =
     (case impl of
        Gogo \<Rightarrow> skipRaft 0 field
      | Golang \<Rightarrow>
          (case consume_value [] num wt value of
             None \<Rightarrow> None
           | Some (gs, r) \<Rightarrow> consume_groups gs r))"


lemma consume_groups_shorter:
  "consume_groups gs bs = Some r \<Longrightarrow> length r \<le> length bs"
proof (induction gs bs rule: consume_groups.induct)
  case (2 g gs bs)
  from "2.prems" obtain num wt s where t: "consume_tag bs = Some (num, wt, s)"
    by (auto split: option.splits)
  note s = consume_tag_shorter [OF t]
  show ?case
  proof (cases "wt = 4")
    case True
    with "2.prems" t have "num = g" "consume_groups gs s = Some r" by (auto split: if_splits)
    with True "2.IH"(1) [OF t refl refl] s show ?thesis by simp
  next
    case False
    with "2.prems" t obtain gs' s' where v: "consume_value (g # gs) num wt s = Some (gs', s')"
      and c: "consume_groups gs' s' = Some r" by (auto split: option.splits)
    from "2.IH"(2) [OF t refl refl False v refl c] consume_value_shorter [OF v] s
    show ?thesis by simp
  qed
qed simp

lemma skipRaft_shorter: "skipRaft d bs = Some r \<Longrightarrow> length r < length bs"
proof (induction d bs rule: skipRaft.induct)
  case (1 d bs)
  from "1.prems" obtain d' r' where st: "skip_step d bs = Some (d', r')"
    and r: "if d' = 0 then r' = r else skipRaft d' r' = Some r"
    by (subst (asm) skipRaft.simps) (auto split: option.splits if_splits)
  from skip_step_shorter [OF st] r "1.IH" [OF st refl] show ?case
    by (auto split: if_splits)
qed

subsection \<open>Scanning a message into its fields\<close>

text \<open>
  A packed repeated scalar: varints are read until at least \<open>n\<close> bytes are used up. The
  generated code bounds each varint by the end of the message, not of the packed field, so
  the last one may run over the field's end.
\<close>

function unpack :: "nat \<Rightarrow> bytes \<Rightarrow> (u64 list \<times> bytes) option" where
  "unpack n bs =
     (if n = 0 then Some ([], bs)
      else case getVarint Gogo bs of
             None \<Rightarrow> None
           | Some (v, r) \<Rightarrow>
               map_option (\<lambda>(vs, r'). (v # vs, r')) (unpack (n - (length bs - length r)) r))"
  by pat_completeness auto
termination
  by (relation "measure (\<lambda>(_, bs). length bs)") (auto dest: varint_shorter)

declare unpack.simps [simp del]

lemma unpack_shorter: "unpack n bs = Some (vs, r) \<Longrightarrow> length r \<le> length bs"
proof (induction n bs arbitrary: vs rule: unpack.induct)
  case (1 n bs)
  show ?case
  proof (cases "n = 0")
    case True
    with "1.prems" show ?thesis by (subst (asm) unpack.simps) simp
  next
    case False
    with "1.prems" obtain v r' vs' where g: "getVarint Gogo bs = Some (v, r')"
      and u: "unpack (n - (length bs - length r')) r' = Some (vs', r)"
      by (subst (asm) unpack.simps) (auto split: option.splits)
    from varint_shorter [OF g] "1.IH" [OF False g refl u] show ?thesis by simp
  qed
qed

definition get_packed :: "bytes \<Rightarrow> (u64 list \<times> bytes) option" where
  "get_packed bs =
     (case getVarint Gogo bs of
        None \<Rightarrow> None
      | Some (n, r) \<Rightarrow> if unat n > length r then None else unpack (unat n) r)"

text \<open>One field: the values it contributes (none for an unknown field) and the rest.\<close>

definition scan_field ::
    "proto_impl \<Rightarrow> schema \<Rightarrow> bytes \<Rightarrow> ((nat \<times> wire_val) list \<times> bytes) option" where
  "scan_field impl sch bs =
     (case scan_tag impl bs of
        None \<Rightarrow> None
      | Some (num, wt, r) \<Rightarrow>
          let unknown = map_option (\<lambda>r'. ([], r')) (skip_field impl num wt bs r);
              wrong = (case impl of Gogo \<Rightarrow> None | Golang \<Rightarrow> unknown);
              scalar = map_option (\<lambda>(v, r'). ([(num, VInt v)], r')) (getVarint impl r)
          in (case sch num of
                None \<Rightarrow> unknown
              | Some KVarint \<Rightarrow> if wt = 0 then scalar else wrong
              | Some KBytes \<Rightarrow>
                  if wt = 2 then map_option (\<lambda>(b, r'). ([(num, VBytes b)], r')) (get_bytes impl r)
                  else wrong
              | Some KPacked \<Rightarrow>
                  if wt = 0 then scalar
                  else if wt = 2 then
                    map_option (\<lambda>(vs, r'). (map (\<lambda>v. (num, VInt v)) vs, r')) (get_packed r)
                  else wrong))"

lemma scan_tag_shorter: "scan_tag impl bs = Some (n, wt, r) \<Longrightarrow> length r < length bs"
  by (auto simp: scan_tag_def Let_def split: option.splits proto_impl.splits if_splits
      dest!: varint_shorter)

lemma skip_field_shorter:
  "skip_field impl n wt bs r = Some r' \<Longrightarrow> length r < length bs \<Longrightarrow> length r' < length bs"
  by (auto simp: skip_field_def split: proto_impl.splits option.splits
      dest!: skipRaft_shorter consume_groups_shorter consume_value_shorter)

lemma get_packed_shorter: "get_packed bs = Some (vs, r) \<Longrightarrow> length r < length bs"
  by (auto simp: get_packed_def split: option.splits if_splits dest!: varint_shorter unpack_shorter)

lemma scan_field_shorter: "scan_field impl sch bs = Some (fs, r) \<Longrightarrow> length r < length bs"
  by (auto simp: scan_field_def Let_def
      split: option.splits field_kind.splits proto_impl.splits if_splits
      dest!: scan_tag_shorter varint_shorter get_bytes_shorter get_packed_shorter
        skip_field_shorter)

function scan :: "proto_impl \<Rightarrow> schema \<Rightarrow> bytes \<Rightarrow> (nat \<times> wire_val) list option" where
  "scan impl sch bs =
     (if bs = [] then Some []
      else case scan_field impl sch bs of
             None \<Rightarrow> None
           | Some (fs, r) \<Rightarrow> map_option (\<lambda>gs. fs @ gs) (scan impl sch r))"
  by pat_completeness auto
termination
  by (relation "measure (\<lambda>(_, _, bs). length bs)") (auto dest: scan_field_shorter)

declare scan.simps [simp del]


section \<open>Round trip of a field list\<close>

text \<open>A field that a decoder with this schema reads back as it was written.\<close>

fun field_fits :: "schema \<Rightarrow> nat \<times> wire_val \<Rightarrow> bool" where
  "field_fits sch (num, VInt v) \<longleftrightarrow>
     0 < num \<and> num < 16 \<and> (sch num = Some KVarint \<or> sch num = Some KPacked)"
| "field_fits sch (num, VBytes bs) \<longleftrightarrow>
     0 < num \<and> num < 16 \<and> sch num = Some KBytes \<and> length bs < 2 ^ 63"

lemma encode_small: "v < 0x80 \<Longrightarrow> encodeVarintRaft v = [ucast v]"
  by (subst encodeVarintRaft.simps) simp

lemma getVarint_byte:
  assumes "t < 128"
  shows "getVarint impl (word_of_nat t # r) = Some (word_of_nat t, r)"
proof -
  have "(word_of_nat t :: u64) < 0x80"
    using assms by (simp add: word_less_nat_alt unat_of_nat)
  then have "encodeVarintRaft (word_of_nat t) = [ucast (word_of_nat t :: u64)]"
    by (rule encode_small)
  moreover have "(ucast (word_of_nat t :: u64) :: byte) = word_of_nat t"
    by (rule word_unat_eq_iff [THEN iffD2])
      (use assms in \<open>simp add: unsigned_ucast_eq unat_of_nat take_bit_nat_eq_self\<close>)
  ultimately show ?thesis
    using getVarint_encode [of impl "word_of_nat t" r] by simp
qed

lemma scan_tag_byte:
  assumes "8 \<le> t" "t < 128" "t mod 8 \<noteq> 4"
  shows "scan_tag impl (word_of_nat t # r) = Some (t div 8, t mod 8, r)"
proof -
  let ?w = "word_of_nat t :: u64"
  have u: "unat ?w = t" using assms by (simp add: unat_of_nat)
  have "(7::u64) = mask 3" by (simp add: mask_eq_exp_minus_1)
  then have "unat (?w AND 7) = unat (take_bit 3 ?w)" by (simp add: take_bit_eq_mask)
  then have low: "unat (?w AND 7) = t mod 8"
    using u by (simp add: unat_mod take_bit_eq_mod)
  have high: "unat (drop_bit 3 ?w) = t div 8"
    using u by (simp add: unat_drop_bit_eq drop_bit_eq_div [where 'a = nat])
  have d: "drop_bit 3 ?w = word_of_nat (t div 8)"
    by (rule word_unat_eq_iff [THEN iffD2]) (use assms high in \<open>simp add: unat_of_nat\<close>)
  have small: "t div 8 < 16" "0 < t div 8" using assms by (auto simp: div_greater_zero_iff)
  have c: "ucast (word_of_nat (t div 8) :: u64) = (word_of_nat (t div 8) :: 32 word)"
    by (rule word_unat_eq_iff [THEN iffD2])
      (use small in \<open>simp add: unsigned_ucast_eq unat_of_nat take_bit_nat_eq_self\<close>)
  have s: "sint (word_of_nat (t div 8) :: 32 word) = int (t div 8)"
    using small by (simp add: signed_of_nat signed_take_bit_int_eq_self)
  show ?thesis
  proof (cases impl)
    case Gogo
    then show ?thesis
      using assms small by (simp add: scan_tag_def getVarint_byte low d c s unat_of_nat)
  next
    case Golang
    have n: "\<not> (word_of_nat (t div 8) :: u64) < 1"
      "\<not> (word_of_nat (t div 8) :: u64) > 2 ^ 29 - 1"
      using small by (simp_all add: word_less_nat_alt unat_of_nat)
    show ?thesis
      using Golang assms small n by (simp add: scan_tag_def getVarint_byte low d unat_of_nat)
  qed
qed

lemma scan_field_put:
  assumes "field_fits sch f"
  shows "scan_field impl sch (put_field f @ r) = Some ([f], r)"
proof (cases f)
  case (Pair num v)
  show ?thesis
  proof (cases v)
    case (VInt w)
    have "scan_tag impl (word_of_nat (8 * num) # x) = Some (num, 0, x)" for x
      using scan_tag_byte [of "8 * num"] assms Pair VInt by simp
    with assms Pair VInt show ?thesis by (auto simp: scan_field_def Let_def)
  next
    case (VBytes bs)
    have dm: "(8 * num + 2) div 8 = num" "(8 * num + 2) mod 8 = 2" by presburger+
    have t: "scan_tag impl (word_of_nat (8 * num + 2) # x) = Some (num, 2, x)" for x
      by (rule scan_tag_byte [of "8 * num + 2" impl x, unfolded dm])
        (use assms Pair VBytes in auto)
    have "unat (word_of_nat (length bs) :: u64) = length bs"
      using assms Pair VBytes by (simp add: unat_of_nat)
    then have "get_bytes impl (encodeVarintRaft (word_of_nat (length bs)) @ bs @ r) = Some (bs, r)"
      by (simp add: get_bytes_def take_bytes_def)
    with t assms Pair VBytes show ?thesis
      by (simp add: scan_field_def Let_def del: of_nat_add of_nat_mult)
  qed
qed

lemma put_field_nonempty [simp]: "put_field f \<noteq> []"
  by (cases f rule: put_field.cases) auto

theorem scan_put_fields [simp, roundtrip]:
  "list_all (field_fits sch) fs \<Longrightarrow> scan impl sch (put_fields fs) = Some fs"
proof (induction fs)
  case Nil
  then show ?case by (subst scan.simps) simp
next
  case (Cons f fs)
  then show ?case by (subst scan.simps) (simp add: scan_field_put)
qed

text \<open>A field that the schema does not have, or has with another wire type, is skipped by the
  golang decoder.\<close>

fun foreign :: "schema \<Rightarrow> nat \<times> wire_val \<Rightarrow> bool" where
  "foreign sch (num, VInt v) \<longleftrightarrow>
     0 < num \<and> num < 16 \<and> sch num \<noteq> Some KVarint \<and> sch num \<noteq> Some KPacked"
| "foreign sch (num, VBytes bs) \<longleftrightarrow>
     0 < num \<and> num < 16 \<and> sch num = None \<and> length bs < 2 ^ 63"

lemma scan_field_foreign:
  assumes "foreign sch f"
  shows "scan_field Golang sch (put_field f @ r) = Some ([], r)"
proof (cases f)
  case (Pair num v)
  show ?thesis
  proof (cases v)
    case (VInt w)
    have "scan_tag Golang (word_of_nat (8 * num) # x) = Some (num, 0, x)" for x
      using scan_tag_byte [of "8 * num"] assms Pair VInt by simp
    with assms Pair VInt show ?thesis
      by (auto simp: scan_field_def Let_def skip_field_def consume_value_def
          split: option.split field_kind.split)
  next
    case (VBytes bs)
    have dm: "(8 * num + 2) div 8 = num" "(8 * num + 2) mod 8 = 2" by presburger+
    have t: "scan_tag Golang (word_of_nat (8 * num + 2) # x) = Some (num, 2, x)" for x
      by (rule scan_tag_byte [of "8 * num + 2" Golang x, unfolded dm])
        (use assms Pair VBytes in auto)
    have "unat (word_of_nat (length bs) :: u64) = length bs"
      using assms Pair VBytes by (simp add: unat_of_nat)
    then have "get_bytes Golang (encodeVarintRaft (word_of_nat (length bs)) @ bs @ r) = Some (bs, r)"
      by (simp add: get_bytes_def take_bytes_def)
    with t assms Pair VBytes show ?thesis
      by (simp add: scan_field_def Let_def skip_field_def consume_value_def
          del: of_nat_add of_nat_mult)
  qed
qed

lemma scan_foreign: "list_all (foreign sch) fs \<Longrightarrow> scan Golang sch (put_fields fs) = Some []"
proof (induction fs)
  case Nil
  then show ?case by (subst scan.simps) simp
next
  case (Cons f fs)
  then show ?case by (subst scan.simps) (simp add: scan_field_foreign)
qed

section \<open>Sizes\<close>

lemma length_encodeVarintRaft_bound:
  "0 < k \<Longrightarrow> unat v < 2 ^ (7 * k) \<Longrightarrow> length (encodeVarintRaft v) \<le> k"
proof (induction k arbitrary: v)
  case 0
  then show ?case by simp
next
  case (Suc k)
  show ?case
  proof (cases "v < 0x80")
    case True
    then show ?thesis by (simp add: encode_small)
  next
    case False
    then have big: "128 \<le> unat v" by (simp add: word_less_nat_alt)
    have "k \<noteq> 0" using big Suc.prems by (cases k) auto
    have "unat (drop_bit 7 v) = unat v div 2 ^ 7"
      by (simp add: unat_drop_bit_eq drop_bit_eq_div [where 'a = nat])
    also have "\<dots> < 2 ^ (7 * k)"
      using Suc.prems(2) by (simp add: less_mult_imp_div_less power_add mult.commute)
    finally have "length (encodeVarintRaft (drop_bit 7 v)) \<le> k"
      using Suc.IH \<open>k \<noteq> 0\<close> by simp
    with False show ?thesis by (subst encodeVarintRaft.simps) simp
  qed
qed

lemma length_encodeVarintRaft: "length (encodeVarintRaft v) \<le> 10"
proof (rule length_encodeVarintRaft_bound)
  have "unat v < 2 ^ LENGTH(64)" by (rule unsigned_less)
  then show "unat v < 2 ^ (7 * 10)" by simp
qed simp

lemma length_put_int: "length (put_field (n, VInt v)) \<le> 11"
  using length_encodeVarintRaft [of v] by simp

lemma length_put_bytes: "length (put_field (n, VBytes b)) \<le> 11 + length b"
  using length_encodeVarintRaft [of "word_of_nat (length b)"] by simp

lemma payload_le: "(n, VBytes b) \<in> set fs \<Longrightarrow> length b \<le> length (put_fields fs)"
  by (induction fs) auto

section \<open>From fields to a message\<close>

text \<open>
  A message is decoded into an existing value: each field in turn updates it (the last of a
  repeated scalar wins, a submessage is merged).
\<close>

fun apply_fields :: "('m \<Rightarrow> nat \<times> wire_val \<Rightarrow> 'm option) \<Rightarrow> 'm \<Rightarrow> (nat \<times> wire_val) list
    \<Rightarrow> 'm option" where
  "apply_fields step m [] = Some m"
| "apply_fields step m (f # fs) =
     (case step m f of None \<Rightarrow> None | Some m' \<Rightarrow> apply_fields step m' fs)"

lemma apply_fields_append:
  "apply_fields step m (fs @ gs) = Option.bind (apply_fields step m fs) (\<lambda>m'. apply_fields step m' gs)"
  by (induction fs arbitrary: m) (auto split: option.splits)

definition unmarshal_into ::
    "proto_impl \<Rightarrow> schema \<Rightarrow> ('m \<Rightarrow> nat \<times> wire_val \<Rightarrow> 'm option) \<Rightarrow> 'm \<Rightarrow> bytes \<Rightarrow> 'm option" where
  "unmarshal_into impl sch step m bs =
     (case scan impl sch bs of None \<Rightarrow> None | Some fs \<Rightarrow> apply_fields step m fs)"

lemma unmarshal_put_fields:
  "list_all (field_fits sch) fs \<Longrightarrow>
   unmarshal_into impl sch step m (put_fields fs) = apply_fields step m fs"
  by (simp add: unmarshal_into_def)

lemma unmarshal_via:
  assumes "list_all (field_fits sch) fs" "apply_fields step m0 fs = Some m"
  shows "unmarshal_into impl sch step m0 (put_fields fs) = Some m"
  using assms by (simp add: unmarshal_put_fields)

section \<open>The contract of a message codec\<close>

text \<open>
  What the store relies on of a message type: \<open>unmarshal\<close> of \<open>marshal m\<close> is \<open>m\<close>, for
  the messages that fit on the wire (their byte strings are shorter than \<open>2 ^ 63\<close>, as any
  Go slice is).
\<close>

locale message_codec =
  fixes marshal :: "'m \<Rightarrow> bytes" and unmarshal :: "bytes \<Rightarrow> 'm option" and fits :: "'m \<Rightarrow> bool"
  assumes unmarshal_marshal: "fits m \<Longrightarrow> unmarshal (marshal m) = Some m"
begin

lemma marshal_inject: "fits m \<Longrightarrow> fits m' \<Longrightarrow> marshal m = marshal m' \<longleftrightarrow> m = m'"
  by (metis unmarshal_marshal option.inject)

lemma marshal_never_corrupt: "fits m \<Longrightarrow> unmarshal (marshal m) \<noteq> None"
  by (simp add: unmarshal_marshal)

end

end
