(* ===== verification/Raft_Pb.thy ===== *)
theory Raft_Pb
  imports Wire
begin

text \<open>
  The messages of \<^verbatim>\<open>go.etcd.io/etcd/raft/v3/raftpb\<close> that the store persists or handles:
  log entries, hard states, configuration states and snapshots, with the bytes the generated
  \<^verbatim>\<open>Marshal\<close>/\<^verbatim>\<open>Unmarshal\<close> code reads and writes for the persisted ones, and the predicates
  and the \<^verbatim>\<open>Ready\<close> batch of package \<^verbatim>\<open>raft\<close>.
\<close>

section \<open>Log entries\<close>

type_synonym EntryType = "32 word"

abbreviation EntryNormal :: EntryType where "EntryNormal \<equiv> 0"
abbreviation EntryConfChange :: EntryType where "EntryConfChange \<equiv> 1"
abbreviation EntryConfChangeV2 :: EntryType where "EntryConfChangeV2 \<equiv> 2"

record Entry =
  eTerm :: u64
  eIndex :: u64
  eType :: EntryType
  eData :: "bytes option"

definition zero_Entry :: Entry where
  "zero_Entry = \<lparr>eTerm = 0, eIndex = 0, eType = 0, eData = None\<rparr>"

text \<open>The fields in the order the (backwards) \<^verbatim>\<open>MarshalToSizedBuffer\<close> leaves them.\<close>

definition Entry_fields :: "Entry \<Rightarrow> (nat \<times> wire_val) list" where
  "Entry_fields m =
     [(1, VInt (scast (eType m))), (2, VInt (eTerm m)), (3, VInt (eIndex m))] @
     (case eData m of None \<Rightarrow> [] | Some d \<Rightarrow> [(4, VBytes d)])"

definition marshal_Entry :: "Entry \<Rightarrow> bytes" where
  "marshal_Entry m = put_fields (Entry_fields m)"

definition schema_Entry :: schema where
  "schema_Entry n =
     (if n = 1 \<or> n = 2 \<or> n = 3 then Some KVarint else if n = 4 then Some KBytes else None)"

fun Entry_field :: "Entry \<Rightarrow> nat \<times> wire_val \<Rightarrow> Entry option" where
  "Entry_field m (n, VInt v) =
     Some (if n = 1 then m\<lparr>eType := ucast v\<rparr>
           else if n = 2 then m\<lparr>eTerm := v\<rparr>
           else if n = 3 then m\<lparr>eIndex := v\<rparr> else m)"
| "Entry_field m (n, VBytes b) = Some (if n = 4 then m\<lparr>eData := Some b\<rparr> else m)"

definition unmarshal_Entry :: "bytes \<Rightarrow> Entry option" where
  "unmarshal_Entry bs = unmarshal_into Gogo schema_Entry Entry_field zero_Entry bs"

definition Entry_fits :: "Entry \<Rightarrow> bool" where
  "Entry_fits m = (case eData m of None \<Rightarrow> True | Some d \<Rightarrow> length d < 2 ^ 63)"

lemma ucast_scast_type: "ucast (scast (t :: EntryType) :: u64) = t"
  by (rule bit_word_eqI) (auto simp: bit_simps)

lemma unmarshal_marshal_Entry:
  assumes "Entry_fits m"
  shows "unmarshal_Entry (marshal_Entry m) = Some m"
proof -
  have "list_all (field_fits schema_Entry) (Entry_fields m)"
    using assms by (auto simp: Entry_fields_def Entry_fits_def schema_Entry_def split: option.splits)
  then show ?thesis
    by (simp add: unmarshal_Entry_def marshal_Entry_def unmarshal_put_fields)
      (auto simp: Entry_fields_def zero_Entry_def ucast_scast_type split: option.splits)
qed

interpretation entry: message_codec marshal_Entry unmarshal_Entry Entry_fits
  by unfold_locales (rule unmarshal_marshal_Entry)

section \<open>Hard states\<close>

record HardState =
  hsTerm :: u64
  hsVote :: u64
  hsCommit :: u64

definition zero_HardState :: HardState where
  "zero_HardState = \<lparr>hsTerm = 0, hsVote = 0, hsCommit = 0\<rparr>"

definition HardState_fields :: "HardState \<Rightarrow> (nat \<times> wire_val) list" where
  "HardState_fields m = [(1, VInt (hsTerm m)), (2, VInt (hsVote m)), (3, VInt (hsCommit m))]"

definition marshal_HardState :: "HardState \<Rightarrow> bytes" where
  "marshal_HardState m = put_fields (HardState_fields m)"

definition schema_HardState :: schema where
  "schema_HardState n = (if n = 1 \<or> n = 2 \<or> n = 3 then Some KVarint else None)"

fun HardState_field :: "HardState \<Rightarrow> nat \<times> wire_val \<Rightarrow> HardState option" where
  "HardState_field m (n, VInt v) =
     Some (if n = 1 then m\<lparr>hsTerm := v\<rparr>
           else if n = 2 then m\<lparr>hsVote := v\<rparr>
           else if n = 3 then m\<lparr>hsCommit := v\<rparr> else m)"
| "HardState_field m (n, VBytes b) = Some m"

definition HardState_into :: "HardState \<Rightarrow> bytes \<Rightarrow> HardState option" where
  "HardState_into m bs = unmarshal_into Gogo schema_HardState HardState_field m bs"

lemma HardState_into_marshal: "HardState_into m0 (marshal_HardState m) = Some m"
proof -
  have "list_all (field_fits schema_HardState) (HardState_fields m)"
    by (simp add: HardState_fields_def schema_HardState_def)
  then show ?thesis
    by (simp add: HardState_into_def marshal_HardState_def unmarshal_put_fields)
      (simp add: HardState_fields_def)
qed

interpretation hard_state: message_codec marshal_HardState "HardState_into zero_HardState" "\<lambda>_. True"
  by unfold_locales (rule HardState_into_marshal)

definition isHardStateEqual :: "HardState \<Rightarrow> HardState \<Rightarrow> bool" where
  "isHardStateEqual a b \<longleftrightarrow> hsTerm a = hsTerm b \<and> hsVote a = hsVote b \<and> hsCommit a = hsCommit b"

definition IsEmptyHardState :: "HardState \<Rightarrow> bool" where
  "IsEmptyHardState st = isHardStateEqual st zero_HardState"

lemma IsEmptyHardState_iff: "IsEmptyHardState st \<longleftrightarrow> st = zero_HardState"
  by (cases st) (simp add: IsEmptyHardState_def isHardStateEqual_def zero_HardState_def)

section \<open>Configuration states\<close>

record ConfState =
  csVoters :: "u64 list"
  csLearners :: "u64 list"
  csVotersOutgoing :: "u64 list"
  csLearnersNext :: "u64 list"
  csAutoLeave :: bool

definition zero_ConfState :: ConfState where
  "zero_ConfState = \<lparr>csVoters = [], csLearners = [], csVotersOutgoing = [],
     csLearnersNext = [], csAutoLeave = False\<rparr>"

definition ConfState_fields :: "ConfState \<Rightarrow> (nat \<times> wire_val) list" where
  "ConfState_fields m =
     map (\<lambda>v. (1, VInt v)) (csVoters m) @ map (\<lambda>v. (2, VInt v)) (csLearners m) @
     map (\<lambda>v. (3, VInt v)) (csVotersOutgoing m) @ map (\<lambda>v. (4, VInt v)) (csLearnersNext m) @
     [(5, VInt (if csAutoLeave m then 1 else 0))]"

definition marshal_ConfState :: "ConfState \<Rightarrow> bytes" where
  "marshal_ConfState m = put_fields (ConfState_fields m)"

definition schema_ConfState :: schema where
  "schema_ConfState n =
     (if n = 1 \<or> n = 2 \<or> n = 3 \<or> n = 4 then Some KPacked
      else if n = 5 then Some KVarint else None)"

fun ConfState_field :: "ConfState \<Rightarrow> nat \<times> wire_val \<Rightarrow> ConfState option" where
  "ConfState_field m (n, VInt v) =
     Some (if n = 1 then m\<lparr>csVoters := csVoters m @ [v]\<rparr>
           else if n = 2 then m\<lparr>csLearners := csLearners m @ [v]\<rparr>
           else if n = 3 then m\<lparr>csVotersOutgoing := csVotersOutgoing m @ [v]\<rparr>
           else if n = 4 then m\<lparr>csLearnersNext := csLearnersNext m @ [v]\<rparr>
           else if n = 5 then m\<lparr>csAutoLeave := (v \<noteq> 0)\<rparr> else m)"
| "ConfState_field m (n, VBytes b) = Some m"

definition unmarshal_ConfState :: "bytes \<Rightarrow> ConfState option" where
  "unmarshal_ConfState bs = unmarshal_into Gogo schema_ConfState ConfState_field zero_ConfState bs"

lemma apply_repeated:
  "apply_fields ConfState_field m (map (\<lambda>v. (1, VInt v)) vs) = Some (m\<lparr>csVoters := csVoters m @ vs\<rparr>)"
  "apply_fields ConfState_field m (map (\<lambda>v. (2, VInt v)) vs) = Some (m\<lparr>csLearners := csLearners m @ vs\<rparr>)"
  "apply_fields ConfState_field m (map (\<lambda>v. (3, VInt v)) vs)
     = Some (m\<lparr>csVotersOutgoing := csVotersOutgoing m @ vs\<rparr>)"
  "apply_fields ConfState_field m (map (\<lambda>v. (4, VInt v)) vs)
     = Some (m\<lparr>csLearnersNext := csLearnersNext m @ vs\<rparr>)"
  by (induction vs arbitrary: m) auto

lemma unmarshal_marshal_ConfState: "unmarshal_ConfState (marshal_ConfState m) = Some m"
proof -
  have "list_all (field_fits schema_ConfState) (ConfState_fields m)"
    by (auto simp: ConfState_fields_def schema_ConfState_def list_all_iff)
  then show ?thesis
    by (simp add: unmarshal_ConfState_def marshal_ConfState_def unmarshal_put_fields)
      (simp add: ConfState_fields_def apply_fields_append apply_repeated
        apply_repeated(1) [unfolded One_nat_def] zero_ConfState_def)
qed

interpretation conf_state: message_codec marshal_ConfState unmarshal_ConfState "\<lambda>_. True"
  by unfold_locales (rule unmarshal_marshal_ConfState)

section \<open>Snapshots, messages and Ready batches\<close>

record SnapshotMetadata =
  smConfState :: ConfState
  smIndex :: u64
  smTerm :: u64

record Snapshot =
  snData :: "bytes option"
  snMetadata :: SnapshotMetadata

definition zero_Snapshot :: Snapshot where
  "zero_Snapshot = \<lparr>snData = None,
     snMetadata = \<lparr>smConfState = zero_ConfState, smIndex = 0, smTerm = 0\<rparr>\<rparr>"

definition IsEmptySnap :: "Snapshot \<Rightarrow> bool" where
  "IsEmptySnap sp \<longleftrightarrow> smIndex (snMetadata sp) = 0"

record Message =
  mType :: "32 word"
  mTo :: u64
  mFrom :: u64
  mTerm :: u64
  mLogTerm :: u64
  mIndex :: u64
  mEntries :: "Entry list"
  mCommit :: u64
  mSnapshot :: Snapshot
  mReject :: bool
  mRejectHint :: u64
  mContext :: "bytes option"

text \<open>A configuration change, and the entries that \<^verbatim>\<open>Bootstrap\<close> puts in the log of a first start,
  one for each peer.\<close>

record ConfChange =
  ccType :: "32 word"
  ccNodeID :: u64
  ccContext :: "bytes option"
  ccID :: u64

abbreviation ConfChangeAddNode :: "32 word" where "ConfChangeAddNode \<equiv> 0"

definition ConfChange_fields :: "ConfChange \<Rightarrow> (nat \<times> wire_val) list" where
  "ConfChange_fields m =
     [(1, VInt (ccID m)), (2, VInt (scast (ccType m))), (3, VInt (ccNodeID m))] @
     (case ccContext m of None \<Rightarrow> [] | Some c \<Rightarrow> [(4, VBytes c)])"

definition marshal_ConfChange :: "ConfChange \<Rightarrow> bytes" where
  "marshal_ConfChange m = put_fields (ConfChange_fields m)"

definition bootstrap_entries :: "u64 list \<Rightarrow> Entry list" where
  "bootstrap_entries peers =
     map (\<lambda>i. \<lparr>eTerm = 1, eIndex = word_of_nat (i + 1), eType = EntryConfChange,
       eData = Some (marshal_ConfChange \<lparr>ccType = ConfChangeAddNode, ccNodeID = peers ! i,
         ccContext = None, ccID = 0\<rparr>)\<rparr>) [0..<length peers]"

record ReadState =
  rsIndex :: u64
  rsRequestCtx :: bytes

text \<open>The batch of work a raft node hands out; its soft state and sync hint are not used.\<close>

record Ready =
  rdHardState :: HardState
  rdReadStates :: "ReadState list"
  rdEntries :: "Entry list"
  rdSnapshot :: Snapshot
  rdCommittedEntries :: "Entry list"
  rdMessages :: "Message list"

end
