(* ===== verification/Store_Pb.thy ===== *)
theory Store_Pb
  imports Raft_Pb
begin

text \<open>
  The messages of \<^verbatim>\<open>raftstore/raftstorepb\<close> (\<^verbatim>\<open>metapb\<close>, \<^verbatim>\<open>cmdpb\<close>, \<^verbatim>\<open>messagepb\<close>) and the
  constructors of \<^verbatim>\<open>raftstore/internal/message.go\<close>. The generated types are encoded by the
  protobuf runtime: proto3 fields in the order of their numbers, a zero scalar and an empty
  byte string left out, a submessage present when its pointer is not nil. Unknown fields are
  skipped; the model does not keep their bytes. In the requests a nil and an empty byte slice
  are not told apart, as nothing the store does depends on it.
\<close>

definition opt_int :: "nat \<Rightarrow> u64 \<Rightarrow> (nat \<times> wire_val) list" where
  "opt_int n v = (if v = 0 then [] else [(n, VInt v)])"

definition opt_bytes :: "nat \<Rightarrow> bytes \<Rightarrow> (nat \<times> wire_val) list" where
  "opt_bytes n b = (if b = [] then [] else [(n, VBytes b)])"

definition opt_msg :: "nat \<Rightarrow> ('m \<Rightarrow> bytes) \<Rightarrow> 'm option \<Rightarrow> (nat \<times> wire_val) list" where
  "opt_msg n f m = (case m of None \<Rightarrow> [] | Some x \<Rightarrow> [(n, VBytes (f x))])"

lemmas opt_defs = opt_int_def opt_bytes_def opt_msg_def

lemma list_all_opt [simp]:
  "list_all P (opt_int n v) \<longleftrightarrow> (v \<noteq> 0 \<longrightarrow> P (n, VInt v))"
  "list_all P (opt_bytes n b) \<longleftrightarrow> (b \<noteq> [] \<longrightarrow> P (n, VBytes b))"
  "list_all P (opt_msg n f m) \<longleftrightarrow> (\<forall>x. m = Some x \<longrightarrow> P (n, VBytes (f x)))"
  by (auto simp: opt_defs split: option.splits)

text \<open>A submessage field: merged into the present value, or into a zero one.\<close>

definition sub_into :: "'m \<Rightarrow> ('m \<Rightarrow> bytes \<Rightarrow> 'm option) \<Rightarrow> 'm option \<Rightarrow> bytes \<Rightarrow> 'm option" where
  "sub_into zero into m b = into (case m of None \<Rightarrow> zero | Some x \<Rightarrow> x) b"

section \<open>Raft meta data: metapb\<close>

record RaftTruncatedState =
  tsIndex :: u64
  tsTerm :: u64

definition zero_TruncatedState :: RaftTruncatedState where
  "zero_TruncatedState = \<lparr>tsIndex = 0, tsTerm = 0\<rparr>"

definition TruncatedState_fields :: "RaftTruncatedState \<Rightarrow> (nat \<times> wire_val) list" where
  "TruncatedState_fields m = opt_int 1 (tsIndex m) @ opt_int 2 (tsTerm m)"

definition marshal_TruncatedState :: "RaftTruncatedState \<Rightarrow> bytes" where
  "marshal_TruncatedState m = put_fields (TruncatedState_fields m)"

definition schema_TruncatedState :: schema where
  "schema_TruncatedState n = (if n = 1 \<or> n = 2 then Some KVarint else None)"

fun TruncatedState_field ::
    "RaftTruncatedState \<Rightarrow> nat \<times> wire_val \<Rightarrow> RaftTruncatedState option" where
  "TruncatedState_field m (n, VInt v) =
     Some (if n = 1 then m\<lparr>tsIndex := v\<rparr> else if n = 2 then m\<lparr>tsTerm := v\<rparr> else m)"
| "TruncatedState_field m (n, VBytes b) = Some m"

definition TruncatedState_into :: "RaftTruncatedState \<Rightarrow> bytes \<Rightarrow> RaftTruncatedState option" where
  "TruncatedState_into m bs =
     unmarshal_into Golang schema_TruncatedState TruncatedState_field m bs"

record RaftLocalState =
  lsHardState :: "HardState option"
  lsLastIndex :: u64
  lsLastTerm :: u64

definition zero_LocalState :: RaftLocalState where
  "zero_LocalState = \<lparr>lsHardState = None, lsLastIndex = 0, lsLastTerm = 0\<rparr>"

definition LocalState_fields :: "RaftLocalState \<Rightarrow> (nat \<times> wire_val) list" where
  "LocalState_fields m = 
     opt_msg 1 marshal_HardState (lsHardState m) @ opt_int 2 (lsLastIndex m) @
     opt_int 3 (lsLastTerm m)"

definition marshal_LocalState :: "RaftLocalState \<Rightarrow> bytes" where
  "marshal_LocalState m = put_fields (LocalState_fields m)"

definition schema_LocalState :: schema where
  "schema_LocalState n =
     (if n = 1 then Some KBytes else if n = 2 \<or> n = 3 then Some KVarint else None)"

fun LocalState_field :: "RaftLocalState \<Rightarrow> nat \<times> wire_val \<Rightarrow> RaftLocalState option" where
  "LocalState_field m (n, VInt v) =
     Some (if n = 2 then m\<lparr>lsLastIndex := v\<rparr> else if n = 3 then m\<lparr>lsLastTerm := v\<rparr> else m)"
| "LocalState_field m (n, VBytes b) =
     (if n = 1
      then map_option (\<lambda>h. m\<lparr>lsHardState := Some h\<rparr>)
             (sub_into zero_HardState HardState_into (lsHardState m) b)
      else Some m)"

definition unmarshal_LocalState :: "bytes \<Rightarrow> RaftLocalState option" where
  "unmarshal_LocalState bs =
     unmarshal_into Golang schema_LocalState LocalState_field zero_LocalState bs"

record RaftApplyState =
  asApplyIndex :: u64
  asTruncatedState :: "RaftTruncatedState option"

definition zero_ApplyState :: RaftApplyState where
  "zero_ApplyState = \<lparr>asApplyIndex = 0, asTruncatedState = None\<rparr>"

definition ApplyState_fields :: "RaftApplyState \<Rightarrow> (nat \<times> wire_val) list" where
  "ApplyState_fields m = 
     opt_int 1 (asApplyIndex m) @ opt_msg 2 marshal_TruncatedState (asTruncatedState m)"

definition marshal_ApplyState :: "RaftApplyState \<Rightarrow> bytes" where
  "marshal_ApplyState m = put_fields (ApplyState_fields m)"

definition schema_ApplyState :: schema where
  "schema_ApplyState n =
     (if n = 1 then Some KVarint else if n = 2 then Some KBytes else None)"

fun ApplyState_field :: "RaftApplyState \<Rightarrow> nat \<times> wire_val \<Rightarrow> RaftApplyState option" where
  "ApplyState_field m (n, VInt v) = Some (if n = 1 then m\<lparr>asApplyIndex := v\<rparr> else m)"
| "ApplyState_field m (n, VBytes b) =
     (if n = 2
      then map_option (\<lambda>t. m\<lparr>asTruncatedState := Some t\<rparr>)
             (sub_into zero_TruncatedState TruncatedState_into (asTruncatedState m) b)
      else Some m)"

definition unmarshal_ApplyState :: "bytes \<Rightarrow> RaftApplyState option" where
  "unmarshal_ApplyState bs =
     unmarshal_into Golang schema_ApplyState ApplyState_field zero_ApplyState bs"

subsection \<open>Round trips\<close>

lemma TruncatedState_into_marshal:
  "TruncatedState_into zero_TruncatedState (marshal_TruncatedState m) = Some m"
  unfolding TruncatedState_into_def marshal_TruncatedState_def TruncatedState_fields_def
  by (rule unmarshal_via)
    (auto simp: schema_TruncatedState_def opt_int_def zero_TruncatedState_def)

lemma length_opt_int: "length (put_fields (opt_int n v)) \<le> 11"
  using length_put_int [of n v] by (simp add: opt_int_def)

lemma length_opt_bytes: "length (put_fields (opt_bytes n b)) \<le> 11 + length b"
  using length_put_bytes [of n b] by (simp add: opt_bytes_def)

lemma length_marshal_TruncatedState: "length (marshal_TruncatedState m) \<le> 22"
  using length_opt_int [of 1 "tsIndex m"] length_opt_int [of 2 "tsTerm m"]
  by (simp add: marshal_TruncatedState_def TruncatedState_fields_def)

lemma length_marshal_HardState: "length (marshal_HardState m) \<le> 33"
  using length_put_int [of 1 "hsTerm m"] length_put_int [of 2 "hsVote m"]
    length_put_int [of 3 "hsCommit m"]
  by (simp add: marshal_HardState_def HardState_fields_def del: put_field.simps)

lemma HardState_payload: "length (marshal_HardState h) < 9223372036854775808"
  using length_marshal_HardState [of h] by simp

lemma TruncatedState_payload: "length (marshal_TruncatedState t) < 9223372036854775808"
  using length_marshal_TruncatedState [of t] by simp

lemma unmarshal_marshal_LocalState: "unmarshal_LocalState (marshal_LocalState m) = Some m"
  unfolding unmarshal_LocalState_def marshal_LocalState_def LocalState_fields_def
  by (rule unmarshal_via)
    (auto simp: schema_LocalState_def opt_defs zero_LocalState_def sub_into_def
      HardState_into_marshal HardState_payload split: option.splits)

lemma unmarshal_marshal_ApplyState: "unmarshal_ApplyState (marshal_ApplyState m) = Some m"
  unfolding unmarshal_ApplyState_def marshal_ApplyState_def ApplyState_fields_def
  by (rule unmarshal_via)
    (auto simp: schema_ApplyState_def opt_defs zero_ApplyState_def sub_into_def
      TruncatedState_into_marshal TruncatedState_payload split: option.splits)

interpretation local_state: message_codec marshal_LocalState unmarshal_LocalState "\<lambda>_. True"
  by unfold_locales (rule unmarshal_marshal_LocalState)

interpretation apply_state: message_codec marshal_ApplyState unmarshal_ApplyState "\<lambda>_. True"
  by unfold_locales (rule unmarshal_marshal_ApplyState)


section \<open>Commands: cmdpb\<close>

type_synonym CmdType = "32 word"

abbreviation CmdType_Get :: CmdType where "CmdType_Get \<equiv> 0"
abbreviation CmdType_Put :: CmdType where "CmdType_Put \<equiv> 1"
abbreviation CmdType_Delete :: CmdType where "CmdType_Delete \<equiv> 2"

type_synonym AdminCmdType = "32 word"

abbreviation AdminCmdType_CompactLog :: AdminCmdType where "AdminCmdType_CompactLog \<equiv> 0"

record GetRequest = grqKey :: bytes

record PutRequest =
  prKey :: bytes
  prValue :: bytes

record DeleteRequest = drKey :: bytes

record Request =
  rqCmdType :: CmdType
  rqGet :: "GetRequest option"
  rqPut :: "PutRequest option"
  rqDelete :: "DeleteRequest option"

record CompactLogRequest =
  clCompactIndex :: u64
  clCompactTerm :: u64

record AdminRequest =
  arCmdType :: AdminCmdType
  arCompactLog :: "CompactLogRequest option"

record RaftRequestHeader = rhTerm :: u64

record RaftCmdRequest =
  rcHeader :: "RaftRequestHeader option"
  rcRequest :: "Request option"
  rcAdminRequest :: "AdminRequest option"

definition GetCompactLog :: "AdminRequest option \<Rightarrow> CompactLogRequest option" where
  "GetCompactLog m = (case m of Some r \<Rightarrow> arCompactLog r | None \<Rightarrow> None)"

subsection \<open>Encoding\<close>

definition Put_fields :: "PutRequest \<Rightarrow> (nat \<times> wire_val) list" where
  "Put_fields m = opt_bytes 1 (prKey m) @ opt_bytes 2 (prValue m)"

definition marshal_Put :: "PutRequest \<Rightarrow> bytes" where
  "marshal_Put m = put_fields (Put_fields m)"

definition marshal_Delete :: "DeleteRequest \<Rightarrow> bytes" where
  "marshal_Delete m = put_fields (opt_bytes 1 (drKey m))"

definition marshal_Get :: "GetRequest \<Rightarrow> bytes" where
  "marshal_Get m = put_fields (opt_bytes 1 (grqKey m))"

definition Request_fields :: "Request \<Rightarrow> (nat \<times> wire_val) list" where
  "Request_fields m =
     opt_int 1 (scast (rqCmdType m)) @ opt_msg 2 marshal_Get (rqGet m) @
     opt_msg 3 marshal_Put (rqPut m) @ opt_msg 4 marshal_Delete (rqDelete m)"

definition marshal_Request :: "Request \<Rightarrow> bytes" where
  "marshal_Request m = put_fields (Request_fields m)"

definition CompactLog_fields :: "CompactLogRequest \<Rightarrow> (nat \<times> wire_val) list" where
  "CompactLog_fields m = opt_int 1 (clCompactIndex m) @ opt_int 2 (clCompactTerm m)"

definition marshal_CompactLog :: "CompactLogRequest \<Rightarrow> bytes" where
  "marshal_CompactLog m = put_fields (CompactLog_fields m)"

definition Admin_fields :: "AdminRequest \<Rightarrow> (nat \<times> wire_val) list" where
  "Admin_fields m =
     opt_int 1 (scast (arCmdType m)) @ opt_msg 2 marshal_CompactLog (arCompactLog m)"

definition marshal_Admin :: "AdminRequest \<Rightarrow> bytes" where
  "marshal_Admin m = put_fields (Admin_fields m)"

definition marshal_Header :: "RaftRequestHeader \<Rightarrow> bytes" where
  "marshal_Header m = put_fields (opt_int 1 (rhTerm m))"

definition RaftCmd_fields :: "RaftCmdRequest \<Rightarrow> (nat \<times> wire_val) list" where
  "RaftCmd_fields m =
     opt_msg 1 marshal_Header (rcHeader m) @ opt_msg 2 marshal_Request (rcRequest m) @
     opt_msg 3 marshal_Admin (rcAdminRequest m)"

definition marshal_RaftCmd :: "RaftCmdRequest \<Rightarrow> bytes" where
  "marshal_RaftCmd m = put_fields (RaftCmd_fields m)"

subsection \<open>Decoding\<close>

definition bytes_schema :: "nat set \<Rightarrow> nat set \<Rightarrow> schema" where
  "bytes_schema ints bs n =
     (if n \<in> ints then Some KVarint else if n \<in> bs then Some KBytes else None)"

fun Put_field :: "PutRequest \<Rightarrow> nat \<times> wire_val \<Rightarrow> PutRequest option" where
  "Put_field m (n, VBytes b) =
     Some (if n = 1 then m\<lparr>prKey := b\<rparr> else if n = 2 then m\<lparr>prValue := b\<rparr> else m)"
| "Put_field m (n, VInt v) = Some m"

definition Put_into :: "PutRequest \<Rightarrow> bytes \<Rightarrow> PutRequest option" where
  "Put_into = unmarshal_into Golang (bytes_schema {} {1, 2}) Put_field"

fun Delete_field :: "DeleteRequest \<Rightarrow> nat \<times> wire_val \<Rightarrow> DeleteRequest option" where
  "Delete_field m (n, VBytes b) = Some (if n = 1 then m\<lparr>drKey := b\<rparr> else m)"
| "Delete_field m (n, VInt v) = Some m"

definition Delete_into :: "DeleteRequest \<Rightarrow> bytes \<Rightarrow> DeleteRequest option" where
  "Delete_into = unmarshal_into Golang (bytes_schema {} {1}) Delete_field"

fun Get_field :: "GetRequest \<Rightarrow> nat \<times> wire_val \<Rightarrow> GetRequest option" where
  "Get_field m (n, VBytes b) = Some (if n = 1 then m\<lparr>grqKey := b\<rparr> else m)"
| "Get_field m (n, VInt v) = Some m"

definition Get_into :: "GetRequest \<Rightarrow> bytes \<Rightarrow> GetRequest option" where
  "Get_into = unmarshal_into Golang (bytes_schema {} {1}) Get_field"

definition zero_Get :: GetRequest where "zero_Get = \<lparr>grqKey = []\<rparr>"
definition zero_Put :: PutRequest where "zero_Put = \<lparr>prKey = [], prValue = []\<rparr>"
definition zero_Delete :: DeleteRequest where "zero_Delete = \<lparr>drKey = []\<rparr>"

fun Request_field :: "Request \<Rightarrow> nat \<times> wire_val \<Rightarrow> Request option" where
  "Request_field m (n, VInt v) = Some (if n = 1 then m\<lparr>rqCmdType := ucast v\<rparr> else m)"
| "Request_field m (n, VBytes b) =
     (if n = 2 then map_option (\<lambda>x. m\<lparr>rqGet := Some x\<rparr>) (sub_into zero_Get Get_into (rqGet m) b)
      else if n = 3 then
        map_option (\<lambda>x. m\<lparr>rqPut := Some x\<rparr>) (sub_into zero_Put Put_into (rqPut m) b)
      else if n = 4 then
        map_option (\<lambda>x. m\<lparr>rqDelete := Some x\<rparr>) (sub_into zero_Delete Delete_into (rqDelete m) b)
      else Some m)"

definition Request_into :: "Request \<Rightarrow> bytes \<Rightarrow> Request option" where
  "Request_into = unmarshal_into Golang (bytes_schema {1} {2, 3, 4}) Request_field"

fun CompactLog_field :: "CompactLogRequest \<Rightarrow> nat \<times> wire_val \<Rightarrow> CompactLogRequest option" where
  "CompactLog_field m (n, VInt v) =
     Some (if n = 1 then m\<lparr>clCompactIndex := v\<rparr> else if n = 2 then m\<lparr>clCompactTerm := v\<rparr> else m)"
| "CompactLog_field m (n, VBytes b) = Some m"

definition CompactLog_into :: "CompactLogRequest \<Rightarrow> bytes \<Rightarrow> CompactLogRequest option" where
  "CompactLog_into = unmarshal_into Golang (bytes_schema {1, 2} {}) CompactLog_field"

definition zero_CompactLog :: CompactLogRequest where
  "zero_CompactLog = \<lparr>clCompactIndex = 0, clCompactTerm = 0\<rparr>"

fun Admin_field :: "AdminRequest \<Rightarrow> nat \<times> wire_val \<Rightarrow> AdminRequest option" where
  "Admin_field m (n, VInt v) = Some (if n = 1 then m\<lparr>arCmdType := ucast v\<rparr> else m)"
| "Admin_field m (n, VBytes b) =
     (if n = 2 then
        map_option (\<lambda>x. m\<lparr>arCompactLog := Some x\<rparr>)
          (sub_into zero_CompactLog CompactLog_into (arCompactLog m) b)
      else Some m)"

definition Admin_into :: "AdminRequest \<Rightarrow> bytes \<Rightarrow> AdminRequest option" where
  "Admin_into = unmarshal_into Golang (bytes_schema {1} {2}) Admin_field"

fun Header_field :: "RaftRequestHeader \<Rightarrow> nat \<times> wire_val \<Rightarrow> RaftRequestHeader option" where
  "Header_field m (n, VInt v) = Some (if n = 1 then m\<lparr>rhTerm := v\<rparr> else m)"
| "Header_field m (n, VBytes b) = Some m"

definition Header_into :: "RaftRequestHeader \<Rightarrow> bytes \<Rightarrow> RaftRequestHeader option" where
  "Header_into = unmarshal_into Golang (bytes_schema {1} {}) Header_field"

definition zero_Request :: Request where
  "zero_Request = \<lparr>rqCmdType = 0, rqGet = None, rqPut = None, rqDelete = None\<rparr>"

definition zero_Admin :: AdminRequest where
  "zero_Admin = \<lparr>arCmdType = 0, arCompactLog = None\<rparr>"

definition zero_Header :: RaftRequestHeader where "zero_Header = \<lparr>rhTerm = 0\<rparr>"

definition zero_RaftCmd :: RaftCmdRequest where
  "zero_RaftCmd = \<lparr>rcHeader = None, rcRequest = None, rcAdminRequest = None\<rparr>"

fun RaftCmd_field :: "RaftCmdRequest \<Rightarrow> nat \<times> wire_val \<Rightarrow> RaftCmdRequest option" where
  "RaftCmd_field m (n, VInt v) = Some m"
| "RaftCmd_field m (n, VBytes b) =
     (if n = 1 then
        map_option (\<lambda>x. m\<lparr>rcHeader := Some x\<rparr>) (sub_into zero_Header Header_into (rcHeader m) b)
      else if n = 2 then
        map_option (\<lambda>x. m\<lparr>rcRequest := Some x\<rparr>)
          (sub_into zero_Request Request_into (rcRequest m) b)
      else if n = 3 then
        map_option (\<lambda>x. m\<lparr>rcAdminRequest := Some x\<rparr>)
          (sub_into zero_Admin Admin_into (rcAdminRequest m) b)
      else Some m)"

definition unmarshal_RaftCmd :: "bytes \<Rightarrow> RaftCmdRequest option" where
  "unmarshal_RaftCmd bs =
     unmarshal_into Golang (bytes_schema {} {1, 2, 3}) RaftCmd_field zero_RaftCmd bs"

subsection \<open>Round trips\<close>

text \<open>A message whose byte string is a Go slice; so then is each of its payloads.\<close>

abbreviation slice_size :: "bytes \<Rightarrow> bool" where
  "slice_size bs \<equiv> length bs < 9223372036854775808"

lemma payload_slice: "slice_size (put_fields fs) \<Longrightarrow> (n, VBytes b) \<in> set fs \<Longrightarrow> slice_size b"
  using payload_le [of n b fs] by simp

lemma Put_into_marshal: "slice_size (marshal_Put m) \<Longrightarrow> Put_into zero_Put (marshal_Put m) = Some m"
  unfolding Put_into_def marshal_Put_def
  by (rule unmarshal_via)
    (auto simp: bytes_schema_def Put_fields_def opt_defs zero_Put_def
      split: if_splits dest: payload_slice)

lemma Delete_into_marshal:
  "slice_size (marshal_Delete m) \<Longrightarrow> Delete_into zero_Delete (marshal_Delete m) = Some m"
  unfolding Delete_into_def marshal_Delete_def
  by (rule unmarshal_via)
    (auto simp: bytes_schema_def opt_defs zero_Delete_def split: if_splits dest: payload_slice)

lemma Get_into_marshal: "slice_size (marshal_Get m) \<Longrightarrow> Get_into zero_Get (marshal_Get m) = Some m"
  unfolding Get_into_def marshal_Get_def
  by (rule unmarshal_via)
    (auto simp: bytes_schema_def opt_defs zero_Get_def split: if_splits dest: payload_slice)

lemma CompactLog_into_marshal: "CompactLog_into zero_CompactLog (marshal_CompactLog m) = Some m"
  unfolding CompactLog_into_def marshal_CompactLog_def
  by (rule unmarshal_via)
    (auto simp: bytes_schema_def CompactLog_fields_def opt_defs zero_CompactLog_def)

lemma Header_into_marshal: "Header_into zero_Header (marshal_Header m) = Some m"
  unfolding Header_into_def marshal_Header_def
  by (rule unmarshal_via) (auto simp: bytes_schema_def opt_defs zero_Header_def)

lemma scast_type_0: "(scast (t :: CmdType) :: u64) = 0 \<longleftrightarrow> t = 0"
  by (metis signed_0 ucast_scast_type unsigned_0)

lemma Request_into_marshal:
  assumes "slice_size (marshal_Request m)"
  shows "Request_into zero_Request (marshal_Request m) = Some m"
proof -
  have p: "(n, VBytes b) \<in> set (Request_fields m) \<Longrightarrow> slice_size b" for n b
    using assms unfolding marshal_Request_def by (rule payload_slice)
  have sizes: "rqGet m = Some g \<Longrightarrow> slice_size (marshal_Get g)"
    "rqPut m = Some x \<Longrightarrow> slice_size (marshal_Put x)"
    "rqDelete m = Some d \<Longrightarrow> slice_size (marshal_Delete d)" for g x d
    by (rule p [of 2] p [of 3] p [of 4]; simp add: Request_fields_def opt_msg_def)+
  have "list_all (field_fits (bytes_schema {1} {2, 3, 4})) (Request_fields m)"
    using sizes by (auto simp: Request_fields_def bytes_schema_def opt_msg_def split: option.splits)
  moreover have "apply_fields Request_field zero_Request (Request_fields m) = Some m"
    using sizes by (auto simp: Request_fields_def opt_defs zero_Request_def sub_into_def
        apply_fields_append Get_into_marshal Put_into_marshal Delete_into_marshal
        ucast_scast_type scast_type_0 split: option.splits)
  ultimately show ?thesis
    unfolding Request_into_def marshal_Request_def by (rule unmarshal_via)
qed

lemma Admin_into_marshal: "Admin_into zero_Admin (marshal_Admin m) = Some m"
proof -
  have s: "slice_size (marshal_CompactLog c)" for c
    using length_opt_int [of 1 "clCompactIndex c"] length_opt_int [of 2 "clCompactTerm c"]
    by (simp add: marshal_CompactLog_def CompactLog_fields_def)
  have "list_all (field_fits (bytes_schema {1} {2})) (Admin_fields m)"
    using s by (auto simp: Admin_fields_def bytes_schema_def opt_msg_def split: option.splits)
  moreover have "apply_fields Admin_field zero_Admin (Admin_fields m) = Some m"
    by (auto simp: Admin_fields_def opt_defs zero_Admin_def sub_into_def
        apply_fields_append CompactLog_into_marshal
        ucast_scast_type scast_type_0 split: option.splits)
  ultimately show ?thesis
    unfolding Admin_into_def marshal_Admin_def by (rule unmarshal_via)
qed

definition RaftCmd_fits :: "RaftCmdRequest \<Rightarrow> bool" where
  "RaftCmd_fits m \<longleftrightarrow> slice_size (marshal_RaftCmd m)"

lemma unmarshal_marshal_RaftCmd:
  assumes "RaftCmd_fits m"
  shows "unmarshal_RaftCmd (marshal_RaftCmd m) = Some m"
proof -
  have p: "(n, VBytes b) \<in> set (RaftCmd_fields m) \<Longrightarrow> slice_size b" for n b
    using assms unfolding RaftCmd_fits_def marshal_RaftCmd_def by (rule payload_slice)
  have sizes: "rcHeader m = Some h \<Longrightarrow> slice_size (marshal_Header h)"
    "rcRequest m = Some r \<Longrightarrow> slice_size (marshal_Request r)"
    "rcAdminRequest m = Some a \<Longrightarrow> slice_size (marshal_Admin a)" for h r a
    by (rule p [of 1] p [of 2] p [of 3]; simp add: RaftCmd_fields_def opt_msg_def)+
  have "list_all (field_fits (bytes_schema {} {1, 2, 3})) (RaftCmd_fields m)"
    using sizes by (auto simp: RaftCmd_fields_def bytes_schema_def opt_msg_def split: option.splits)
  moreover have "apply_fields RaftCmd_field zero_RaftCmd (RaftCmd_fields m) = Some m"
    using sizes by (auto simp: RaftCmd_fields_def opt_defs zero_RaftCmd_def sub_into_def
        apply_fields_append Header_into_marshal Request_into_marshal Admin_into_marshal
        split: option.splits)
  ultimately show ?thesis
    unfolding unmarshal_RaftCmd_def marshal_RaftCmd_def by (rule unmarshal_via)
qed

interpretation raft_cmd: message_codec marshal_RaftCmd unmarshal_RaftCmd RaftCmd_fits
  by unfold_locales (rule unmarshal_marshal_RaftCmd)

section \<open>Responses\<close>

text \<open>Responses never leave the process, so they have no codec. A nil value is kept apart
  from an empty one: \<^verbatim>\<open>RaftStore.Get\<close> tests for it.\<close>

record GetResponse = grsValue :: "bytes option"

record Response =
  rspCmdType :: CmdType
  rspGet :: "GetResponse option"

record RaftCmdResponse =
  crHeader :: "u64 option"
  crResponse :: "Response option"

definition GetResponse_of :: "RaftCmdResponse \<Rightarrow> Response option" where
  "GetResponse_of m = crResponse m"

record RaftMsgReq =
  rmMessage :: "Message option"
  rmFromPeer :: u64
  rmToPeer :: u64

section \<open>Constructors: internal/message.go\<close>

definition NewGetCmdResponse :: "bytes option \<Rightarrow> RaftCmdResponse" where
  "NewGetCmdResponse value =
     \<lparr>crHeader = Some 0,
      crResponse = Some \<lparr>rspCmdType = CmdType_Get, rspGet = Some \<lparr>grsValue = value\<rparr>\<rparr>\<rparr>"

definition NewPutCmdRequest :: "bytes \<Rightarrow> bytes \<Rightarrow> RaftCmdRequest" where
  "NewPutCmdRequest key value =
     \<lparr>rcHeader = Some zero_Header,
      rcRequest = Some \<lparr>rqCmdType = CmdType_Put, rqGet = None,
        rqPut = Some \<lparr>prKey = key, prValue = value\<rparr>, rqDelete = None\<rparr>,
      rcAdminRequest = None\<rparr>"

definition NewDeleteCmdRequest :: "bytes \<Rightarrow> RaftCmdRequest" where
  "NewDeleteCmdRequest key =
     \<lparr>rcHeader = Some zero_Header,
      rcRequest = Some \<lparr>rqCmdType = CmdType_Delete, rqGet = None, rqPut = None,
        rqDelete = Some \<lparr>drKey = key\<rparr>\<rparr>,
      rcAdminRequest = None\<rparr>"

definition NewCompactCmdRequest :: "u64 \<Rightarrow> u64 \<Rightarrow> RaftCmdRequest" where
  "NewCompactCmdRequest index term =
     \<lparr>rcHeader = Some zero_Header, rcRequest = None,
      rcAdminRequest = Some \<lparr>arCmdType = AdminCmdType_CompactLog,
        arCompactLog = Some \<lparr>clCompactIndex = index, clCompactTerm = term\<rparr>\<rparr>\<rparr>"

subsection \<open>Proposals that fit\<close>

lemmas cmd_fields =
  RaftCmd_fields_def Request_fields_def Put_fields_def Admin_fields_def CompactLog_fields_def

lemma length_opt_msg:
  "length (put_fields (opt_msg n f (Some x))) \<le> 11 + length (f x)"
  using length_put_bytes [of n "f x"] by (simp add: opt_msg_def)

lemma RaftCmd_fits_Put:
  assumes "length key + length value < 2 ^ 62"
  shows "RaftCmd_fits (NewPutCmdRequest key value)"
proof -
  have "length (marshal_Put \<lparr>prKey = key, prValue = value\<rparr>) \<le> 22 + length key + length value"
    using length_opt_bytes [of 1 key] length_opt_bytes [of 2 "value"]
    by (simp add: marshal_Put_def cmd_fields)
  then show ?thesis
    using assms length_opt_int [of 1 1]
      length_opt_msg [of 1 marshal_Header zero_Header]
      length_opt_msg [of 3 marshal_Put "\<lparr>prKey = key, prValue = value\<rparr>"]
      length_opt_msg [of 2 marshal_Request "\<lparr>rqCmdType = CmdType_Put, rqGet = None,
        rqPut = Some \<lparr>prKey = key, prValue = value\<rparr>, rqDelete = None\<rparr>"]
    by (simp add: RaftCmd_fits_def marshal_RaftCmd_def marshal_Request_def NewPutCmdRequest_def
        marshal_Header_def cmd_fields zero_Header_def opt_int_def opt_msg_def)
qed

lemma RaftCmd_fits_Delete:
  assumes "length key < 2 ^ 62"
  shows "RaftCmd_fits (NewDeleteCmdRequest key)"
proof -
  have "length (marshal_Delete \<lparr>drKey = key\<rparr>) \<le> 11 + length key"
    using length_opt_bytes [of 1 key] by (simp add: marshal_Delete_def)
  then show ?thesis
    using assms length_opt_int [of 1 2]
      length_opt_msg [of 1 marshal_Header zero_Header]
      length_opt_msg [of 4 marshal_Delete "\<lparr>drKey = key\<rparr>"]
      length_opt_msg [of 2 marshal_Request "\<lparr>rqCmdType = CmdType_Delete, rqGet = None,
        rqPut = None, rqDelete = Some \<lparr>drKey = key\<rparr>\<rparr>"]
    by (simp add: RaftCmd_fits_def marshal_RaftCmd_def marshal_Request_def NewDeleteCmdRequest_def
        marshal_Header_def cmd_fields zero_Header_def opt_int_def opt_msg_def)
qed

lemma RaftCmd_fits_Compact: "RaftCmd_fits (NewCompactCmdRequest index term)"
proof -
  let ?c = "\<lparr>clCompactIndex = index, clCompactTerm = term\<rparr>"
  have "length (marshal_CompactLog ?c) \<le> 22"
    using length_opt_int [of 1 index] length_opt_int [of 2 "term"]
    by (simp add: marshal_CompactLog_def cmd_fields)
  then show ?thesis
    using length_opt_msg [of 1 marshal_Header zero_Header]
      length_opt_msg [of 2 marshal_CompactLog ?c]
      length_opt_msg [of 3 marshal_Admin "\<lparr>arCmdType = AdminCmdType_CompactLog,
        arCompactLog = Some ?c\<rparr>"]
    by (simp add: RaftCmd_fits_def marshal_RaftCmd_def marshal_Admin_def NewCompactCmdRequest_def
        marshal_Header_def cmd_fields zero_Header_def opt_int_def opt_msg_def)
qed

lemma unmarshal_RaftCmd_empty: "unmarshal_RaftCmd [] = Some zero_RaftCmd"
  by (simp add: unmarshal_RaftCmd_def unmarshal_into_def scan.simps)

text \<open>A configuration change, read as a command: its first three fields have another wire type
  there and the fourth is unknown, so all of them are skipped.\<close>

lemma unmarshal_RaftCmd_ConfChange:
  assumes "case ccContext m of None \<Rightarrow> True | Some c \<Rightarrow> length c < 2 ^ 63"
  shows "unmarshal_RaftCmd (marshal_ConfChange m) = Some zero_RaftCmd"
proof -
  have "list_all (foreign (bytes_schema {} {1, 2, 3})) (ConfChange_fields m)"
    using assms by (simp add: ConfChange_fields_def bytes_schema_def split: option.splits)
  from scan_foreign [OF this] show ?thesis
    by (simp add: unmarshal_RaftCmd_def unmarshal_into_def marshal_ConfChange_def)
qed

end
