(* ===== verification/Meta.thy ===== *)
theory Meta
  imports Engines Store_Pb
begin

text \<open>
  The keys of the meta database (\<^verbatim>\<open>meta/key.go\<close>) and the loading of the persisted states
  (\<^verbatim>\<open>meta/value.go\<close>).
\<close>

section \<open>Keys: key.go\<close>

abbreviation metaKindLogEntry :: byte where "metaKindLogEntry \<equiv> 0x01"
abbreviation metaKindLocalState :: byte where "metaKindLocalState \<equiv> 0x02"
abbreviation metaKindApplyState :: byte where "metaKindApplyState \<equiv> 0x03"
abbreviation metaKindConfState :: byte where "metaKindConfState \<equiv> 0x04"

definition buildMetaKey :: "byte \<Rightarrow> bytes" where
  "buildMetaKey kind = [kind]"

definition RaftLogEntryKey :: "u64 \<Rightarrow> bytes" where
  "RaftLogEntryKey index = buildMetaKey metaKindLogEntry @ put_u64 index"

definition RaftLocalStateKey :: bytes where
  "RaftLocalStateKey = buildMetaKey metaKindLocalState"

definition RaftApplyStateKey :: bytes where
  "RaftApplyStateKey = buildMetaKey metaKindApplyState"

definition RaftConfStateKey :: bytes where
  "RaftConfStateKey = buildMetaKey metaKindConfState"

lemmas key_defs =
  buildMetaKey_def RaftLogEntryKey_def RaftLocalStateKey_def RaftApplyStateKey_def
  RaftConfStateKey_def

lemma RaftLogEntryKey_inject [simp]: "RaftLogEntryKey i = RaftLogEntryKey j \<longleftrightarrow> i = j"
  by (simp add: key_defs)

lemma put_u64_nonempty [simp]: "put_u64 w \<noteq> []"
  using length_put(2) [of w] by (metis list.size(3) zero_neq_numeral)

lemma state_keys_distinct [simp]:
  "RaftLogEntryKey i \<noteq> RaftLocalStateKey" "RaftLogEntryKey i \<noteq> RaftApplyStateKey"
  "RaftLogEntryKey i \<noteq> RaftConfStateKey" "RaftLocalStateKey \<noteq> RaftLogEntryKey i"
  "RaftApplyStateKey \<noteq> RaftLogEntryKey i" "RaftConfStateKey \<noteq> RaftLogEntryKey i"
  "RaftLocalStateKey \<noteq> RaftApplyStateKey" "RaftLocalStateKey \<noteq> RaftConfStateKey"
  "RaftApplyStateKey \<noteq> RaftLocalStateKey" "RaftApplyStateKey \<noteq> RaftConfStateKey"
  "RaftConfStateKey \<noteq> RaftLocalStateKey" "RaftConfStateKey \<noteq> RaftApplyStateKey"
  by (simp_all add: key_defs)

section \<open>Values: value.go\<close>

text \<open>
  \<^verbatim>\<open>proto.Unmarshal\<close> resets the message first, so the default hard state and truncated
  state that the code puts in are only there when the key is missing.
\<close>

definition get_state :: "'d pebble \<Rightarrow> bytes \<Rightarrow> (bytes \<Rightarrow> 'm option) \<Rightarrow> 'm \<Rightarrow> 'd engines \<Rightarrow> err + 'm" where
  "get_state P key unmarshal dflt e =
     (case ReadMeta P key e of
        Inl er \<Rightarrow> if er = ErrNotFound then Inr dflt else Inl er
      | Inr v \<Rightarrow> (case unmarshal (slice v) of None \<Rightarrow> Inl ProtoErr | Some m \<Rightarrow> Inr m))"

definition or_panic :: "err + 'a \<Rightarrow> 'a run" where
  "or_panic r = (case r of Inl _ \<Rightarrow> panic | Inr x \<Rightarrow> Some x)"

definition default_LocalState :: RaftLocalState where
  "default_LocalState = zero_LocalState\<lparr>lsHardState := Some zero_HardState\<rparr>"

definition default_ApplyState :: RaftApplyState where
  "default_ApplyState = zero_ApplyState\<lparr>asTruncatedState := Some zero_TruncatedState\<rparr>"

definition GetRaftLocalState :: "'d pebble \<Rightarrow> 'd engines \<Rightarrow> err + RaftLocalState" where
  "GetRaftLocalState P e =
     get_state P RaftLocalStateKey unmarshal_LocalState default_LocalState e"

definition InitRaftLocalState :: "'d pebble \<Rightarrow> 'd engines \<Rightarrow> RaftLocalState run" where
  "InitRaftLocalState P e = or_panic (GetRaftLocalState P e)"

definition GetRaftApplyState :: "'d pebble \<Rightarrow> 'd engines \<Rightarrow> err + RaftApplyState" where
  "GetRaftApplyState P e =
     get_state P RaftApplyStateKey unmarshal_ApplyState default_ApplyState e"

definition InitRaftApplyState :: "'d pebble \<Rightarrow> 'd engines \<Rightarrow> RaftApplyState run" where
  "InitRaftApplyState P e = or_panic (GetRaftApplyState P e)"

definition GetRaftConfState :: "'d pebble \<Rightarrow> 'd engines \<Rightarrow> err + ConfState" where
  "GetRaftConfState P e =
     get_state P RaftConfStateKey unmarshal_ConfState zero_ConfState e"

definition InitRaftConfState :: "'d pebble \<Rightarrow> 'd engines \<Rightarrow> ConfState run" where
  "InitRaftConfState P e = or_panic (GetRaftConfState P e)"

text \<open>A state that was never written loads as its default, one that was as what was written.\<close>

lemma get_state_missing:
  "healthy P \<Longrightarrow> meta_map P e key = None \<Longrightarrow> get_state P key unmarshal d e = Inr d"
  by (simp add: get_state_def ReadMeta_healthy)

lemma get_state_present:
  "healthy P \<Longrightarrow> meta_map P e key = Some v \<Longrightarrow> unmarshal v = Some m \<Longrightarrow>
   get_state P key unmarshal d e = Inr m"
  by (simp add: get_state_def ReadMeta_healthy)

lemmas state_loads =
  InitRaftLocalState_def GetRaftLocalState_def InitRaftApplyState_def GetRaftApplyState_def
  InitRaftConfState_def GetRaftConfState_def or_panic_def

end
