(* ===== verification/Peer_Storage.thy ===== *)
theory Peer_Storage
  imports Meta
begin

text \<open>
  The persistent state of a raft peer (\<^verbatim>\<open>raftstore/peer_storage.go\<close>): the storage that the
  etcd raft library reads its log from, and that the peer writes each \<^verbatim>\<open>Ready\<close> batch to.

  The state record has the fields of the struct. A snapshot channel is named by its number;
  \<open>chans\<close> holds the buffered contents of every channel made so far and \<open>generating\<close> the
  numbers of those whose goroutine \<^verbatim>\<open>SchedSnapGen\<close> has been started and has not ended yet, each
  with the place where the goroutine is.
  Pointers that other code shares (\<^verbatim>\<open>applyState\<close>) are values here: only the peer's own loop
  writes them.
\<close>

section \<open>State\<close>

datatype SnapStateType = SnapshotGenerating | SnapshotRelaxed | SnapshotApplying

record SnapState =
  StateType :: SnapStateType
  Receiver :: "nat option"

text \<open>
  The goroutine \<^verbatim>\<open>SchedSnapGen\<close> runs beside the peer's loop and looks at the storage three times: for
  the term of the applied index, for the metadata, and for the pairs. It is before one of these, or
  before it sends the snapshot.
\<close>

datatype gen_pc = GenTerm | GenMeta u64 | GenData SnapshotMetadata | GenSend Snapshot

record 'd peerStorage =
  engines :: "'d engines"
  localState :: RaftLocalState
  applyState :: RaftApplyState
  confState :: ConfState
  snapState :: SnapState
  snapTriedCnt :: int
  chans :: "Snapshot list list"
  generating :: "(nat \<times> gen_pc) list"

definition defaultSnapTriedCnt :: int where
  "defaultSnapTriedCnt = 5"

definition isEmptyConfState :: "ConfState \<Rightarrow> bool" where
  "isEmptyConfState c \<longleftrightarrow>
     length (csVoters c) = 0 \<and> length (csVotersOutgoing c) = 0 \<and>
     length (csLearners c) = 0 \<and> length (csLearnersNext c) = 0"

text \<open>\<^verbatim>\<open>newPeerStorage\<close>, once \<^verbatim>\<open>NewEngines\<close> has opened the two databases.\<close>

definition newPeerStorage :: "'d pebble \<Rightarrow> 'd engines \<Rightarrow> 'd peerStorage run" where
  "newPeerStorage P e =
     do {
       ls \<leftarrow> InitRaftLocalState P e;
       as \<leftarrow> InitRaftApplyState P e;
       cs \<leftarrow> InitRaftConfState P e;
       Some \<lparr>engines = e, localState = ls, applyState = as, confState = cs,
         snapState = \<lparr>StateType = SnapshotRelaxed, Receiver = None\<rparr>, snapTriedCnt = 0,
         chans = [], generating = []\<rparr>
     }"

section \<open>The storage interface of raft\<close>

definition InitialState :: "'d peerStorage \<Rightarrow> (HardState \<times> ConfState) run" where
  "InitialState ps =
     do {
       h \<leftarrow> lsHardState (localState ps);
       Some (if \<not> IsEmptyHardState h then h else zero_HardState,
             if \<not> isEmptyConfState (confState ps) then confState ps else zero_ConfState)
     }"

definition truncateIndex :: "'d peerStorage \<Rightarrow> u64 run" where
  "truncateIndex ps = map_option tsIndex (asTruncatedState (applyState ps))"

definition truncateTerm :: "'d peerStorage \<Rightarrow> u64 run" where
  "truncateTerm ps = map_option tsTerm (asTruncatedState (applyState ps))"

definition AppliedIndex :: "'d peerStorage \<Rightarrow> u64" where
  "AppliedIndex ps = asApplyIndex (applyState ps)"

definition LastIndex :: "'d peerStorage \<Rightarrow> u64" where
  "LastIndex ps = lsLastIndex (localState ps)"

definition FirstIndex :: "'d peerStorage \<Rightarrow> u64 run" where
  "FirstIndex ps = map_option (\<lambda>t. t + 1) (truncateIndex ps)"

definition checkRange :: "u64 \<Rightarrow> u64 \<Rightarrow> 'd peerStorage \<Rightarrow> err option run" where
  "checkRange lo hi ps =
     (if lo > hi then Some (Some (ErrRangeLow lo hi))
      else if hi > lsLastIndex (localState ps) + 1 then Some (Some (ErrRangeHigh hi))
      else do { t \<leftarrow> truncateIndex ps; Some (if lo \<le> t then Some ErrCompacted else None) })"

definition read_entry :: "'d pebble \<Rightarrow> 'd engines \<Rightarrow> u64 \<Rightarrow> err + Entry" where
  "read_entry P e i =
     (case ReadMeta P (RaftLogEntryKey i) e of
        Inl er \<Rightarrow> Inl er
      | Inr v \<Rightarrow> (case unmarshal_Entry (slice v) of None \<Rightarrow> Inl ProtoErr | Some ent \<Rightarrow> Inr ent))"

text \<open>The loop of \<^verbatim>\<open>Entries\<close>: it ends early at an entry whose index is not its key's.\<close>

function read_entries :: "'d pebble \<Rightarrow> 'd engines \<Rightarrow> u64 \<Rightarrow> u64 \<Rightarrow> err + Entry list" where
  "read_entries P e i hi =
     (if i < hi then
        (case read_entry P e i of
           Inl er \<Rightarrow> Inl er
         | Inr ent \<Rightarrow>
             if eIndex ent \<noteq> i then Inr []
             else map_sum id (Cons ent) (read_entries P e (i + 1) hi))
      else Inr [])"
  by pat_completeness auto
termination
  by (relation "measure (\<lambda>(_, _, i, hi). unat hi - unat i)")
    (auto simp: unat_Suc_word word_less_nat_alt)

declare read_entries.simps [simp del]

text \<open>\<^verbatim>\<open>make\<close> panics on a negative capacity.\<close>

definition Entries ::
    "'d pebble \<Rightarrow> u64 \<Rightarrow> u64 \<Rightarrow> u64 \<Rightarrow> 'd peerStorage \<Rightarrow> (err + Entry list) run" where
  "Entries P lo hi maxSize ps =
     do {
       r \<leftarrow> checkRange lo hi ps;
       case r of
         Some er \<Rightarrow> Some (Inl er)
       | None \<Rightarrow>
           if lo = hi then Some (Inr [])
           else (let size = sint (hi - lo) in
                 if size < 0 then panic
                 else Some (case read_entries P (engines ps) lo hi of
                        Inl er \<Rightarrow> Inl er
                      | Inr ents \<Rightarrow>
                          if int (length ents) = size then Inr ents else Inl ErrUnavailable))
     }"

definition Term :: "'d pebble \<Rightarrow> u64 \<Rightarrow> 'd peerStorage \<Rightarrow> (err + u64) run" where
  "Term P i ps =
     do {
       t \<leftarrow> truncateIndex ps;
       if i = t then map_option Inr (truncateTerm ps)
       else do {
         r \<leftarrow> checkRange i (i + 1) ps;
         case r of
           Some er \<Rightarrow> Some (Inl er)
         | None \<Rightarrow>
             Some (if i = lsLastIndex (localState ps) then Inr (lsLastTerm (localState ps))
                   else map_sum id eTerm (read_entry P (engines ps) i))
       }
     }"

subsection \<open>Snapshots\<close>

definition snapshotValid :: "Snapshot \<Rightarrow> 'd peerStorage \<Rightarrow> bool run" where
  "snapshotValid s ps = map_option (\<lambda>t. smIndex (snMetadata s) \<ge> t) (truncateIndex ps)"

text \<open>The tail of \<^verbatim>\<open>Snapshot\<close>: give up, or start another generating goroutine.\<close>

definition schedule_snapshot ::
    "Snapshot \<Rightarrow> 'd peerStorage \<Rightarrow> Snapshot \<times> err option \<times> 'd peerStorage" where
  "schedule_snapshot snapshot ps =
     (if snapTriedCnt ps \<ge> defaultSnapTriedCnt then
        (let ps' = ps\<lparr>snapTriedCnt := 0\<rparr>
         in (snapshot, Some (ErrSnapTried (snapTriedCnt ps')), ps'))
      else
        (let ch = length (chans ps) in
         (snapshot, Some ErrSnapshotTemporarilyUnavailable,
          ps\<lparr>snapTriedCnt := snapTriedCnt ps + 1,
             snapState := \<lparr>StateType = SnapshotGenerating, Receiver = Some ch\<rparr>,
             chans := chans ps @ [[]],
             generating := generating ps @ [(ch, GenTerm)]\<rparr>)))"

text \<open>The non-blocking receive: nothing is ready on a nil channel.\<close>

definition receive :: "nat option \<Rightarrow> Snapshot list list \<Rightarrow> (Snapshot \<times> Snapshot list list) option" where
  "receive r cs =
     (case r of
        None \<Rightarrow> None
      | Some n \<Rightarrow> if n < length cs then
                    (case cs ! n of [] \<Rightarrow> None | s # ss \<Rightarrow> Some (s, cs[n := ss]))
                  else None)"

definition Snapshot_op :: "'d peerStorage \<Rightarrow> (Snapshot \<times> err option \<times> 'd peerStorage) run" where
  "Snapshot_op ps =
     (if StateType (snapState ps) = SnapshotGenerating then
        (case receive (Receiver (snapState ps)) (chans ps) of
           None \<Rightarrow> Some (zero_Snapshot, Some ErrSnapshotTemporarilyUnavailable, ps)
         | Some (snapshot, cs) \<Rightarrow>
             (let ps1 = ps\<lparr>snapState := (snapState ps)\<lparr>StateType := SnapshotRelaxed\<rparr>, chans := cs\<rparr> in
              if \<not> IsEmptySnap snapshot then
                (let ps2 = ps1\<lparr>snapTriedCnt := 0\<rparr> in
                 do {
                   valid \<leftarrow> snapshotValid snapshot ps2;
                   Some (if valid then (snapshot, None, ps2) else schedule_snapshot snapshot ps2)
                 })
              else Some (schedule_snapshot snapshot ps1)))
      else Some (schedule_snapshot zero_Snapshot ps))"

text \<open>The snapshot that a generating goroutine makes which finds the storages \<open>s1\<close>, \<open>s2\<close> and \<open>s3\<close> when it
  looks for the term, the metadata and the pairs: an error of \<^verbatim>\<open>Term\<close> is dropped.\<close>

definition gen_term :: "'d pebble \<Rightarrow> 'd peerStorage \<Rightarrow> u64 run" where
  "gen_term P ps = map_option (\<lambda>t. case t of Inl _ \<Rightarrow> 0 | Inr x \<Rightarrow> x) (Term P (AppliedIndex ps) ps)"

definition gen_metadata :: "u64 \<Rightarrow> 'd peerStorage \<Rightarrow> SnapshotMetadata" where
  "gen_metadata t ps = \<lparr>smConfState = confState ps, smIndex = AppliedIndex ps, smTerm = t\<rparr>"

definition gen_snapshot :: "'d pebble \<Rightarrow> SnapshotMetadata \<Rightarrow> 'd peerStorage \<Rightarrow> Snapshot" where
  "gen_snapshot P m ps = \<lparr>snData = Some (KVSnapshot P (engines ps)), snMetadata = m\<rparr>"

definition make_snapshot ::
    "'d pebble \<Rightarrow> 'd peerStorage \<Rightarrow> 'd peerStorage \<Rightarrow> 'd peerStorage \<Rightarrow> Snapshot run" where
  "make_snapshot P s1 s2 s3 =
     do {
       t \<leftarrow> gen_term P s1;
       Some (gen_snapshot P (gen_metadata t s2) s3)
     }"

text \<open>The goroutine of channel \<open>ch\<close> up to its next look at the storage, or to its send.\<close>

definition gen_at :: "nat \<Rightarrow> gen_pc \<Rightarrow> 'd peerStorage \<Rightarrow> 'd peerStorage" where
  "gen_at ch g ps = ps\<lparr>generating := map (\<lambda>(c, x). (c, if c = ch then g else x)) (generating ps)\<rparr>"

definition SchedSnapGen :: "'d pebble \<Rightarrow> nat \<Rightarrow> 'd peerStorage \<Rightarrow> 'd peerStorage run" where
  "SchedSnapGen P ch ps =
     (case map_of (generating ps) ch of
        None \<Rightarrow> Some ps
      | Some GenTerm \<Rightarrow> map_option (\<lambda>t. gen_at ch (GenMeta t) ps) (gen_term P ps)
      | Some (GenMeta t) \<Rightarrow> Some (gen_at ch (GenData (gen_metadata t ps)) ps)
      | Some (GenData m) \<Rightarrow> Some (gen_at ch (GenSend (gen_snapshot P m ps)) ps)
      | Some (GenSend x) \<Rightarrow>
          Some (ps\<lparr>chans := (chans ps)[ch := chans ps ! ch @ [x]],
            generating := filter (\<lambda>(c, _). c \<noteq> ch) (generating ps)\<rparr>))"

section \<open>Writing\<close>

definition putMeta ::
    "'d pebble \<Rightarrow> bytes \<Rightarrow> ('m \<Rightarrow> bytes) \<Rightarrow> 'm \<Rightarrow> 'd peerStorage \<Rightarrow> err option \<times> 'd peerStorage" where
  "putMeta P key marshal msg ps =
     (let (er, e) = WriteMeta P (PutMeta key marshal msg True) (engines ps)
      in (er, ps\<lparr>engines := e\<rparr>))"

definition deleteMeta :: "'d pebble \<Rightarrow> bytes \<Rightarrow> 'd peerStorage \<Rightarrow> err option \<times> 'd peerStorage" where
  "deleteMeta P key ps =
     (let (er, e) = WriteMeta P (DeleteMeta key True) (engines ps)
      in (er, ps\<lparr>engines := e\<rparr>))"

definition writeLocalState ::
    "'d pebble \<Rightarrow> RaftLocalState \<Rightarrow> 'd peerStorage \<Rightarrow> err option \<times> 'd peerStorage" where
  "writeLocalState P ls ps = putMeta P RaftLocalStateKey marshal_LocalState ls ps"

definition writeApplyState ::
    "'d pebble \<Rightarrow> RaftApplyState \<Rightarrow> 'd peerStorage \<Rightarrow> err option \<times> 'd peerStorage" where
  "writeApplyState P as ps = putMeta P RaftApplyStateKey marshal_ApplyState as ps"

definition writeConfState ::
    "'d pebble \<Rightarrow> ConfState \<Rightarrow> 'd peerStorage \<Rightarrow> err option \<times> 'd peerStorage" where
  "writeConfState P cs ps = putMeta P RaftConfStateKey marshal_ConfState cs ps"

fun appendLogEntries ::
    "'d pebble \<Rightarrow> Entry list \<Rightarrow> 'd peerStorage \<Rightarrow> err option \<times> 'd peerStorage" where
  "appendLogEntries P [] ps = (None, ps)"
| "appendLogEntries P (ent # ents) ps =
     (case putMeta P (RaftLogEntryKey (eIndex ent)) marshal_Entry ent ps of
        (Some er, ps') \<Rightarrow> (Some er, ps')
      | (None, ps') \<Rightarrow> appendLogEntries P ents ps')"

fun deleteLogEntries ::
    "'d pebble \<Rightarrow> Entry list \<Rightarrow> 'd peerStorage \<Rightarrow> err option \<times> 'd peerStorage" where
  "deleteLogEntries P [] ps = (None, ps)"
| "deleteLogEntries P (ent # ents) ps =
     (case deleteMeta P (RaftLogEntryKey (eIndex ent)) ps of
        (Some er, ps') \<Rightarrow> (Some er, ps')
      | (None, ps') \<Rightarrow> deleteLogEntries P ents ps')"

text \<open>The loop that collects the stale indexes up to and including \<open>lasti\<close>. It does not end
  when \<open>lasti\<close> is the greatest index, as the counter wraps.\<close>

partial_function (option) stale_entries :: "u64 \<Rightarrow> u64 \<Rightarrow> Entry list option" where
  "stale_entries i lasti =
     (if i \<le> lasti
      then do { es \<leftarrow> stale_entries (i + 1) lasti; Some (zero_Entry\<lparr>eIndex := i\<rparr> # es) }
      else Some [])"

text \<open>Dropping the entries before the first index: slicing past the end panics.\<close>

definition drop_compacted :: "u64 \<Rightarrow> u64 \<Rightarrow> Entry list \<Rightarrow> Entry list run" where
  "drop_compacted firsti trunc ents =
     (if firsti > eIndex (hd ents) then
        (let k = unat (trunc - eIndex (hd ents) + 1)
         in if k \<le> length ents then Some (drop k ents) else panic)
      else Some ents)"

definition truncateAndAppend :: "'d pebble \<Rightarrow> Entry list \<Rightarrow> 'd peerStorage \<Rightarrow> 'd peerStorage run" where
  "truncateAndAppend P ents ps =
     (if ents = [] then Some ps
      else do {
        firsti \<leftarrow> FirstIndex ps;
        trunc \<leftarrow> truncateIndex ps;
        let lastEnt = last ents;
        if firsti > eIndex lastEnt then Some ps
        else do {
          es \<leftarrow> drop_compacted firsti trunc ents;
          let ps1 = snd (appendLogEntries P es ps);
          let lasti = LastIndex ps1;
          deleted \<leftarrow> (if lasti > eIndex lastEnt then stale_entries (eIndex lastEnt + 1) lasti
                      else Some []);
          let ps2 = (if lasti > eIndex lastEnt then snd (deleteLogEntries P deleted ps1) else ps1);
          Some (ps2\<lparr>localState := (localState ps2)\<lparr>lsLastTerm := eTerm lastEnt,
                  lsLastIndex := eIndex lastEnt\<rparr>\<rparr>)
        }
      })"

fun write_pairs :: "'d pebble \<Rightarrow> Pair list \<Rightarrow> 'd engines \<Rightarrow> 'd engines" where
  "write_pairs P [] e = e"
| "write_pairs P (p # ps) e = write_pairs P ps (snd (WriteKV P (PutData (Key p) (Val p) True) e))"

text \<open>\<open>spare\<close> is the capacity behind the received snapshot data.\<close>

definition applySnapshot :: "'d pebble \<Rightarrow> bytes \<Rightarrow> Snapshot \<Rightarrow> 'd peerStorage \<Rightarrow> 'd peerStorage run" where
  "applySnapshot P spare s ps =
     do {
       ts \<leftarrow> asTruncatedState (applyState ps);
       let m = snMetadata s;
       let ps1 = ps\<lparr>localState := (localState ps)\<lparr>lsLastIndex := smIndex m, lsLastTerm := smTerm m\<rparr>,
                    applyState := \<lparr>asApplyIndex = smIndex m,
                      asTruncatedState = Some (ts\<lparr>tsIndex := smIndex m, tsTerm := smTerm m\<rparr>)\<rparr>\<rparr>;
       let ps2 = snd (writeApplyState P (applyState ps1) ps1);
       let ps3 = ps2\<lparr>confState := smConfState m\<rparr>;
       let ps4 = snd (writeConfState P (confState ps3) ps3);
       let ps5 = ps4\<lparr>snapState := (snapState ps4)\<lparr>StateType := SnapshotApplying\<rparr>\<rparr>;
       pairs \<leftarrow> Decode spare (slice (snData s));
       Some (ps5\<lparr>engines := write_pairs P pairs (engines ps5)\<rparr>)
     }"

definition saveReadyState ::
    "'d pebble \<Rightarrow> bytes \<Rightarrow> Ready \<Rightarrow> 'd peerStorage \<Rightarrow> (err option \<times> 'd peerStorage) run" where
  "saveReadyState P spare rd ps =
     do {
       ps1 \<leftarrow> (if \<not> IsEmptySnap (rdSnapshot rd) then applySnapshot P spare (rdSnapshot rd) ps
               else Some ps);
       ps2 \<leftarrow> truncateAndAppend P (rdEntries rd) ps1;
       let ps3 = (if \<not> IsEmptyHardState (rdHardState rd)
                  then ps2\<lparr>localState := (localState ps2)\<lparr>lsHardState := Some (rdHardState rd)\<rparr>\<rparr>
                  else ps2);
       Some (writeLocalState P (localState ps3) ps3)
     }"

end
