(* ===== verification/Memory_Storage.thy ===== *)
theory Memory_Storage
  imports Engines Raft_Pb
begin

text \<open>
  The in-memory log storage of the etcd raft library (\<^verbatim>\<open>raft/storage.go\<close>, with \<^verbatim>\<open>limitSize\<close>
  of \<^verbatim>\<open>raft/util.go\<close>): the library's own implementation of its \<^verbatim>\<open>Storage\<close> interface. Here it
  is the specification that the peer's storage on disk is compared with. Its log is a list
  whose head is a dummy entry, at the index and term up to which the log is compacted.
\<close>

record MemoryStorage =
  msHardState :: HardState
  msSnapshot :: Snapshot
  msEnts :: "Entry list"

definition NewMemoryStorage :: MemoryStorage where
  "NewMemoryStorage = \<lparr>msHardState = zero_HardState, msSnapshot = zero_Snapshot,
     msEnts = [zero_Entry]\<rparr>"

definition ms_SetHardState :: "HardState \<Rightarrow> MemoryStorage \<Rightarrow> MemoryStorage" where
  "ms_SetHardState st ms = ms\<lparr>msHardState := st\<rparr>"

text \<open>The list of entries is never empty, so \<open>hd\<close> is its element 0.\<close>

definition ms_offset :: "MemoryStorage \<Rightarrow> u64" where
  "ms_offset ms = eIndex (hd (msEnts ms))"

definition ms_lastIndex :: "MemoryStorage \<Rightarrow> u64" where
  "ms_lastIndex ms = ms_offset ms + word_of_nat (length (msEnts ms)) - 1"

definition ms_firstIndex :: "MemoryStorage \<Rightarrow> u64" where
  "ms_firstIndex ms = ms_offset ms + 1"

definition Entry_Size :: "Entry \<Rightarrow> nat" where
  "Entry_Size ent = length (marshal_Entry ent)"

fun limit_loop :: "nat \<Rightarrow> nat \<Rightarrow> Entry list \<Rightarrow> Entry list" where
  "limit_loop maxSize sz [] = []"
| "limit_loop maxSize sz (ent # ents) =
     (let sz' = sz + Entry_Size ent in
      if sz' > maxSize then [] else ent # limit_loop maxSize sz' ents)"

fun limitSize :: "Entry list \<Rightarrow> nat \<Rightarrow> Entry list" where
  "limitSize [] maxSize = []"
| "limitSize (ent # ents) maxSize = ent # limit_loop maxSize (Entry_Size ent) ents"

definition ms_Entries :: "u64 \<Rightarrow> u64 \<Rightarrow> u64 \<Rightarrow> MemoryStorage \<Rightarrow> (err + Entry list) run" where
  "ms_Entries lo hi maxSize ms =
     (let offset = ms_offset ms in
      if lo \<le> offset then Some (Inl ErrCompacted)
      else if hi > ms_lastIndex ms + 1 then panic
      else if length (msEnts ms) = 1 then Some (Inl ErrUnavailable)
      else (let i = unat (lo - offset); j = unat (hi - offset) in
            if i \<le> j \<and> j \<le> length (msEnts ms)
            then Some (Inr (limitSize (take (j - i) (drop i (msEnts ms))) (unat maxSize)))
            else panic))"

definition ms_Term :: "u64 \<Rightarrow> MemoryStorage \<Rightarrow> (err + u64) run" where
  "ms_Term i ms =
     (let offset = ms_offset ms in
      if i < offset then Some (Inl ErrCompacted)
      else if sint (i - offset) \<ge> int (length (msEnts ms)) then Some (Inl ErrUnavailable)
      else if unat (i - offset) < length (msEnts ms)
      then Some (Inr (eTerm (msEnts ms ! unat (i - offset))))
      else panic)"

definition ms_ApplySnapshot :: "Snapshot \<Rightarrow> MemoryStorage \<Rightarrow> err option \<times> MemoryStorage" where
  "ms_ApplySnapshot s ms =
     (if smIndex (snMetadata (msSnapshot ms)) \<ge> smIndex (snMetadata s)
      then (Some ErrSnapOutOfDate, ms)
      else (None, ms\<lparr>msSnapshot := s,
        msEnts := [zero_Entry\<lparr>eTerm := smTerm (snMetadata s), eIndex := smIndex (snMetadata s)\<rparr>]\<rparr>))"

definition ms_Compact :: "u64 \<Rightarrow> MemoryStorage \<Rightarrow> (err option \<times> MemoryStorage) run" where
  "ms_Compact compactIndex ms =
     (let offset = ms_offset ms in
      if compactIndex \<le> offset then Some (Some ErrCompacted, ms)
      else if compactIndex > ms_lastIndex ms then panic
      else (let i = unat (compactIndex - offset); ent = msEnts ms ! i in
            Some (None, ms\<lparr>msEnts :=
              zero_Entry\<lparr>eIndex := eIndex ent, eTerm := eTerm ent\<rparr> # drop (i + 1) (msEnts ms)\<rparr>)))"

definition ms_Append :: "Entry list \<Rightarrow> MemoryStorage \<Rightarrow> MemoryStorage run" where
  "ms_Append entries ms =
     (if entries = [] then Some ms
      else (let first = ms_firstIndex ms;
                lst = eIndex (hd entries) + word_of_nat (length entries) - 1 in
            if lst < first then Some ms
            else do {
              es \<leftarrow> (if first > eIndex (hd entries) then
                       (let k = unat (first - eIndex (hd entries)) in
                        if k \<le> length entries then Some (drop k entries) else panic)
                     else Some entries);
              let offset = unat (eIndex (hd es) - ms_offset ms);
              if length (msEnts ms) > offset
              then Some (ms\<lparr>msEnts := take offset (msEnts ms) @ es\<rparr>)
              else if length (msEnts ms) = offset then Some (ms\<lparr>msEnts := msEnts ms @ es\<rparr>)
              else panic
            }))"

section \<open>A well-formed log\<close>

text \<open>The entries carry consecutive indexes, and the greatest index is never reached.\<close>

definition consecutive :: "u64 \<Rightarrow> Entry list \<Rightarrow> bool" where
  "consecutive i es \<longleftrightarrow> (\<forall>j < length es. eIndex (es ! j) = i + word_of_nat j)"

definition ms_ok :: "MemoryStorage \<Rightarrow> bool" where
  "ms_ok ms \<longleftrightarrow>
     msEnts ms \<noteq> [] \<and> consecutive (ms_offset ms) (msEnts ms) \<and>
     unat (ms_offset ms) + length (msEnts ms) < 2 ^ 64"

lemma consecutive_Cons: "consecutive i (e # es) \<longleftrightarrow> eIndex e = i \<and> consecutive (i + 1) es"
  unfolding consecutive_def by (auto simp: less_Suc_eq_0_disj nth_Cons add.assoc split: nat.splits)

lemma consecutive_append:
  "consecutive i (es @ fs) \<longleftrightarrow> consecutive i es \<and> consecutive (i + word_of_nat (length es)) fs"
  by (induction es arbitrary: i) (auto simp: consecutive_Cons add.assoc consecutive_def [of _ "[]"])

lemma consecutive_Nil [simp]: "consecutive i []"
  by (simp add: consecutive_def)

lemma consecutive_take: "consecutive i es \<Longrightarrow> consecutive i (take n es)"
  by (simp add: consecutive_def)

lemma consecutive_drop:
  "consecutive i es \<Longrightarrow> n \<le> length es \<Longrightarrow> consecutive (i + word_of_nat n) (drop n es)"
  by (simp add: consecutive_def add.assoc)

lemma consecutive_hd: "consecutive i es \<Longrightarrow> es \<noteq> [] \<Longrightarrow> eIndex (hd es) = i"
  by (cases es) (auto simp: consecutive_Cons)

lemma consecutive_last:
  "consecutive i es \<Longrightarrow> es \<noteq> [] \<Longrightarrow> eIndex (last es) = i + word_of_nat (length es - 1)"
  by (simp add: consecutive_def last_conv_nth)

lemma unat_add_small: "unat (i::u64) + n < 2 ^ 64 \<Longrightarrow> unat (i + word_of_nat n) = unat i + n"
  by (simp add: unat_word_ariths unat_of_nat)

lemma ms_lastIndex_unat:
  assumes "ms_ok ms"
  shows "unat (ms_lastIndex ms) = unat (ms_offset ms) + (length (msEnts ms) - 1)"
proof -
  obtain n where n: "length (msEnts ms) = Suc n"
    using assms by (cases "msEnts ms") (auto simp: ms_ok_def)
  then have "ms_lastIndex ms = ms_offset ms + word_of_nat n" by (simp add: ms_lastIndex_def)
  with n assms show ?thesis by (simp add: ms_ok_def unat_add_small)
qed

lemma limit_loop_all: "sz + sum_list (map Entry_Size es) \<le> m \<Longrightarrow> limit_loop m sz es = es"
  by (induction es arbitrary: sz) (auto simp: Let_def add.assoc)

lemma limitSize_all: "sum_list (map Entry_Size es) \<le> m \<Longrightarrow> limitSize es m = es"
  by (cases es) (auto simp: limit_loop_all)

lemma word_sub_unat: "(i::u64) \<le> j \<Longrightarrow> unat (j - i) = unat j - unat i"
  by (simp add: unat_sub)

end
