(* ===== verification/Peer_Log.thy ===== *)
theory Peer_Log
  imports Peer_Storage Memory_Storage
begin

text \<open>
  The log that a peer keeps on disk is the log of the library's \<^verbatim>\<open>MemoryStorage\<close>: the
  abstraction \<open>peer_ents\<close> reads the whole log back, \<open>log_ok\<close> is the invariant of the
  meta database, and every read and write of the peer's storage is shown to be the
  corresponding operation of the memory storage on \<open>peer_ents\<close>.
\<close>

section \<open>Abstraction and invariant\<close>

text \<open>The entry stored under an index.\<close>

definition log_entry :: "'d pebble \<Rightarrow> 'd peerStorage \<Rightarrow> u64 \<Rightarrow> Entry option" where
  "log_entry P ps i =
     (case meta_map P (engines ps) (RaftLogEntryKey i) of
        None \<Rightarrow> None
      | Some v \<Rightarrow> unmarshal_Entry v)"

definition trunc_state :: "'d peerStorage \<Rightarrow> RaftTruncatedState" where
  "trunc_state ps =
     (case asTruncatedState (applyState ps) of None \<Rightarrow> zero_TruncatedState | Some ts \<Rightarrow> ts)"

abbreviation trunc :: "'d peerStorage \<Rightarrow> u64" where "trunc ps \<equiv> tsIndex (trunc_state ps)"

definition log_size :: "'d peerStorage \<Rightarrow> nat" where
  "log_size ps = unat (LastIndex ps) - unat (trunc ps)"

definition dummy_entry :: "'d peerStorage \<Rightarrow> Entry" where
  "dummy_entry ps = zero_Entry\<lparr>eTerm := tsTerm (trunc_state ps), eIndex := trunc ps\<rparr>"

definition peer_ents :: "'d pebble \<Rightarrow> 'd peerStorage \<Rightarrow> Entry list" where
  "peer_ents P ps =
     dummy_entry ps #
     map (\<lambda>j. the (log_entry P ps (trunc ps + word_of_nat (Suc j)))) [0..<log_size ps]"

definition log_stored :: "'d pebble \<Rightarrow> 'd peerStorage \<Rightarrow> bool" where
  "log_stored P ps \<longleftrightarrow>
     list_all (\<lambda>j. let i = trunc ps + word_of_nat (Suc j)
                   in map_option eIndex (log_entry P ps i) = Some i) [0..<log_size ps]"

definition log_ok :: "'d pebble \<Rightarrow> 'd peerStorage \<Rightarrow> bool" where
  "log_ok P ps \<longleftrightarrow>
     asTruncatedState (applyState ps) \<noteq> None \<and>
     trunc ps \<le> LastIndex ps \<and> LastIndex ps \<noteq> - 1 \<and>
     log_stored P ps \<and>
     eTerm (last (peer_ents P ps)) = lsLastTerm (localState ps)"

lemma log_ok_state: "log_ok P ps \<Longrightarrow> asTruncatedState (applyState ps) = Some (trunc_state ps)"
  by (auto simp: log_ok_def trunc_state_def)

lemma log_ok_trunc [simp]:
  "log_ok P ps \<Longrightarrow> truncateIndex ps = Some (trunc ps)"
  "log_ok P ps \<Longrightarrow> truncateTerm ps = Some (tsTerm (trunc_state ps))"
  by (auto simp: truncateIndex_def truncateTerm_def dest: log_ok_state)

lemma unat_minus_one_less: "(w::u64) \<noteq> - 1 \<Longrightarrow> Suc (unat w) < 2 ^ 64"
proof -
  assume a: "w \<noteq> - 1"
  have "unat w \<noteq> 2 ^ 64 - 1"
  proof
    assume "unat w = 2 ^ 64 - 1"
    then have "unat w = unat (- 1 :: u64)" by (simp add: unsigned_minus_1_eq_mask mask_eq_exp_minus_1)
    with a show False by (metis word_unat_eq_iff)
  qed
  with unsigned_less [of w, where 'a = nat] show ?thesis by simp
qed

lemma log_ok_last: "log_ok P ps \<Longrightarrow> unat (trunc ps) \<le> unat (LastIndex ps)"
  "log_ok P ps \<Longrightarrow> Suc (unat (LastIndex ps)) < 2 ^ 64"
  using unat_minus_one_less by (auto simp: log_ok_def word_le_nat_alt)

lemma length_peer_ents [simp]: "length (peer_ents P ps) = Suc (log_size ps)"
  by (simp add: peer_ents_def)

lemma peer_ents_nonempty [simp]: "peer_ents P ps \<noteq> []"
  by (simp add: peer_ents_def)

lemma hd_peer_ents [simp]: "hd (peer_ents P ps) = dummy_entry ps"
  by (simp add: peer_ents_def)

lemma peer_ents_nth:
  "j < Suc (log_size ps) \<Longrightarrow> peer_ents P ps ! j =
     (if j = 0 then dummy_entry ps else the (log_entry P ps (trunc ps + word_of_nat j)))"
  by (auto simp: peer_ents_def nth_Cons' simp del: upt_Suc of_nat_Suc)

text \<open>An index within the log, as a position of the list.\<close>

lemma log_index:
  assumes "log_ok P ps" "trunc ps \<le> i" "i \<le> LastIndex ps"
  shows "i = trunc ps + word_of_nat (unat i - unat (trunc ps))"
    "unat i - unat (trunc ps) < Suc (log_size ps)"
  using assms by (auto simp: log_size_def word_le_nat_alt unat_sub of_nat_diff)

lemma log_entry_stored:
  assumes "log_ok P ps" "trunc ps < i" "i \<le> LastIndex ps"
  shows "\<exists>e. log_entry P ps i = Some e \<and> eIndex e = i"
    "the (log_entry P ps i) = peer_ents P ps ! (unat i - unat (trunc ps))"
proof -
  let ?j = "unat i - unat (trunc ps)"
  have i: "i = trunc ps + word_of_nat ?j" "?j < Suc (log_size ps)"
    using log_index [of P ps i] assms by auto
  have "0 < ?j" using assms(2) by (simp add: word_less_nat_alt)
  then obtain k where k: "?j = Suc k" by (cases ?j) auto
  have "map_option eIndex (log_entry P ps i) = Some i"
    using assms(1) i k unfolding log_ok_def log_stored_def list_all_iff Let_def
    by (metis atLeastLessThan_iff less_Suc_eq_le not_less_eq set_upt zero_le Suc_le_eq)
  then show "\<exists>e. log_entry P ps i = Some e \<and> eIndex e = i" by auto
  show "the (log_entry P ps i) = peer_ents P ps ! ?j"
    using i k peer_ents_nth [of ?j ps P] by simp
qed

lemma peer_ents_consecutive:
  assumes "log_ok P ps"
  shows "consecutive (trunc ps) (peer_ents P ps)"
  unfolding consecutive_def
proof (intro allI impI)
  fix j assume j: "j < length (peer_ents P ps)"
  show "eIndex (peer_ents P ps ! j) = trunc ps + word_of_nat j"
  proof (cases "j = 0")
    case True
    then show ?thesis using j by (simp add: peer_ents_nth dummy_entry_def)
  next
    case False
    let ?i = "trunc ps + word_of_nat j"
    have u: "unat ?i = unat (trunc ps) + j"
      using j log_ok_last [OF assms] by (simp add: unat_add_small log_size_def)
    then have "trunc ps < ?i" "?i \<le> LastIndex ps"
      using False j by (auto simp: word_less_nat_alt word_le_nat_alt log_size_def)
    from log_entry_stored(1) [OF assms this]
    have "eIndex (the (log_entry P ps ?i)) = ?i" by auto
    then show ?thesis using False j by (simp only: peer_ents_nth length_peer_ents if_False)
  qed
qed

text \<open>A memory storage with the same log, and the relation that the refinement keeps.\<close>

definition refines :: "'d pebble \<Rightarrow> 'd peerStorage \<Rightarrow> MemoryStorage \<Rightarrow> bool" where
  "refines P ps ms \<longleftrightarrow> log_ok P ps \<and> msEnts ms = peer_ents P ps"

lemma refines_offset: "refines P ps ms \<Longrightarrow> ms_offset ms = trunc ps"
  by (simp add: refines_def ms_offset_def dummy_entry_def)

lemma refines_ms_ok: "refines P ps ms \<Longrightarrow> ms_ok ms"
  using peer_ents_consecutive [of P ps] log_ok_last [of P ps]
  by (simp add: ms_ok_def refines_offset) (simp add: refines_def log_size_def)

lemma refines_lastIndex: "refines P ps ms \<Longrightarrow> ms_lastIndex ms = LastIndex ps"
  by (rule word_unat_eq_iff [THEN iffD2])
    (use log_ok_last [of P ps] ms_lastIndex_unat [of ms] in
      \<open>auto simp: refines_ms_ok refines_offset refines_def log_size_def\<close>)

end
