(* ===== verification/Log_Refinement.thy ===== *)
theory Log_Refinement
  imports Peer_Log
begin

text \<open>
  The operations of the peer's storage against those of the memory storage: the reads that
  raft makes of its log, and the writes of a \<^verbatim>\<open>Ready\<close> batch.
\<close>

section \<open>Reads\<close>

lemma checkRange_log_ok:
  "log_ok P ps \<Longrightarrow> checkRange lo hi ps =
     Some (if lo > hi then Some (ErrRangeLow lo hi)
           else if hi > LastIndex ps + 1 then Some (ErrRangeHigh hi)
           else if lo \<le> trunc ps then Some ErrCompacted else None)"
  by (simp add: checkRange_def LastIndex_def)

lemma read_entry_stored: "log_entry P ps i = Some e \<Longrightarrow> read_entry P (engines ps) i = Inr e"
  by (auto simp: log_entry_def read_entry_def ReadMeta_present split: option.splits)

lemma FirstIndex_refines: "refines P ps ms \<Longrightarrow> FirstIndex ps = Some (ms_firstIndex ms)"
  by (simp add: FirstIndex_def ms_firstIndex_def refines_offset) (auto simp: refines_def)

lemma sint_le_unat: "sint (w::u64) \<le> int (unat w)"
proof -
  have "sint w \<le> uint w"
    using order_trans [of "- 9223372036854775808" 0 "uint w"]
    by (simp add: sint_uint signed_take_bit_int_less_eq_self_iff)
  then show ?thesis by simp
qed

lemma sint_small: "unat (w::u64) = n \<Longrightarrow> n < 2 ^ 63 \<Longrightarrow> sint w = int n"
proof -
  assume "unat w = n" "n < 2 ^ 63"
  then have "uint w = int n" "int n < 2 ^ 63" by auto
  then show ?thesis by (simp add: sint_uint signed_take_bit_int_eq_self)
qed

lemma ms_Term_refines:
  assumes "refines P ps ms" "trunc ps \<le> i" "i \<le> LastIndex ps"
  shows "ms_Term i ms = Some (Inr (eTerm (peer_ents P ps ! (unat i - unat (trunc ps)))))"
proof -
  have ok: "log_ok P ps" and e: "msEnts ms = peer_ents P ps" using assms(1) by (auto simp: refines_def)
  have "unat (i - trunc ps) = unat i - unat (trunc ps)" using assms(2) by (rule word_sub_unat)
  moreover have "unat i - unat (trunc ps) < Suc (log_size ps)" using log_index [OF ok] assms by blast
  moreover have "sint (i - trunc ps) \<le> int (unat (i - trunc ps))" by (rule sint_le_unat)
  ultimately show ?thesis
    using assms by (simp add: ms_Term_def Let_def refines_offset e not_less)
qed

lemma Term_refines:
  assumes "refines P ps ms" "trunc ps \<le> i" "i \<le> LastIndex ps"
  shows "Term P i ps = ms_Term i ms"
proof -
  have ok: "log_ok P ps" using assms(1) by (auto simp: refines_def)
  note m = ms_Term_refines [OF assms]
  show ?thesis
  proof (cases "i = trunc ps")
    case True
    then show ?thesis using ok m by (simp add: Term_def peer_ents_nth dummy_entry_def)
  next
    case False
    then have gt: "trunc ps < i" using assms(2) by simp
    have wr: "i < i + 1" "i + 1 \<le> LastIndex ps + 1"
      using assms(3) log_ok_last(2) [OF ok] by (auto simp: word_less_nat_alt word_le_nat_alt
          unat_add_small [of _ 1, simplified])
    have cr: "checkRange i (i + 1) ps = Some None"
      using wr gt ok by (auto simp: checkRange_log_ok [OF ok])
    show ?thesis
    proof (cases "i = LastIndex ps")
      case True
      have "eTerm (peer_ents P ps ! log_size ps) = lsLastTerm (localState ps)"
        using ok last_conv_nth [of "peer_ents P ps"] by (simp add: log_ok_def)
      then show ?thesis
        using True False cr ok m by (simp add: Term_def LastIndex_def log_size_def)
    next
      case False
      then show ?thesis
        using \<open>i \<noteq> trunc ps\<close> cr ok m log_entry_stored [OF ok gt assms(3)]
        by (auto simp: Term_def LastIndex_def read_entry_stored)
    qed
  qed
qed

lemma Term_compacted:
  assumes "log_ok P ps" "i < trunc ps"
  shows "Term P i ps = Some (Inl ErrCompacted)"
proof -
  have "i < i + 1" "i + 1 \<le> LastIndex ps + 1"
    using assms log_ok_last [OF assms(1)]
    by (auto simp: word_less_nat_alt word_le_nat_alt unat_add_small [of _ 1, simplified])
  then have "checkRange i (i + 1) ps = Some (Some ErrCompacted)"
    using assms by (auto simp: checkRange_log_ok [OF assms(1)])
  then show ?thesis using assms by (auto simp: Term_def)
qed

lemma Term_beyond:
  assumes "log_ok P ps" "LastIndex ps < i"
  shows "Term P i ps = Some (Inl (if i = - 1 then ErrRangeLow (- 1) 0 else ErrRangeHigh (i + 1)))"
proof -
  have ne: "i \<noteq> trunc ps" using assms log_ok_last(1) [OF assms(1)] by (auto simp: word_less_nat_alt)
  show ?thesis
  proof (cases "i = - 1")
    case True
    then have "checkRange i (i + 1) ps = Some (Some (ErrRangeLow (- 1) 0))"
      by (simp add: checkRange_log_ok [OF assms(1)] word_less_nat_alt
          unsigned_minus_1_eq_mask mask_eq_exp_minus_1)
    then show ?thesis using True assms ne by (simp add: Term_def)
  next
    case False
    then have "i < i + 1" "LastIndex ps + 1 < i + 1"
      using assms(2) unat_minus_one_less [OF False] log_ok_last(2) [OF assms(1)]
      by (auto simp: word_less_nat_alt unat_add_small [of _ 1, simplified])
    then have "checkRange i (i + 1) ps = Some (Some (ErrRangeHigh (i + 1)))"
      by (auto simp: checkRange_log_ok [OF assms(1)])
    then show ?thesis using assms ne False by (simp add: Term_def)
  qed
qed

lemma read_entries_window:
  assumes "log_ok P ps" "trunc ps < lo" "lo \<le> hi" "hi \<le> LastIndex ps + 1"
  shows "read_entries P (engines ps) lo hi =
    Inr (take (unat hi - unat lo) (drop (unat lo - unat (trunc ps)) (peer_ents P ps)))"
  using assms(2,3)
proof (induction "unat hi - unat lo" arbitrary: lo)
  case 0
  then have "lo = hi" by (auto simp: word_le_nat_alt intro: word_unat_eq_iff [THEN iffD2])
  then show ?case by (subst read_entries.simps) simp
next
  case (Suc n)
  have lt: "lo < hi" using Suc.hyps(2) by (simp add: word_less_nat_alt)
  have s: "unat (lo + 1) = Suc (unat lo)" using lt by (rule unat_Suc_word)
  have l1: "unat (LastIndex ps + 1) = Suc (unat (LastIndex ps))"
    using log_ok_last(2) [OF assms(1)] by (simp add: unat_add_small [of _ 1, simplified])
  have le: "lo \<le> LastIndex ps"
    using lt assms(4) l1 by (auto simp: word_less_nat_alt word_le_nat_alt)
  obtain e where e: "log_entry P ps lo = Some e" "eIndex e = lo"
    using log_entry_stored(1) [OF assms(1) Suc.prems(1) le] by auto
  let ?k = "unat lo - unat (trunc ps)"
  have k: "?k < length (peer_ents P ps)"
    using log_index(2) [OF assms(1) _ le] Suc.prems(1) by simp
  have ek: "peer_ents P ps ! ?k = e"
    using log_entry_stored(2) [OF assms(1) Suc.prems(1) le] e(1) by simp
  have ih: "read_entries P (engines ps) (lo + 1) hi =
      Inr (take (unat hi - unat (lo + 1)) (drop (unat (lo + 1) - unat (trunc ps)) (peer_ents P ps)))"
    using Suc s lt by (intro Suc.hyps(1)) (auto simp: word_less_nat_alt word_le_nat_alt)
  have sk: "unat (lo + 1) - unat (trunc ps) = Suc ?k"
    using s Suc.prems(1) by (simp add: word_less_nat_alt Suc_diff_le)
  have "unat hi - unat lo = Suc (unat hi - unat (lo + 1))" using Suc.hyps(2) s by simp
  then have "take (unat hi - unat lo) (drop ?k (peer_ents P ps)) =
      e # take (unat hi - unat (lo + 1)) (drop (Suc ?k) (peer_ents P ps))"
    using k ek by (simp flip: Cons_nth_drop_Suc)
  then show ?case
    using lt e ih sk by (subst read_entries.simps) (simp add: read_entry_stored)
qed

text \<open>The window \<open>[lo, hi)\<close> of the log.\<close>

definition window :: "'d pebble \<Rightarrow> u64 \<Rightarrow> u64 \<Rightarrow> 'd peerStorage \<Rightarrow> Entry list" where
  "window P lo hi ps = take (unat hi - unat lo) (drop (unat lo - unat (trunc ps)) (peer_ents P ps))"

lemma length_window:
  assumes "log_ok P ps" "trunc ps < lo" "lo \<le> hi" "hi \<le> LastIndex ps + 1"
  shows "length (window P lo hi ps) = unat hi - unat lo"
  using assms log_ok_last [OF assms(1)] unat_add_small [of "LastIndex ps" 1]
  by (simp add: window_def log_size_def word_less_nat_alt word_le_nat_alt)

lemma Entries_window:
  assumes "log_ok P ps" "trunc ps < lo" "lo < hi" "hi \<le> LastIndex ps + 1"
    "unat hi - unat lo < 2 ^ 63"
  shows "Entries P lo hi maxSize ps = Some (Inr (window P lo hi ps))"
proof -
  have cr: "checkRange lo hi ps = Some None"
    using assms by (auto simp: checkRange_log_ok [OF assms(1)])
  have "unat (hi - lo) = unat hi - unat lo" using assms(3) by (simp add: word_sub_unat)
  then have s: "sint (hi - lo) = int (unat hi - unat lo)"
    using assms(5) by (intro sint_small) simp_all
  then show ?thesis
    using assms cr length_window [of P ps lo hi] read_entries_window [of P ps lo hi]
    by (simp add: Entries_def Let_def window_def)
qed

lemma ms_Entries_window:
  assumes "refines P ps ms" "trunc ps < lo" "lo < hi" "hi \<le> LastIndex ps + 1"
  shows "ms_Entries lo hi maxSize ms = Some (Inr (limitSize (window P lo hi ps) (unat maxSize)))"
proof -
  have ok: "log_ok P ps" and e: "msEnts ms = peer_ents P ps" using assms(1) by (auto simp: refines_def)
  have u: "unat (lo - trunc ps) = unat lo - unat (trunc ps)"
    "unat (hi - trunc ps) = unat hi - unat (trunc ps)"
    using assms by (auto intro: word_sub_unat)
  have l1: "unat (LastIndex ps + 1) = Suc (unat (LastIndex ps))"
    using log_ok_last(2) [OF ok] by (simp add: unat_add_small [of _ 1, simplified])
  have n: "unat (trunc ps) < unat lo" "unat lo < unat hi" "unat hi \<le> Suc (unat (LastIndex ps))"
    using assms l1 by (simp_all add: word_less_nat_alt word_le_nat_alt)
  have b: "unat lo - unat (trunc ps) \<le> unat hi - unat (trunc ps)"
    "unat hi - unat (trunc ps) \<le> Suc (unat (LastIndex ps) - unat (trunc ps))"
    using n by linarith+
  have "\<not> lo \<le> trunc ps" "\<not> hi > LastIndex ps + 1" "log_size ps \<noteq> 0"
    using assms n by (auto simp: log_size_def)
  then show ?thesis
    using b n(1) by (simp add: ms_Entries_def Let_def e window_def u refines_offset [OF assms(1)]
        refines_lastIndex [OF assms(1)] log_size_def)
qed

end
