(* ===== verification/Log_Writes.thy ===== *)
theory Log_Writes
  imports Log_Refinement
begin

text \<open>
  The writes of the peer's storage: what they leave alone, and that appending the entries of
  a \<^verbatim>\<open>Ready\<close> batch is the memory storage's \<^verbatim>\<open>Append\<close>.
\<close>

section \<open>Writes to the meta database\<close>

lemma putMeta_effect:
  assumes "pebble_ok P" "healthy P"
  shows "fst (putMeta P key marshal msg ps) = None"
    "meta_map P (engines (snd (putMeta P key marshal msg ps))) =
       (meta_map P (engines ps))(key \<mapsto> marshal msg)"
  using WriteMeta_Put [OF assms, of key "marshal msg" True "engines ps"]
  by (auto simp: putMeta_def PutMeta_def split: prod.splits)

lemma deleteMeta_effect:
  assumes "pebble_ok P" "healthy P"
  shows "fst (deleteMeta P key ps) = None"
    "meta_map P (engines (snd (deleteMeta P key ps))) = (meta_map P (engines ps))(key := None)"
  using WriteMeta_Delete [OF assms, of key True "engines ps"]
  by (auto simp: deleteMeta_def DeleteMeta_def split: prod.splits)

text \<open>A step that changes nothing but meta data: the rest of the state, in one equation.\<close>

definition meta_only :: "'d peerStorage \<Rightarrow> 'd peerStorage \<Rightarrow> bool" where
  "meta_only ps ps' \<longleftrightarrow>
     (\<exists>m. ps' = ps\<lparr>engines := (engines ps)\<lparr>meta := m\<rparr>\<rparr>)"

lemma meta_only_refl [simp]: "meta_only ps ps"
  unfolding meta_only_def by (rule exI [of _ "meta (engines ps)"]) simp

lemma meta_only_trans: "meta_only ps qs \<Longrightarrow> meta_only qs rs \<Longrightarrow> meta_only ps rs"
  by (auto simp: meta_only_def)

lemma meta_only_fields:
  assumes "meta_only ps ps'"
  shows "kv (engines ps') = kv (engines ps)" "localState ps' = localState ps"
    "applyState ps' = applyState ps" "confState ps' = confState ps"
    "snapState ps' = snapState ps" "snapTriedCnt ps' = snapTriedCnt ps"
    "chans ps' = chans ps" "generating ps' = generating ps"
proof -
  obtain m where m: "ps' = ps\<lparr>engines := (engines ps)\<lparr>meta := m\<rparr>\<rparr>"
    using assms unfolding meta_only_def by blast
  show "kv (engines ps') = kv (engines ps)" "localState ps' = localState ps"
    "applyState ps' = applyState ps" "confState ps' = confState ps"
    "snapState ps' = snapState ps" "snapTriedCnt ps' = snapTriedCnt ps"
    "chans ps' = chans ps" "generating ps' = generating ps"
    by (simp_all add: m)
qed

lemma meta_only_localState:
  "meta_only ps ps' \<Longrightarrow> meta_only (ps\<lparr>localState := l\<rparr>) (ps'\<lparr>localState := l\<rparr>)"
proof -
  assume "meta_only ps ps'"
  then obtain m where "ps' = ps\<lparr>engines := (engines ps)\<lparr>meta := m\<rparr>\<rparr>"
    unfolding meta_only_def by blast
  then show ?thesis unfolding meta_only_def by (intro exI [of _ m]) simp
qed

lemma meta_only_putMeta [simp, frame]: "meta_only ps (snd (putMeta P key marshal msg ps))"
  by (auto simp: meta_only_def putMeta_def write_defs split: prod.splits)

lemma meta_only_deleteMeta [simp, frame]: "meta_only ps (snd (deleteMeta P key ps))"
  by (auto simp: meta_only_def deleteMeta_def write_defs split: prod.splits)

lemma meta_only_appendLogEntries [simp, frame]: "meta_only ps (snd (appendLogEntries P es ps))"
proof (induction es arbitrary: ps)
  case (Cons e es)
  obtain r ps1 where p: "putMeta P (RaftLogEntryKey (eIndex e)) marshal_Entry e ps = (r, ps1)"
    by (metis prod.exhaust)
  then have "meta_only ps ps1" by (metis meta_only_putMeta snd_conv)
  then show ?case using p Cons [of ps1] by (auto split: option.splits intro: meta_only_trans)
qed simp

lemma meta_only_deleteLogEntries [simp, frame]: "meta_only ps (snd (deleteLogEntries P es ps))"
proof (induction es arbitrary: ps)
  case (Cons e es)
  obtain r ps1 where p: "deleteMeta P (RaftLogEntryKey (eIndex e)) ps = (r, ps1)"
    by (metis prod.exhaust)
  then have "meta_only ps ps1" by (metis meta_only_deleteMeta snd_conv)
  then show ?case using p Cons [of ps1] by (auto split: option.splits intro: meta_only_trans)
qed simp

section \<open>Log entries\<close>

text \<open>The loops, when no write fails: the stored map after them.\<close>

lemma appendLogEntries_map:
  assumes "pebble_ok P" "healthy P"
  shows "fst (appendLogEntries P es ps) = None \<and>
    meta_map P (engines (snd (appendLogEntries P es ps))) =
       meta_map P (engines ps) ++
       map_of (rev (map (\<lambda>e. (RaftLogEntryKey (eIndex e), marshal_Entry e)) es))"
proof (induction es arbitrary: ps)
  case (Cons e es)
  obtain ps1 where p: "putMeta P (RaftLogEntryKey (eIndex e)) marshal_Entry e ps = (None, ps1)"
    using putMeta_effect(1) [OF assms] by (metis prod.collapse)
  then have "meta_map P (engines ps1) =
      (meta_map P (engines ps))(RaftLogEntryKey (eIndex e) \<mapsto> marshal_Entry e)"
    using putMeta_effect(2) [OF assms] by (metis snd_conv)
  then show ?case using p Cons [of ps1]
    by (simp add: fun_eq_iff map_add_def split: option.split)
qed simp

lemma deleteLogEntries_map:
  assumes "pebble_ok P" "healthy P"
  shows "fst (deleteLogEntries P es ps) = None \<and>
    meta_map P (engines (snd (deleteLogEntries P es ps))) =
       meta_map P (engines ps) |` (- (RaftLogEntryKey ` eIndex ` set es))"
proof (induction es arbitrary: ps)
  case (Cons e es)
  obtain ps1 where p: "deleteMeta P (RaftLogEntryKey (eIndex e)) ps = (None, ps1)"
    using deleteMeta_effect(1) [OF assms] by (metis prod.collapse)
  then have "meta_map P (engines ps1) = (meta_map P (engines ps))(RaftLogEntryKey (eIndex e) := None)"
    using deleteMeta_effect(2) [OF assms] by (metis snd_conv)
  then show ?case using p Cons [of ps1] by (auto simp: restrict_map_def fun_eq_iff)
qed (simp add: restrict_map_def)

text \<open>A log that is read back as \<open>xs\<close>.\<close>

lemma log_okI:
  assumes "asTruncatedState (applyState ps) \<noteq> None" "trunc ps \<le> LastIndex ps"
    "LastIndex ps \<noteq> - 1" "consecutive (trunc ps) xs" "length xs = Suc (log_size ps)"
    "xs ! 0 = dummy_entry ps" "eTerm (last xs) = lsLastTerm (localState ps)"
    "\<And>j. j < log_size ps \<Longrightarrow> log_entry P ps (trunc ps + word_of_nat (Suc j)) = Some (xs ! Suc j)"
  shows "log_ok P ps \<and> peer_ents P ps = xs"
proof -
  have e: "peer_ents P ps = xs"
    by (rule nth_equalityI)
      (use assms(5,6,8) in \<open>auto simp: peer_ents_def nth_Cons' gr0_conv_Suc simp del: of_nat_Suc\<close>)
  have "log_stored P ps"
    using assms(4,5,8) by (simp add: log_stored_def list_all_iff consecutive_def del: of_nat_Suc)
  with assms e show ?thesis by (simp add: log_ok_def)
qed

lemma log_entry_append:
  assumes "pebble_ok P" "healthy P" "consecutive i0 es" "list_all Entry_fits es"
    "unat i0 + length es < 2 ^ 64"
  shows "log_entry P (snd (appendLogEntries P es ps)) i =
    (if i0 \<le> i \<and> unat i - unat i0 < length es then Some (es ! (unat i - unat i0))
     else log_entry P ps i)"
proof -
  let ?kv = "rev (map (\<lambda>e. (RaftLogEntryKey (eIndex e), marshal_Entry e)) es)"
  have u: "j < length es \<Longrightarrow> unat (eIndex (es ! j)) = unat i0 + j" for j
    using assms(3,5) by (simp add: consecutive_def unat_add_small)
  have "inj_on (\<lambda>j. RaftLogEntryKey (eIndex (es ! j))) {..<length es}"
    by (rule inj_onI) (metis RaftLogEntryKey_inject add_left_cancel lessThan_iff u)
  then have "distinct (map (\<lambda>e. RaftLogEntryKey (eIndex e)) es)"
    by (auto simp: distinct_conv_nth inj_on_def)
  moreover have "map fst ?kv = rev (map (\<lambda>e. RaftLogEntryKey (eIndex e)) es)"
    by (simp add: rev_map o_def)
  ultimately have d: "distinct (map fst ?kv)" by (simp only: distinct_rev)
  have m: "meta_map P (engines (snd (appendLogEntries P es ps))) =
      meta_map P (engines ps) ++ map_of ?kv"
    using appendLogEntries_map [OF assms(1,2)] by blast
  show ?thesis
  proof (cases "i0 \<le> i \<and> unat i - unat i0 < length es")
    case True
    let ?j = "unat i - unat i0"
    have "eIndex (es ! ?j) = i"
      using True u [of ?j] by (simp add: word_unat_eq_iff word_le_nat_alt)
    then have "(RaftLogEntryKey i, marshal_Entry (es ! ?j)) \<in> set ?kv"
      using True by (auto intro!: image_eqI [of _ _ "es ! ?j"])
    then have "map_of ?kv (RaftLogEntryKey i) = Some (marshal_Entry (es ! ?j))"
      by (rule map_of_is_SomeI [OF d])
    moreover have "Entry_fits (es ! ?j)" using True assms(4) by (simp add: list_all_length)
    ultimately show ?thesis
      using True by (simp add: log_entry_def m unmarshal_marshal_Entry map_add_def)
  next
    case False
    have "RaftLogEntryKey i \<notin> fst ` set ?kv"
    proof
      assume "RaftLogEntryKey i \<in> fst ` set ?kv"
      then obtain j where "j < length es" "eIndex (es ! j) = i" by (auto simp: in_set_conv_nth)
      with u False show False by (auto simp: word_le_nat_alt)
    qed
    then have "map_of ?kv (RaftLogEntryKey i) = None" by (simp add: map_of_eq_None_iff)
    with False show ?thesis by (auto simp: log_entry_def m map_add_def)
  qed
qed

lemma log_entry_delete:
  assumes "pebble_ok P" "healthy P"
  shows "log_entry P (snd (deleteLogEntries P es ps)) i =
    (if i \<in> eIndex ` set es then None else log_entry P ps i)"
  using deleteLogEntries_map [OF assms, of es ps]
  by (auto simp: log_entry_def restrict_map_def)

lemma stale_entries_returns:
  "l \<noteq> - 1 \<Longrightarrow> \<exists>es. stale_entries i l = Some es \<and> eIndex ` set es = {i..l}"
proof (induction "Suc (unat l) - unat i" arbitrary: i)
  case 0
  then show ?case by (subst stale_entries.simps) (auto simp: word_le_nat_alt)
next
  case (Suc n)
  then have le: "i \<le> l" by (simp add: word_le_nat_alt)
  have s: "unat (i + 1) = Suc (unat i)"
    using unat_minus_one_less [OF Suc.prems] le
    by (simp add: word_le_nat_alt unat_add_small [of _ 1, simplified])
  have "n = Suc (unat l) - unat (i + 1)" using Suc.hyps(2) s by simp
  then obtain es where es: "stale_entries (i + 1) l = Some es" "eIndex ` set es = {i + 1..l}"
    using Suc.hyps(1) Suc.prems by blast
  have "{i..l} = insert i {i + 1..l}"
    using le s by (auto simp: word_le_nat_alt word_unat_eq_iff)
  with es le show ?case by (subst stale_entries.simps) auto
qed

lemma stale_entries_diverges: "stale_entries i (- 1) = None"
proof -
  have "l = - 1 \<longrightarrow> False" if "stale_entries i l = Some es" for i l es
    by (rule stale_entries.raw_induct [OF _ that]) (auto split: if_splits)
  then show ?thesis by (cases "stale_entries i (- 1)") auto
qed

section \<open>Appending a batch\<close>

text \<open>What raft promises of the entries of a batch: consecutive, no gap after the last entry
  of the log, and of a size that fits a Go slice.\<close>

definition ready_batch :: "Entry list \<Rightarrow> u64 \<Rightarrow> bool" where
  "ready_batch ents lasti \<longleftrightarrow>
     (ents \<noteq> [] \<longrightarrow>
       consecutive (eIndex (hd ents)) ents \<and> unat (eIndex (hd ents)) + length ents < 2 ^ 64 \<and>
       eIndex (hd ents) \<le> lasti + 1 \<and> list_all Entry_fits ents)"

abbreviation ready_ents :: "Entry list \<Rightarrow> 'd peerStorage \<Rightarrow> bool" where
  "ready_ents ents ps \<equiv> ready_batch ents (LastIndex ps)"

lemmas ready_ents_def = ready_batch_def

lemma trunc_cong: "applyState ps' = applyState ps \<Longrightarrow> trunc_state ps' = trunc_state ps"
  by (simp add: trunc_state_def)

text \<open>The state after the loops: \<open>es\<close> from index \<open>i0\<close> on, nothing behind the last of them.\<close>

lemma append_peer_ents:
  assumes ok: "log_ok P ps" and es: "es \<noteq> []" "consecutive i0 es"
    and i0: "trunc ps < i0" "i0 \<le> LastIndex ps + 1" "unat i0 + length es < 2 ^ 64"
    and st: "applyState ps' = applyState ps"
      "lsLastIndex (localState ps') = eIndex (last es)" "lsLastTerm (localState ps') = eTerm (last es)"
    and le: "\<And>i. trunc ps < i \<Longrightarrow> i \<le> eIndex (last es) \<Longrightarrow>
      log_entry P ps' i = (if i < i0 then log_entry P ps i else Some (es ! (unat i - unat i0)))"
  shows "log_ok P ps' \<and>
    peer_ents P ps' = take (unat i0 - unat (trunc ps)) (peer_ents P ps) @ es"
proof -
  let ?t = "unat (trunc ps)" and ?off = "unat i0 - unat (trunc ps)"
  have last: "eIndex (last es) = i0 + word_of_nat (length es - 1)"
    using es by (intro consecutive_last)
  have ul: "unat (eIndex (last es)) = unat i0 + length es - 1"
  proof -
    obtain k where "length es = Suc k" using es(1) by (cases es) auto
    with i0(3) show ?thesis by (simp add: last unat_add_small)
  qed
  have tr: "trunc ps' = trunc ps" "dummy_entry ps' = dummy_entry ps"
    using trunc_cong [OF st(1)] by (simp_all add: dummy_entry_def)
  have L: "LastIndex ps' = eIndex (last es)" using st(2) by (simp add: LastIndex_def)
  have off: "0 < ?off" "?off \<le> Suc (log_size ps)"
    using i0(1,2) log_ok_last [OF ok] unat_add_small [of "LastIndex ps" 1]
    by (auto simp: word_less_nat_alt word_le_nat_alt log_size_def)
  have n: "Suc (log_size ps') = ?off + length es"
    using i0(1) es(1) by (simp add: log_size_def L tr ul word_less_nat_alt Suc_diff_le)
  show ?thesis
  proof (rule log_okI)
    show "asTruncatedState (applyState ps') \<noteq> None" using ok st(1) by (simp add: log_ok_def)
    show "trunc ps' \<le> LastIndex ps'"
      using i0(1) ul by (simp add: tr L word_le_nat_alt word_less_nat_alt)
    show "LastIndex ps' \<noteq> - 1"
    proof
      assume "LastIndex ps' = - 1"
      then have "unat (eIndex (last es)) = 2 ^ 64 - 1"
        by (simp add: L unsigned_minus_1_eq_mask mask_eq_exp_minus_1)
      with ul i0(3) show False by simp
    qed
    have "i0 = trunc ps + word_of_nat ?off"
      using i0(1) by (simp add: word_unat_eq_iff unat_add_small word_less_nat_alt)
    then show "consecutive (trunc ps') (take ?off (peer_ents P ps) @ es)"
      using es(2) off peer_ents_consecutive [OF ok]
      by (simp add: tr consecutive_append consecutive_take)
    show "length (take ?off (peer_ents P ps) @ es) = Suc (log_size ps')" using off n by simp
    show "(take ?off (peer_ents P ps) @ es) ! 0 = dummy_entry ps'"
      using off by (simp add: nth_append tr peer_ents_nth)
    show "eTerm (last (take ?off (peer_ents P ps) @ es)) = lsLastTerm (localState ps')"
      using es(1) st(3) by simp
    fix j assume j: "j < log_size ps'"
    let ?i = "trunc ps + word_of_nat (Suc j)"
    have u: "unat ?i = ?t + Suc j"
      using j n i0 by (intro unat_add_small) (simp add: word_less_nat_alt)
    have b: "trunc ps < ?i" "?i \<le> eIndex (last es)"
      using u ul j n off by (auto simp: word_less_nat_alt word_le_nat_alt simp del: of_nat_Suc)
    have lt: "?i < i0 \<longleftrightarrow> Suc j < ?off"
      using u i0(1) by (auto simp: word_less_nat_alt simp del: of_nat_Suc)
    show "log_entry P ps' (trunc ps' + word_of_nat (Suc j)) =
        Some ((take ?off (peer_ents P ps) @ es) ! Suc j)"
    proof (cases "Suc j < ?off")
      case True
      then have "Suc j < Suc (log_size ps)" using off by simp
      moreover have "?i \<le> LastIndex ps"
        using True u off log_ok_last [OF ok]
        by (simp add: word_le_nat_alt log_size_def del: of_nat_Suc)
      then obtain e where "log_entry P ps ?i = Some e" using log_entry_stored(1) [OF ok b(1)] by auto
      ultimately show ?thesis
        using True lt le [OF b] by (simp add: tr nth_append peer_ents_nth del: of_nat_Suc)
    next
      case False
      then show ?thesis
        using lt le [OF b] u off i0(1)
        by (simp add: tr nth_append word_less_nat_alt add.commute del: of_nat_Suc)
    qed
  qed
qed

lemma ready_ents_last:
  assumes "ready_ents ents ps" "ents \<noteq> []"
  shows "unat (eIndex (last ents)) = unat (eIndex (hd ents)) + length ents - 1"
proof -
  obtain k where "length ents = Suc k" using assms(2) by (cases ents) auto
  then show ?thesis
    using assms consecutive_last [of "eIndex (hd ents)" ents]
    by (simp add: ready_ents_def unat_add_small)
qed

text \<open>The part of the batch behind the truncated index.\<close>

lemma drop_compacted_ready:
  assumes "ready_ents ents ps" "ents \<noteq> []" "unat t < unat (eIndex (last ents))" "t \<noteq> - 1"
  shows "\<exists>es. drop_compacted (t + 1) t ents = Some es \<and>
    es = drop (Suc (unat t) - unat (eIndex (hd ents))) ents \<and> es \<noteq> [] \<and> last es = last ents \<and>
    consecutive (eIndex (hd es)) es \<and> list_all Entry_fits es \<and>
    unat (eIndex (hd es)) + length es = unat (eIndex (hd ents)) + length ents \<and>
    unat (eIndex (hd es)) = max (Suc (unat t)) (unat (eIndex (hd ents)))"
proof -
  let ?e0 = "eIndex (hd ents)" and ?k = "Suc (unat t) - unat (eIndex (hd ents))"
  have s: "unat (t + 1) = Suc (unat t)"
    using unat_minus_one_less [OF assms(4)] by (simp add: unat_add_small [of _ 1, simplified])
  have ul: "unat (eIndex (last ents)) = unat ?e0 + length ents - 1"
    by (rule ready_ents_last [OF assms(1,2)])
  have c: "consecutive ?e0 ents" "unat ?e0 + length ents < 2 ^ 64" "list_all Entry_fits ents"
    using assms(1,2) by (auto simp: ready_ents_def)
  have "0 < length ents" using assms(2) by simp
  then have k: "?k < length ents" using ul assms(3) by arith
  have dc: "drop_compacted (t + 1) t ents = Some (drop ?k ents)"
  proof (cases "?e0 < t + 1")
    case True
    then have le: "?e0 \<le> t" using s by (simp add: word_less_nat_alt word_le_nat_alt)
    have "unat (t - ?e0 + 1) = ?k"
      using word_sub_unat [OF le] unat_minus_one_less [OF assms(4)] le
      by (simp add: unat_add_small [of _ 1, simplified] word_le_nat_alt Suc_diff_le)
    with True k show ?thesis by (simp add: drop_compacted_def Let_def)
  next
    case False
    with s have "?k = 0" by (simp add: word_less_nat_alt)
    with False show ?thesis by (simp add: drop_compacted_def)
  qed
  let ?es = "drop ?k ents"
  have ne: "?es \<noteq> []" using k by simp
  have cs: "consecutive (?e0 + word_of_nat ?k) ?es" using c(1) k by (intro consecutive_drop) auto
  then have h: "eIndex (hd ?es) = ?e0 + word_of_nat ?k" using ne by (rule consecutive_hd)
  have uh: "unat (eIndex (hd ?es)) = unat ?e0 + ?k"
    using k c(2) by (simp only: h) (intro unat_add_small, simp)
  have "list_all Entry_fits ?es" using c(3) by (metis append_take_drop_id list_all_append)
  moreover have "unat (eIndex (hd ?es)) + length ?es = unat ?e0 + length ents"
    using uh k by simp
  moreover have "unat (eIndex (hd ?es)) = max (Suc (unat t)) (unat ?e0)" using uh by simp
  moreover have "last ?es = last ents" using k by (simp add: last_drop)
  ultimately show ?thesis using dc ne cs h by metis
qed

lemma ms_Append_ready:
  assumes "refines P ps ms" "ready_ents ents ps" "ents \<noteq> []"
    "unat (trunc ps) < unat (eIndex (last ents))"
    and es: "es = drop (Suc (unat (trunc ps)) - unat (eIndex (hd ents))) ents" "es \<noteq> []"
      "unat (eIndex (hd es)) = max (Suc (unat (trunc ps))) (unat (eIndex (hd ents)))"
  shows "ms_Append ents ms = Some (ms\<lparr>msEnts :=
    take (unat (eIndex (hd es)) - unat (trunc ps)) (peer_ents P ps) @ es\<rparr>)"
proof -
  have ok: "log_ok P ps" and e: "msEnts ms = peer_ents P ps" using assms(1) by (auto simp: refines_def)
  let ?e0 = "eIndex (hd ents)" and ?t = "trunc ps"
  have s: "unat (?t + 1) = Suc (unat ?t)"
    using log_ok_last [OF ok] by (simp add: unat_add_small [of _ 1, simplified])
  have lst: "?e0 + word_of_nat (length ents) - 1 = eIndex (last ents)"
    using assms(2,3) consecutive_last [of ?e0 ents]
    by (cases ents) (auto simp: ready_ents_def algebra_simps)
  have "\<not> eIndex (last ents) < ?t + 1" using assms(4) s by (simp add: word_less_nat_alt)
  moreover have "(if ?t + 1 > ?e0
      then (let k = unat (?t + 1 - ?e0) in if k \<le> length ents then Some (drop k ents) else panic)
      else Some ents) = Some es"
  proof (cases "?t + 1 > ?e0")
    case True
    have "unat (?t + 1 - ?e0) = Suc (unat ?t) - unat ?e0"
      using True s by (simp add: word_sub_unat)
    with True es(1,2) show ?thesis by (auto simp: Let_def)
  next
    case False
    with es(1) s show ?thesis by (simp add: word_less_nat_alt)
  qed
  moreover have "unat (eIndex (hd es) - ?t) = unat (eIndex (hd es)) - unat ?t"
    using es(3) by (intro word_sub_unat) (simp add: word_le_nat_alt)
  moreover have "unat (eIndex (hd es)) - unat ?t \<le> Suc (log_size ps)"
    using es(3) assms(2,3) log_ok_last [OF ok] unat_add_small [of "LastIndex ps" 1]
    by (auto simp: ready_ents_def log_size_def word_le_nat_alt)
  ultimately show ?thesis
    using assms(3) lst
    by (auto simp: ms_Append_def Let_def ms_firstIndex_def refines_offset [OF assms(1)] e
        simp del: of_nat_Suc)
qed

text \<open>The body of \<open>truncateAndAppend\<close> on the entries that are left, and its effect.\<close>

definition append_body :: "'d pebble \<Rightarrow> Entry list \<Rightarrow> Entry \<Rightarrow> 'd peerStorage \<Rightarrow> 'd peerStorage run" where
  "append_body P es lastEnt ps =
     do {
       let ps1 = snd (appendLogEntries P es ps);
       let lasti = LastIndex ps1;
       deleted \<leftarrow> (if lasti > eIndex lastEnt then stale_entries (eIndex lastEnt + 1) lasti
                   else Some []);
       let ps2 = (if lasti > eIndex lastEnt then snd (deleteLogEntries P deleted ps1) else ps1);
       Some (ps2\<lparr>localState := (localState ps2)\<lparr>lsLastTerm := eTerm lastEnt,
               lsLastIndex := eIndex lastEnt\<rparr>\<rparr>)
     }"

lemma truncateAndAppend_unfold:
  "log_ok P ps \<Longrightarrow> ents \<noteq> [] \<Longrightarrow> truncateAndAppend P ents ps =
     (if trunc ps + 1 > eIndex (last ents) then Some ps
      else Option.bind (drop_compacted (trunc ps + 1) (trunc ps) ents)
             (\<lambda>es. append_body P es (last ents) ps))"
  by (simp add: truncateAndAppend_def append_body_def FirstIndex_def Let_def)

lemma append_body_effect:
  assumes "pebble_ok P" "healthy P" "LastIndex ps \<noteq> - 1"
    "consecutive i0 es" "list_all Entry_fits es" "unat i0 + length es < 2 ^ 64"
  shows "\<exists>ps'. append_body P es lastEnt ps = Some ps' \<and>
    meta_only (ps\<lparr>localState := (localState ps)\<lparr>lsLastTerm := eTerm lastEnt,
      lsLastIndex := eIndex lastEnt\<rparr>\<rparr>) ps' \<and>
    (\<forall>i. i \<le> eIndex lastEnt \<longrightarrow> log_entry P ps' i =
      (if i0 \<le> i \<and> unat i - unat i0 < length es then Some (es ! (unat i - unat i0))
       else log_entry P ps i))"
proof -
  let ?ps1 = "snd (appendLogEntries P es ps)"
  have m1: "meta_only ps ?ps1" by simp
  then have L: "LastIndex ?ps1 = LastIndex ps" by (simp add: LastIndex_def meta_only_fields(2) [OF m1])
  obtain sl where sl: "stale_entries (eIndex lastEnt + 1) (LastIndex ps) = Some sl"
    "eIndex ` set sl = {eIndex lastEnt + 1..LastIndex ps}"
    using stale_entries_returns [OF assms(3)] by blast
  obtain dl where dl: "(if LastIndex ?ps1 > eIndex lastEnt
      then stale_entries (eIndex lastEnt + 1) (LastIndex ?ps1) else Some []) = Some dl"
    "LastIndex ?ps1 > eIndex lastEnt \<Longrightarrow> eIndex ` set dl = {eIndex lastEnt + 1..LastIndex ps}"
    using sl by (cases "eIndex lastEnt < LastIndex ps") (simp_all add: L)
  let ?ps2 = "if LastIndex ?ps1 > eIndex lastEnt then snd (deleteLogEntries P dl ?ps1) else ?ps1"
  have m2: "meta_only ps ?ps2" using meta_only_trans [OF m1] by auto
  let ?ps' = "?ps2\<lparr>localState := (localState ?ps2)\<lparr>lsLastTerm := eTerm lastEnt,
      lsLastIndex := eIndex lastEnt\<rparr>\<rparr>"
  have a: "append_body P es lastEnt ps = Some ?ps'"
    using dl(1) by (simp add: append_body_def Let_def del: append_take_drop_id)
  have b: "meta_only (ps\<lparr>localState := (localState ps)\<lparr>lsLastTerm := eTerm lastEnt,
      lsLastIndex := eIndex lastEnt\<rparr>\<rparr>) ?ps'"
    using meta_only_localState [OF m2] meta_only_fields(2) [OF m2] by simp
  have c: "log_entry P ?ps' i = log_entry P ?ps1 i" if "i \<le> eIndex lastEnt" for i
  proof -
    have "i \<notin> {eIndex lastEnt + 1..LastIndex ps}" if "LastIndex ps > eIndex lastEnt"
      using \<open>i \<le> eIndex lastEnt\<close> unat_Suc_word [OF that] by (auto simp: word_le_nat_alt)
    then have "log_entry P ?ps2 i = log_entry P ?ps1 i"
      using dl(2) by (auto simp: log_entry_delete [OF assms(1,2)] L)
    then show ?thesis by (simp add: log_entry_def)
  qed
  show ?thesis
    by (intro exI [of _ ?ps'] conjI allI impI)
      (rule a b | simp only: c log_entry_append [OF assms(1,2,4-6)])+
qed

theorem truncateAndAppend_refines:
  assumes P: "pebble_ok P" "healthy P" and ref: "refines P ps ms" and re: "ready_ents ents ps"
  shows "\<exists>ps' ms'. truncateAndAppend P ents ps = Some ps' \<and> ms_Append ents ms = Some ms' \<and>
    refines P ps' ms' \<and>
    (\<exists>t l. meta_only (ps\<lparr>localState := (localState ps)\<lparr>lsLastTerm := t, lsLastIndex := l\<rparr>\<rparr>) ps')"
proof -
  have ok: "log_ok P ps" using ref by (simp add: refines_def)
  have same: "\<exists>t l. meta_only (ps\<lparr>localState := (localState ps)\<lparr>lsLastTerm := t, lsLastIndex := l\<rparr>\<rparr>) ps"
    by (rule exI [of _ "lsLastTerm (localState ps)"], rule exI [of _ "lsLastIndex (localState ps)"]) simp
  consider "ents = []" | "ents \<noteq> []" "eIndex (last ents) < trunc ps + 1"
    | "ents \<noteq> []" "\<not> eIndex (last ents) < trunc ps + 1" by blast
  then show ?thesis
  proof cases
    case 1
    then show ?thesis using ref same by (auto simp: truncateAndAppend_def ms_Append_def)
  next
    case 2
    have "eIndex (hd ents) + word_of_nat (length ents) - 1 = eIndex (last ents)"
      using re 2(1) consecutive_last [of "eIndex (hd ents)" ents]
      by (cases ents) (auto simp: ready_ents_def algebra_simps)
    then have "ms_Append ents ms = Some ms"
      using 2 by (simp add: ms_Append_def Let_def ms_firstIndex_def refines_offset [OF ref])
    then show ?thesis using 2 ref same by (simp add: truncateAndAppend_unfold [OF ok])
  next
    case 3
    have tm: "trunc ps \<noteq> - 1" using log_ok_last [OF ok]
      by (auto simp: unsigned_minus_1_eq_mask mask_eq_exp_minus_1)
    have gt: "unat (trunc ps) < unat (eIndex (last ents))"
      using 3(2) unat_minus_one_less [OF tm]
      by (simp add: word_less_nat_alt unat_add_small [of _ 1, simplified])
    obtain es where es: "drop_compacted (trunc ps + 1) (trunc ps) ents = Some es"
      "es = drop (Suc (unat (trunc ps)) - unat (eIndex (hd ents))) ents" "es \<noteq> []"
      "last es = last ents" "consecutive (eIndex (hd es)) es" "list_all Entry_fits es"
      "unat (eIndex (hd es)) + length es = unat (eIndex (hd ents)) + length ents"
      "unat (eIndex (hd es)) = max (Suc (unat (trunc ps))) (unat (eIndex (hd ents)))"
      using drop_compacted_ready [OF re 3(1) gt tm] by auto
    have sz: "unat (eIndex (hd es)) + length es < 2 ^ 64"
      using es(7) re 3(1) by (simp add: ready_ents_def)
    note ms' = ms_Append_ready [OF ref re 3(1) gt es(2,3,8)]
    have ln: "LastIndex ps \<noteq> - 1" using ok by (simp add: log_ok_def)
    obtain ps' where b: "append_body P es (last ents) ps = Some ps'"
      and m: "meta_only (ps\<lparr>localState := (localState ps)\<lparr>lsLastTerm := eTerm (last ents),
        lsLastIndex := eIndex (last ents)\<rparr>\<rparr>) ps'"
      and le: "\<And>i. i \<le> eIndex (last ents) \<Longrightarrow> log_entry P ps' i =
        (if eIndex (hd es) \<le> i \<and> unat i - unat (eIndex (hd es)) < length es
         then Some (es ! (unat i - unat (eIndex (hd es)))) else log_entry P ps i)"
      using append_body_effect [OF P ln es(5,6) sz, of "last ents"] by blast
    have ul: "unat (eIndex (last es)) = unat (eIndex (hd es)) + length es - 1"
      using ready_ents_last [OF re 3(1)] es(4,7) by simp
    have "log_ok P ps' \<and> peer_ents P ps' =
        take (unat (eIndex (hd es)) - unat (trunc ps)) (peer_ents P ps) @ es"
    proof (rule append_peer_ents [OF ok es(3,5) _ _ sz])
      show "trunc ps < eIndex (hd es)" using es(8) by (simp add: word_less_nat_alt)
      show "eIndex (hd es) \<le> LastIndex ps + 1"
        using es(8) re 3(1) log_ok_last [OF ok] unat_add_small [of "LastIndex ps" 1]
        by (simp add: ready_ents_def word_le_nat_alt)
      show "applyState ps' = applyState ps" using meta_only_fields(3) [OF m] by simp
      show "lsLastIndex (localState ps') = eIndex (last es)"
        "lsLastTerm (localState ps') = eTerm (last es)"
        using meta_only_fields(2) [OF m] es(4) by simp_all
      fix i assume i: "trunc ps < i" "i \<le> eIndex (last es)"
      then have "\<not> i < eIndex (hd es) \<Longrightarrow> unat i - unat (eIndex (hd es)) < length es"
        using ul es(3) by (cases es) (simp_all add: word_less_nat_alt word_le_nat_alt del: last.simps)
      then show "log_entry P ps' i =
          (if i < eIndex (hd es) then log_entry P ps i
           else Some (es ! (unat i - unat (eIndex (hd es)))))"
        using le [of i] i(2) es(4) by auto
    qed
    then show ?thesis
      using 3 b m ms' es(1) by (auto simp: truncateAndAppend_unfold [OF ok] refines_def)
  qed
qed

section \<open>The two ways out of the invariant\<close>

text \<open>With the greatest index as the last one, removing the stale entries does not end.\<close>

lemma truncateAndAppend_diverges:
  assumes "ents \<noteq> []" "LastIndex s = - 1" "eIndex (last ents) \<noteq> - 1"
    and "truncateIndex s = Some t" "t + 1 \<le> eIndex (last ents)"
  shows "truncateAndAppend P ents s = None"
proof -
  have L: "LastIndex (snd (appendLogEntries P es s)) = - 1" for es
    using meta_only_fields(2) [of s "snd (appendLogEntries P es s)"] assms(2)
    by (simp add: LastIndex_def)
  have "eIndex (last ents) < - 1" using assms(3) by (simp add: order_less_le)
  then show ?thesis
    using assms L stale_entries_diverges by (auto simp: truncateAndAppend_def FirstIndex_def Let_def not_less)
qed

text \<open>A failing write is dropped: the indexes move on although nothing is stored.\<close>

lemma truncateAndAppend_drops_errors:
  assumes "\<And>k v b d. pb_set P k v b d = (Some er, d)"
    and "truncateIndex s = Some t" "t + 1 \<le> eIndex ent" "LastIndex s \<le> eIndex ent"
  shows "truncateAndAppend P [ent] s =
    Some (s\<lparr>localState := (localState s)\<lparr>lsLastTerm := eTerm ent, lsLastIndex := eIndex ent\<rparr>\<rparr>)"
proof -
  have "appendLogEntries P [ent] s = (Some er, s)"
    by (simp add: putMeta_def PutMeta_def WriteMeta_def storage_set_def assms(1))
  moreover have "\<not> eIndex ent < t + 1" "\<not> eIndex ent < LastIndex s"
    using assms(3,4) by (simp_all add: not_less)
  ultimately show ?thesis
    using assms(2)
    by (simp add: truncateAndAppend_def FirstIndex_def drop_compacted_def Let_def
        del: appendLogEntries.simps)
qed

end
