(* ===== verification/Ready_Save.thy ===== *)
theory Ready_Save
  imports Log_Writes
begin

text \<open>
  Saving a whole \<^verbatim>\<open>Ready\<close> batch: a received snapshot, the new entries, the hard state. The
  batch is saved as the library's memory storage would, every state is on disk afterwards, and
  a peer storage opened on the same databases carries on from there.
\<close>

section \<open>Installing a snapshot\<close>

definition pair_map :: "Pair list \<Rightarrow> bytes \<Rightarrow> bytes option" where
  "pair_map ps = map_of (rev (map (\<lambda>p. (Key p, Val p)) ps))"

lemma write_pairs_kv:
  assumes "pebble_ok P" "healthy P"
  shows "kv_map P (write_pairs P ps e) = kv_map P e ++ pair_map ps"
proof (induction ps arbitrary: e)
  case (Cons p ps)
  show ?case
    using Cons [of "snd (WriteKV P (PutData (Key p) (Val p) True) e)"] WriteKV_Put(2) [OF assms]
    by (simp add: PutData_def pair_map_def fun_eq_iff map_add_def split: option.split)
qed (simp add: pair_map_def)

lemma write_pairs_meta [simp, frame]: "meta (write_pairs P ps e) = meta e"
  by (induction ps arbitrary: e) simp_all

definition snapshot_state :: "Snapshot \<Rightarrow> RaftApplyState" where
  "snapshot_state s =
     \<lparr>asApplyIndex = smIndex (snMetadata s),
      asTruncatedState = Some \<lparr>tsIndex = smIndex (snMetadata s), tsTerm = smTerm (snMetadata s)\<rparr>\<rparr>"

lemma writeState_effect:
  assumes "pebble_ok P" "healthy P"
  shows "meta_map P (engines (snd (writeApplyState P a ps))) =
      (meta_map P (engines ps))(RaftApplyStateKey \<mapsto> marshal_ApplyState a)"
    "meta_map P (engines (snd (writeConfState P c ps))) =
      (meta_map P (engines ps))(RaftConfStateKey \<mapsto> marshal_ConfState c)"
    "meta_map P (engines (snd (writeLocalState P l ps))) =
      (meta_map P (engines ps))(RaftLocalStateKey \<mapsto> marshal_LocalState l)"
    "fst (writeApplyState P a ps) = None" "fst (writeConfState P c ps) = None"
    "fst (writeLocalState P l ps) = None"
  by (simp_all add: writeApplyState_def writeConfState_def writeLocalState_def
      putMeta_effect [OF assms])

lemma writeState_frame [simp, frame]:
  "meta_only ps (snd (writeApplyState P a ps))" "meta_only ps (snd (writeConfState P c ps))"
  "meta_only ps (snd (writeLocalState P l ps))"
  by (simp_all add: writeApplyState_def writeConfState_def writeLocalState_def)

lemmas writeState_fields [simp] =
  writeState_frame(1) [THEN meta_only_fields(1)] writeState_frame(1) [THEN meta_only_fields(2)]
  writeState_frame(1) [THEN meta_only_fields(3)] writeState_frame(1) [THEN meta_only_fields(4)]
  writeState_frame(1) [THEN meta_only_fields(5)]
  writeState_frame(2) [THEN meta_only_fields(1)] writeState_frame(2) [THEN meta_only_fields(2)]
  writeState_frame(2) [THEN meta_only_fields(3)] writeState_frame(2) [THEN meta_only_fields(4)]
  writeState_frame(2) [THEN meta_only_fields(5)]
  writeState_frame(3) [THEN meta_only_fields(1)] writeState_frame(3) [THEN meta_only_fields(2)]
  writeState_frame(3) [THEN meta_only_fields(3)] writeState_frame(3) [THEN meta_only_fields(4)]
  writeState_frame(3) [THEN meta_only_fields(5)]

lemma truncated_update:
  "(t :: RaftTruncatedState)\<lparr>tsIndex := i, tsTerm := u\<rparr> = \<lparr>tsIndex = i, tsTerm = u\<rparr>"
  by (cases t) simp

lemma applySnapshot_effect:
  assumes P: "pebble_ok P" "healthy P"
    and "asTruncatedState (applyState ps) \<noteq> None" "Decode spare (slice (snData s)) = Some pairs"
  shows "\<exists>ps'. applySnapshot P spare s ps = Some ps' \<and>
    localState ps' = (localState ps)\<lparr>lsLastIndex := smIndex (snMetadata s),
      lsLastTerm := smTerm (snMetadata s)\<rparr> \<and>
    applyState ps' = snapshot_state s \<and> confState ps' = smConfState (snMetadata s) \<and>
    snapState ps' = (snapState ps)\<lparr>StateType := SnapshotApplying\<rparr> \<and>
    kv_map P (engines ps') = kv_map P (engines ps) ++ pair_map pairs \<and>
    meta_map P (engines ps') = (meta_map P (engines ps))
      (RaftApplyStateKey \<mapsto> marshal_ApplyState (snapshot_state s),
       RaftConfStateKey \<mapsto> marshal_ConfState (smConfState (snMetadata s)))"
  using assms(3,4)
  by (auto simp: applySnapshot_def Let_def write_pairs_kv [OF P] writeState_effect [OF P]
      snapshot_state_def truncated_update)

text \<open>The log after an installed snapshot: the dummy entry alone.\<close>

lemma snapshot_log:
  assumes "applyState ps = snapshot_state s" "LastIndex ps = smIndex (snMetadata s)"
    "lsLastTerm (localState ps) = smTerm (snMetadata s)" "smIndex (snMetadata s) \<noteq> - 1"
  shows "log_ok P ps \<and> peer_ents P ps =
    [zero_Entry\<lparr>eTerm := smTerm (snMetadata s), eIndex := smIndex (snMetadata s)\<rparr>]"
proof -
  have ts: "trunc_state ps = \<lparr>tsIndex = smIndex (snMetadata s), tsTerm = smTerm (snMetadata s)\<rparr>"
    using assms(1) by (simp add: trunc_state_def snapshot_state_def)
  show ?thesis
    by (rule log_okI)
      (use assms ts in \<open>simp_all add: snapshot_state_def log_size_def dummy_entry_def consecutive_Cons\<close>)
qed

section \<open>What is on disk\<close>

text \<open>Loading the states from the databases gives the ones in memory.\<close>

definition persisted :: "'d pebble \<Rightarrow> 'd peerStorage \<Rightarrow> bool" where
  "persisted P ps \<longleftrightarrow>
     InitRaftLocalState P (engines ps) = Some (localState ps) \<and>
     InitRaftApplyState P (engines ps) = Some (applyState ps) \<and>
     InitRaftConfState P (engines ps) = Some (confState ps)"

lemma local_state_written:
  "meta_map P e RaftLocalStateKey = Some (marshal_LocalState s) \<Longrightarrow> InitRaftLocalState P e = Some s"
  by (simp add: state_loads get_state_def ReadMeta_present unmarshal_marshal_LocalState)

lemma apply_state_written:
  "meta_map P e RaftApplyStateKey = Some (marshal_ApplyState s) \<Longrightarrow> InitRaftApplyState P e = Some s"
  by (simp add: state_loads get_state_def ReadMeta_present unmarshal_marshal_ApplyState)

lemma conf_state_written:
  "meta_map P e RaftConfStateKey = Some (marshal_ConfState s) \<Longrightarrow> InitRaftConfState P e = Some s"
  by (simp add: state_loads get_state_def ReadMeta_present unmarshal_marshal_ConfState)

text \<open>A load depends on the key's entry only.\<close>

lemma get_state_cong:
  "healthy P \<Longrightarrow> meta_map P e key = meta_map P e' key \<Longrightarrow>
   get_state P key u d e = get_state P key u d e'"
  by (simp add: get_state_def ReadMeta_healthy)

lemma Init_cong:
  "healthy P \<Longrightarrow> meta_map P e RaftLocalStateKey = meta_map P e' RaftLocalStateKey \<Longrightarrow>
   InitRaftLocalState P e = InitRaftLocalState P e'"
  "healthy P \<Longrightarrow> meta_map P e RaftApplyStateKey = meta_map P e' RaftApplyStateKey \<Longrightarrow>
   InitRaftApplyState P e = InitRaftApplyState P e'"
  "healthy P \<Longrightarrow> meta_map P e RaftConfStateKey = meta_map P e' RaftConfStateKey \<Longrightarrow>
   InitRaftConfState P e = InitRaftConfState P e'"
  by (simp_all add: state_loads get_state_cong [of P e _ e'])

text \<open>A peer storage reopened on the databases of a persisted one.\<close>

definition reopened :: "'d peerStorage \<Rightarrow> 'd peerStorage" where
  "reopened ps = ps\<lparr>snapState := \<lparr>StateType = SnapshotRelaxed, Receiver = None\<rparr>,
     snapTriedCnt := 0, chans := [], generating := []\<rparr>"

lemma newPeerStorage_persisted:
  "persisted P ps \<Longrightarrow> newPeerStorage P (engines ps) = Some (reopened ps)"
  by (cases ps) (simp add: persisted_def newPeerStorage_def reopened_def)

lemma reopened_log [simp]:
  "peer_ents P (reopened ps) = peer_ents P ps" "log_ok P (reopened ps) = log_ok P ps"
  "persisted P (reopened ps) = persisted P ps" "LastIndex (reopened ps) = LastIndex ps"
  by (simp_all add: reopened_def peer_ents_def log_ok_def log_stored_def log_size_def LastIndex_def
      log_entry_def dummy_entry_def trunc_state_def persisted_def)

lemma reopened_refines: "refines P ps ms \<Longrightarrow> refines P (reopened ps) ms"
  by (simp add: refines_def)

text \<open>The very first start, on empty databases.\<close>

lemma newPeerStorage_empty:
  assumes "healthy P" "meta_map P e = Map.empty"
  shows "\<exists>ps. newPeerStorage P e = Some ps \<and> engines ps = e \<and> persisted P ps \<and>
    refines P ps NewMemoryStorage \<and> lsHardState (localState ps) = Some zero_HardState \<and>
    isEmptyConfState (confState ps) \<and> AppliedIndex ps = 0"
proof -
  have g: "get_state P key u d e = Inr d" for key and u :: "bytes \<Rightarrow> 'm option" and d
    using assms by (intro get_state_missing) simp_all
  let ?ps = "\<lparr>engines = e, localState = default_LocalState, applyState = default_ApplyState,
      confState = zero_ConfState, snapState = \<lparr>StateType = SnapshotRelaxed, Receiver = None\<rparr>,
      snapTriedCnt = 0, chans = [], generating = []\<rparr>"
  have "newPeerStorage P e = Some ?ps"
    by (simp add: newPeerStorage_def state_loads g)
  moreover have "persisted P ?ps" by (simp add: persisted_def state_loads g)
  moreover have "log_ok P ?ps \<and> peer_ents P ?ps = [zero_Entry]"
    by (rule log_okI)
      (simp_all add: default_ApplyState_def default_LocalState_def LastIndex_def trunc_state_def
        zero_LocalState_def zero_TruncatedState_def log_size_def dummy_entry_def zero_Entry_def
        consecutive_Cons)
  ultimately show ?thesis
    by (simp add: refines_def NewMemoryStorage_def default_LocalState_def isEmptyConfState_def
        zero_ConfState_def AppliedIndex_def default_ApplyState_def zero_ApplyState_def)
qed

section \<open>Saving a batch\<close>

text \<open>The memory storage's counterpart, as its documentation has an application use it.\<close>

definition ms_save :: "Ready \<Rightarrow> MemoryStorage \<Rightarrow> MemoryStorage run" where
  "ms_save rd ms =
     do {
       let ms1 = (if \<not> IsEmptySnap (rdSnapshot rd) then snd (ms_ApplySnapshot (rdSnapshot rd) ms)
                  else ms);
       ms2 \<leftarrow> ms_Append (rdEntries rd) ms1;
       Some (if \<not> IsEmptyHardState (rdHardState rd) then ms_SetHardState (rdHardState rd) ms2
             else ms2)
     }"

text \<open>What raft promises of a batch: a snapshot is newer than the one before, its data is a
  sequence of pairs, and the entries continue the log, or the snapshot.\<close>

definition ready_ok :: "bytes \<Rightarrow> Ready \<Rightarrow> 'd peerStorage \<Rightarrow> MemoryStorage \<Rightarrow> bool" where
  "ready_ok spare rd ps ms \<longleftrightarrow>
     (if IsEmptySnap (rdSnapshot rd) then ready_batch (rdEntries rd) (LastIndex ps)
      else smIndex (snMetadata (rdSnapshot rd)) \<noteq> - 1 \<and>
        smIndex (snMetadata (msSnapshot ms)) < smIndex (snMetadata (rdSnapshot rd)) \<and>
        Decode spare (slice (snData (rdSnapshot rd))) \<noteq> None \<and>
        ready_batch (rdEntries rd) (smIndex (snMetadata (rdSnapshot rd))))"

text \<open>The state on disk, apart from the local state that is written last.\<close>

definition others_persisted :: "'d pebble \<Rightarrow> 'd peerStorage \<Rightarrow> bool" where
  "others_persisted P ps \<longleftrightarrow>
     InitRaftApplyState P (engines ps) = Some (applyState ps) \<and>
     InitRaftConfState P (engines ps) = Some (confState ps)"

lemma append_body_keys:
  assumes "pebble_ok P" "healthy P" "\<And>i. key \<noteq> RaftLogEntryKey i"
    "append_body P es lastEnt ps = Some ps'"
  shows "meta_map P (engines ps') key = meta_map P (engines ps) key"
proof -
  have a: "meta_map P (engines (snd (appendLogEntries P es ps))) key = meta_map P (engines ps) key"
  proof -
    have "map_of (rev (map (\<lambda>e. (RaftLogEntryKey (eIndex e), marshal_Entry e)) es)) key = None"
      using assms(3) [symmetric] by (force simp: map_of_eq_None_iff)
    then show ?thesis using appendLogEntries_map [OF assms(1,2), of es ps] by (simp add: map_add_def)
  qed
  have d: "meta_map P (engines (snd (deleteLogEntries P dl qs))) key = meta_map P (engines qs) key"
    for dl qs
    using deleteLogEntries_map [OF assms(1,2), of dl qs] assms(3)
    by (auto simp: restrict_map_def)
  show ?thesis
    using assms(4) a d by (auto simp: append_body_def Let_def split: if_splits)
qed

lemma truncateAndAppend_keys:
  assumes "pebble_ok P" "healthy P" "\<And>i. key \<noteq> RaftLogEntryKey i" "log_ok P ps"
    "truncateAndAppend P ents ps = Some ps'"
  shows "meta_map P (engines ps') key = meta_map P (engines ps) key"
proof (cases "ents = []")
  case True
  then show ?thesis using assms(5) by (simp add: truncateAndAppend_def)
next
  case False
  then show ?thesis
    using assms(5) append_body_keys [OF assms(1-3)]
    by (auto simp: truncateAndAppend_unfold [OF assms(4)] split: if_splits)
qed

lemma truncateAndAppend_others:
  assumes "pebble_ok P" "healthy P" "log_ok P ps" "truncateAndAppend P ents ps = Some ps'"
    "applyState ps' = applyState ps" "confState ps' = confState ps" "others_persisted P ps"
  shows "others_persisted P ps'"
proof -
  have k: "meta_map P (engines ps') RaftApplyStateKey = meta_map P (engines ps) RaftApplyStateKey"
    "meta_map P (engines ps') RaftConfStateKey = meta_map P (engines ps) RaftConfStateKey"
    using truncateAndAppend_keys [OF assms(1,2) _ assms(3,4)] by auto
  show ?thesis
    using assms(5-7) Init_cong(2) [OF assms(2) k(1)] Init_cong(3) [OF assms(2) k(2)]
    by (simp add: others_persisted_def)
qed

text \<open>What a batch's snapshot adds to the key-value map, and the apply state it leaves.\<close>

definition batch_map :: "bytes \<Rightarrow> Ready \<Rightarrow> bytes \<Rightarrow> bytes option" where
  "batch_map spare rd =
     (if IsEmptySnap (rdSnapshot rd) then Map.empty
      else case Decode spare (slice (snData (rdSnapshot rd))) of
             None \<Rightarrow> Map.empty | Some pairs \<Rightarrow> pair_map pairs)"

definition batch_state :: "Ready \<Rightarrow> RaftApplyState \<Rightarrow> RaftApplyState" where
  "batch_state rd a = (if IsEmptySnap (rdSnapshot rd) then a else snapshot_state (rdSnapshot rd))"

text \<open>The snapshot part of a batch.\<close>

lemma save_snapshot:
  assumes P: "pebble_ok P" "healthy P" and ref: "refines P ps ms" and rd: "ready_ok spare rd ps ms"
    and oth: "others_persisted P ps"
  shows "\<exists>ps1 ms1.
    (if \<not> IsEmptySnap (rdSnapshot rd) then applySnapshot P spare (rdSnapshot rd) ps else Some ps)
      = Some ps1 \<and>
    ms1 = (if \<not> IsEmptySnap (rdSnapshot rd) then snd (ms_ApplySnapshot (rdSnapshot rd) ms) else ms) \<and>
    refines P ps1 ms1 \<and> ready_ents (rdEntries rd) ps1 \<and> others_persisted P ps1 \<and>
    lsHardState (localState ps1) = lsHardState (localState ps) \<and> msHardState ms1 = msHardState ms \<and>
    kv_map P (engines ps1) = kv_map P (engines ps) ++ batch_map spare rd \<and>
    applyState ps1 = batch_state rd (applyState ps)"
proof (cases "IsEmptySnap (rdSnapshot rd)")
  case True
  then show ?thesis using assms by (simp add: ready_ok_def batch_map_def batch_state_def)
next
  case False
  let ?s = "rdSnapshot rd"
  have ts: "asTruncatedState (applyState ps) \<noteq> None" using ref by (simp add: refines_def log_ok_def)
  obtain pairs where d: "Decode spare (slice (snData ?s)) = Some pairs"
    using rd False by (auto simp: ready_ok_def)
  from applySnapshot_effect [OF P ts d] obtain ps1 where
    a: "applySnapshot P spare ?s ps = Some ps1"
    and e: "localState ps1 = (localState ps)\<lparr>lsLastIndex := smIndex (snMetadata ?s),
        lsLastTerm := smTerm (snMetadata ?s)\<rparr>"
      "applyState ps1 = snapshot_state ?s" "confState ps1 = smConfState (snMetadata ?s)"
      "meta_map P (engines ps1) = (meta_map P (engines ps))
        (RaftApplyStateKey \<mapsto> marshal_ApplyState (snapshot_state ?s),
         RaftConfStateKey \<mapsto> marshal_ConfState (smConfState (snMetadata ?s)))"
      "kv_map P (engines ps1) = kv_map P (engines ps) ++ pair_map pairs"
    by blast
  have L: "LastIndex ps1 = smIndex (snMetadata ?s)" by (simp add: LastIndex_def e)
  have "log_ok P ps1 \<and> peer_ents P ps1 =
      [zero_Entry\<lparr>eTerm := smTerm (snMetadata ?s), eIndex := smIndex (snMetadata ?s)\<rparr>]"
    by (rule snapshot_log) (use e L rd False in \<open>simp_all add: ready_ok_def\<close>)
  moreover have "others_persisted P ps1"
    by (simp add: others_persisted_def apply_state_written conf_state_written e)
  ultimately show ?thesis
    using False rd a e L d
    by (auto simp: refines_def ms_ApplySnapshot_def ready_ok_def batch_map_def batch_state_def)
qed

theorem saveReadyState_refines:
  assumes P: "pebble_ok P" "healthy P" and ref: "refines P ps ms" and rd: "ready_ok spare rd ps ms"
    and oth: "others_persisted P ps" and hs: "lsHardState (localState ps) = Some (msHardState ms)"
  shows "\<exists>ps' ms'. saveReadyState P spare rd ps = Some (None, ps') \<and> ms_save rd ms = Some ms' \<and>
    refines P ps' ms' \<and> lsHardState (localState ps') = Some (msHardState ms') \<and> persisted P ps' \<and>
    kv_map P (engines ps') = kv_map P (engines ps) ++ batch_map spare rd \<and>
    applyState ps' = batch_state rd (applyState ps)"
proof -
  obtain ps1 ms1 where s1: "(if \<not> IsEmptySnap (rdSnapshot rd)
      then applySnapshot P spare (rdSnapshot rd) ps else Some ps) = Some ps1"
    "ms1 = (if \<not> IsEmptySnap (rdSnapshot rd) then snd (ms_ApplySnapshot (rdSnapshot rd) ms) else ms)"
    "refines P ps1 ms1" "ready_ents (rdEntries rd) ps1" "others_persisted P ps1"
    "lsHardState (localState ps1) = lsHardState (localState ps)" "msHardState ms1 = msHardState ms"
    "kv_map P (engines ps1) = kv_map P (engines ps) ++ batch_map spare rd"
    "applyState ps1 = batch_state rd (applyState ps)"
    using save_snapshot [OF P ref rd oth] by blast
  obtain ps2 ms2 t l where s2: "truncateAndAppend P (rdEntries rd) ps1 = Some ps2"
    "ms_Append (rdEntries rd) ms1 = Some ms2" "refines P ps2 ms2"
    and m: "meta_only (ps1\<lparr>localState := (localState ps1)\<lparr>lsLastTerm := t, lsLastIndex := l\<rparr>\<rparr>) ps2"
    using truncateAndAppend_refines [OF P s1(3,4)] by blast
  have f: "lsHardState (localState ps2) = lsHardState (localState ps1)"
    "applyState ps2 = applyState ps1" "confState ps2 = confState ps1"
    "kv (engines ps2) = kv (engines ps1)"
    using meta_only_fields(1-4) [OF m] by simp_all
  have o2: "others_persisted P ps2"
    by (rule truncateAndAppend_others [OF P _ s2(1) f(2,3) s1(5)]) (use s1(3) in \<open>simp add: refines_def\<close>)
  have h2: "msHardState ms2 = msHardState ms1"
    using s2(2) by (auto simp: ms_Append_def Let_def split: if_splits)
  define ps3 where "ps3 = (if \<not> IsEmptyHardState (rdHardState rd)
    then ps2\<lparr>localState := (localState ps2)\<lparr>lsHardState := Some (rdHardState rd)\<rparr>\<rparr> else ps2)"
  define ms3 where "ms3 = (if \<not> IsEmptyHardState (rdHardState rd)
    then ms_SetHardState (rdHardState rd) ms2 else ms2)"
  define ps4 where "ps4 = snd (writeLocalState P (localState ps3) ps3)"
  have w: "writeLocalState P (localState ps3) ps3 = (None, ps4)"
    using writeState_effect(6) [OF P, of "localState ps3" ps3] by (simp add: ps4_def prod_eq_iff)
  have k: "meta_map P (engines ps4) =
      (meta_map P (engines ps2))(RaftLocalStateKey \<mapsto> marshal_LocalState (localState ps4))"
    by (simp add: ps4_def writeState_effect(3) [OF P]) (simp add: ps3_def)
  have st: "localState ps4 = localState ps3" "applyState ps4 = applyState ps2"
    "confState ps4 = confState ps2" "lsLastIndex (localState ps3) = lsLastIndex (localState ps2)"
    "lsLastTerm (localState ps3) = lsLastTerm (localState ps2)"
    by (simp_all add: ps4_def) (simp_all add: ps3_def)
  have le: "log_entry P ps4 = log_entry P ps2" by (rule ext) (simp add: log_entry_def k)
  have tr: "trunc_state ps4 = trunc_state ps2" using st(2) by (rule trunc_cong)
  have pe: "peer_ents P ps4 = peer_ents P ps2" "log_ok P ps4 = log_ok P ps2"
    using st tr le by (simp_all add: peer_ents_def log_ok_def log_stored_def log_size_def
        LastIndex_def dummy_entry_def)
  have k': "meta_map P (engines ps4) RaftApplyStateKey = meta_map P (engines ps2) RaftApplyStateKey"
    "meta_map P (engines ps4) RaftConfStateKey = meta_map P (engines ps2) RaftConfStateKey"
    by (simp_all add: k)
  have "persisted P ps4"
    using local_state_written [of P "engines ps4" "localState ps4"] o2 st
      Init_cong(2) [OF P(2) k'(1)] Init_cong(3) [OF P(2) k'(2)]
    by (simp add: persisted_def others_persisted_def k)
  moreover have "refines P ps4 ms3" using s2(3) pe by (simp add: refines_def ms3_def ms_SetHardState_def)
  moreover have "lsHardState (localState ps4) = Some (msHardState ms3)"
    using hs f(1) h2 s1(6,7) st(1) by (simp add: ps3_def ms3_def ms_SetHardState_def)
  moreover have "saveReadyState P spare rd ps = Some (None, ps4)"
    using s1(1) s2(1) w by (simp add: saveReadyState_def Let_def ps3_def)
  moreover have "ms_save rd ms = Some ms3"
    using s1(2) s2(2) by (simp add: ms_save_def Let_def ms3_def)
  moreover have "kv (engines ps4) = kv (engines ps2)" by (simp add: ps4_def) (simp add: ps3_def)
  ultimately show ?thesis using s1(8,9) f(2,4) st(2) by auto
qed

end
