(* ===== verification/Router.thy ===== *)
theory Router
  imports Store_Pb Engines
begin

text \<open>
  Messages between peers (\<^verbatim>\<open>raftstore/router.go\<close>, \<^verbatim>\<open>raft_conn/raft_client.go\<close>,
  \<^verbatim>\<open>raft_conn/raft_server.go\<close>). gRPC is a library the code calls: the parameter \<open>'w grpc\<close> holds
  dialling an address together with opening the message stream on the connection, sending on a
  stream and cancelling one, on a state \<open>'w\<close> of the network. Connections are numbered by it.
  One goroutine sends, the peer's loop, so the locks of the client never wait.
\<close>

record 'w grpc =
  gr_dial :: "string \<Rightarrow> 'w \<Rightarrow> (err + nat) \<times> 'w"
  gr_send :: "nat \<Rightarrow> RaftMsgReq \<Rightarrow> 'w \<Rightarrow> err option \<times> 'w"
  gr_cancel :: "nat \<Rightarrow> 'w \<Rightarrow> 'w"

record 'w router =
  conns :: "string \<Rightarrow> nat option"
  net :: 'w

definition newRouter :: "'w \<Rightarrow> 'w router" where
  "newRouter w = \<lparr>conns = Map.empty, net = w\<rparr>"

section \<open>The client\<close>

definition newRaftConn :: "'w grpc \<Rightarrow> string \<Rightarrow> 'w router \<Rightarrow> (err + nat) \<times> 'w router" where
  "newRaftConn G addr r = (let (c, w) = gr_dial G addr (net r) in (c, r\<lparr>net := w\<rparr>))"

definition GetRaftConn :: "'w grpc \<Rightarrow> string \<Rightarrow> 'w router \<Rightarrow> (err + nat) \<times> 'w router" where
  "GetRaftConn G addr r =
     (case conns r addr of
        Some c \<Rightarrow> (Inr c, r)
      | None \<Rightarrow>
          (case newRaftConn G addr r of
             (Inl er, r1) \<Rightarrow> (Inl er, r1)
           | (Inr c, r1) \<Rightarrow>
               (let r2 = (case conns r1 addr of
                            Some old \<Rightarrow> r1\<lparr>net := gr_cancel G old (net r1)\<rparr>
                          | None \<Rightarrow> r1)
                in (Inr c, r2\<lparr>conns := (conns r2)(addr \<mapsto> c)\<rparr>))))"

definition conn_send :: "'w grpc \<Rightarrow> nat \<Rightarrow> RaftMsgReq \<Rightarrow> 'w router \<Rightarrow> err option \<times> 'w router" where
  "conn_send G c msg r = (let (er, w) = gr_send G c msg (net r) in (er, r\<lparr>net := w\<rparr>))"

definition conn_stop :: "'w grpc \<Rightarrow> nat \<Rightarrow> 'w router \<Rightarrow> 'w router" where
  "conn_stop G c r = r\<lparr>net := gr_cancel G c (net r)\<rparr>"

text \<open>A failed send closes the connection and is tried once more on a new one.\<close>

definition client_send :: "'w grpc \<Rightarrow> string \<Rightarrow> RaftMsgReq \<Rightarrow> 'w router \<Rightarrow> err option \<times> 'w router" where
  "client_send G addr msg r =
     (case GetRaftConn G addr r of
        (Inl er, r1) \<Rightarrow> (Some er, r1)
      | (Inr c, r1) \<Rightarrow>
          (case conn_send G c msg r1 of
             (None, r2) \<Rightarrow> (None, r2)
           | (Some _, r2) \<Rightarrow>
               (let r3 = conn_stop G c r2;
                    r4 = r3\<lparr>conns := (conns r3)(addr := None)\<rparr>
                in (case GetRaftConn G addr r4 of
                      (Inl er, r5) \<Rightarrow> (Some er, r5)
                    | (Inr c', r5) \<Rightarrow> conn_send G c' msg r5))))"

section \<open>The router\<close>

definition peerMap :: "u64 \<Rightarrow> string option" where
  "peerMap = [1 \<mapsto> ''127.0.0.1:6060'', 2 \<mapsto> ''127.0.0.1:6061'', 3 \<mapsto> ''127.0.0.1:6062'']"

definition peer_msg :: "Message \<Rightarrow> RaftMsgReq" where
  "peer_msg msg = \<lparr>rmMessage = Some msg, rmFromPeer = mFrom msg, rmToPeer = mTo msg\<rparr>"

fun sendRaftMsgs :: "'w grpc \<Rightarrow> Message list \<Rightarrow> 'w router \<Rightarrow> 'w router" where
  "sendRaftMsgs G [] r = r"
| "sendRaftMsgs G (msg # msgs) r =
     (case peerMap (mTo msg) of
        None \<Rightarrow> sendRaftMsgs G msgs r
      | Some addr \<Rightarrow> sendRaftMsgs G msgs (snd (client_send G addr (peer_msg msg) r)))"

section \<open>The server\<close>

text \<open>One turn of the receiving loop; the channel to the peer holds 1024 messages, and the
  loop waits while it is full. A request without a message makes \<^verbatim>\<open>raftMsg\<close> panic.\<close>

definition raftMsg :: "RaftMsgReq \<Rightarrow> Message run" where
  "raftMsg msg = rmMessage msg"

definition RaftMessage :: "RaftMsgReq \<Rightarrow> Message list \<Rightarrow> Message list run" where
  "RaftMessage msg msgc = map_option (\<lambda>rm. msgc @ [rm]) (raftMsg msg)"

section \<open>Sending\<close>

lemma client_send_cached:
  assumes "conns r addr = Some c" "gr_send G c msg (net r) = (None, w)"
  shows "client_send G addr msg r = (None, r\<lparr>net := w\<rparr>)"
  using assms by (simp add: client_send_def GetRaftConn_def conn_send_def)

text \<open>A broken cached connection: cancelled, dialled again, and the message sent once more.\<close>

lemma client_send_retry:
  assumes "conns r addr = Some c" "gr_send G c msg (net r) = (Some er, w1)"
    "gr_dial G addr (gr_cancel G c w1) = (Inr c', w2)"
  shows "client_send G addr msg r =
    (fst (gr_send G c' msg w2),
     \<lparr>conns = (conns r)(addr \<mapsto> c'), net = snd (gr_send G c' msg w2)\<rparr>)"
  using assms
  by (cases r) (auto simp: client_send_def GetRaftConn_def conn_send_def conn_stop_def
      newRaftConn_def Let_def split: prod.splits)

text \<open>Only the addressee's connection changes.\<close>

lemma GetRaftConn_frame [frame]:
  "a \<noteq> addr \<Longrightarrow> conns (snd (GetRaftConn G addr r)) a = conns r a"
  by (auto simp: GetRaftConn_def newRaftConn_def Let_def split: option.splits prod.splits sum.splits)

lemma client_send_frame [frame]:
  assumes "a \<noteq> addr"
  shows "conns (snd (client_send G addr msg r)) a = conns r a"
proof -
  obtain c r1 where g: "GetRaftConn G addr r = (c, r1)" by (metis prod.exhaust)
  then have r1: "conns r1 a = conns r a" using GetRaftConn_frame [OF assms] by (metis snd_conv)
  have cs: "conns (snd (conn_send G k m q)) = conns q" for k m q
    by (simp add: conn_send_def split: prod.splits)
  show ?thesis
  proof (cases c)
    case (Inl e)
    with g r1 show ?thesis by (simp add: client_send_def)
  next
    case (Inr k)
    obtain e r2 where s: "conn_send G k msg r1 = (e, r2)" by (metis prod.exhaust)
    then have r2: "conns r2 = conns r1" using cs by (metis snd_conv)
    let ?r4 = "(conn_stop G k r2)\<lparr>conns := (conns (conn_stop G k r2))(addr := None)\<rparr>"
    obtain c' r5 where g': "GetRaftConn G addr ?r4 = (c', r5)" by (metis prod.exhaust)
    then have "conns r5 a = conns ?r4 a" using GetRaftConn_frame [OF assms] by (metis snd_conv)
    then have r5: "conns r5 a = conns r a" using assms r1 r2 by (simp add: conn_stop_def)
    show ?thesis
    proof (cases e)
      case None
      with g Inr s r1 r2 show ?thesis by (simp add: client_send_def)
    next
      case (Some x)
      with g Inr s g' r5 show ?thesis
        by (cases c') (simp_all add: client_send_def Let_def cs)
    qed
  qed
qed

lemma sendRaftMsgs_unknown:
  "list_all (\<lambda>m. peerMap (mTo m) = None) msgs \<Longrightarrow> sendRaftMsgs G msgs r = r"
  by (induction msgs) auto

lemma raftMsg_peer_msg: "raftMsg (peer_msg msg) = Some msg"
  by (simp add: raftMsg_def peer_msg_def)

end
