(* ===== verification/Peer.thy ===== *)
theory Peer
  imports Ready_Save Router
begin

text \<open>
  A peer (\<^verbatim>\<open>raftstore/peer.go\<close>): the loop that saves and applies \<^verbatim>\<open>Ready\<close> batches, log
  compaction, proposals and start-up. The read path of the same file is in \<open>Read_Path\<close>, the
  sending of messages in \<open>Router\<close>.

  The raft node is a library the code calls: the parameter \<open>'n raft_node\<close> holds the operations
  the peer uses, on a node state \<open>'n\<close>. A goroutine that has been started and not run yet is an
  element of a list in the state (\<open>gc_tasks\<close>, \<open>read_tasks\<close>); a channel is the list of its
  buffered values. \<open>committing\<close> is the program counter of \<^verbatim>\<open>handleReady\<close>: the batch whose
  read states could not be signalled yet because the signal channel is full.
\<close>

section \<open>State\<close>

record 'n raft_node =
  nd_propose :: "bytes \<Rightarrow> 'n \<Rightarrow> err option \<times> 'n"
  nd_readIndex :: "bytes \<Rightarrow> 'n \<Rightarrow> err option \<times> 'n"
  nd_step :: "Message \<Rightarrow> 'n \<Rightarrow> 'n"
  nd_tick :: "'n \<Rightarrow> 'n"
  nd_advance :: "'n \<Rightarrow> 'n"
  nd_lead :: "'n \<Rightarrow> u64"
  nd_term :: "'n \<Rightarrow> u64"
  nd_conf :: "'n \<Rightarrow> ConfState"

text \<open>A pending read: its context, a timestamp and the key, and the number of its callback.\<close>

record read =
  ctx :: bytes
  cb :: nat

text \<open>A callback (\<^verbatim>\<open>internal/callback.go\<close>): the response and what its channel, of capacity 1,
  holds.\<close>

record Callback =
  cbResp :: "RaftCmdResponse option"
  cbDone :: nat

record ('d, 'n, 'w) peer =
  prId :: u64
  raftGroup :: 'n
  ps :: "'d peerStorage"
  readc :: "read list"
  readStateTable :: "bytes \<Rightarrow> ReadState option"
  readStateComing :: nat
  recvc :: "Message list"
  compactionElapse :: int
  compactionTimeout :: int
  lastCompactedIdx :: u64
  gc_tasks :: "(u64 \<times> u64) list"
  read_tasks :: "(ReadState \<times> read) list"
  callbacks :: "Callback list"
  committing :: "Ready option"
  router :: "'w router"

definition defaultLogGCCountLimit :: u64 where
  "defaultLogGCCountLimit = 1000"

definition defaultCompactCheckPeriod :: int where
  "defaultCompactCheckPeriod = 100"

definition loadRaftPeers :: "u64 list" where
  "loadRaftPeers = map (\<lambda>i. word_of_nat (i + 1)) [0..<3]"

section \<open>Start\<close>

definition bootstrap :: "'d peerStorage \<Rightarrow> bool" where
  "bootstrap s = isEmptyConfState (confState s)"

text \<open>\<open>start\<close> and \<open>restart\<close> stand for the library's \<^verbatim>\<open>StartNode\<close> and \<^verbatim>\<open>RestartNode\<close>; they get the
  storage, the applied index and, for a first start, the peers.\<close>

definition newPeer ::
    "'d pebble \<Rightarrow> 'n raft_node \<Rightarrow> ('d peerStorage \<Rightarrow> u64 \<Rightarrow> u64 list \<Rightarrow> 'n) \<Rightarrow>
     ('d peerStorage \<Rightarrow> u64 \<Rightarrow> 'n) \<Rightarrow> u64 \<Rightarrow> 'd engines \<Rightarrow> 'w \<Rightarrow> ('d, 'n, 'w) peer run" where
  "newPeer P N start restart i e w =
     do {
       s \<leftarrow> newPeerStorage P e;
       t \<leftarrow> truncateIndex s;
       let applied = AppliedIndex s;
       let n = (if bootstrap s then start s applied loadRaftPeers else restart s applied);
       let s' = (if bootstrap s
                 then (let s1 = s\<lparr>confState := nd_conf N n\<rparr>
                       in snd (writeConfState P (confState s1) s1))
                 else s);
       Some \<lparr>prId = i, raftGroup = n, ps = s', readc = [], readStateTable = Map.empty,
         readStateComing = 0, recvc = [], compactionElapse = 0,
         compactionTimeout = defaultCompactCheckPeriod, lastCompactedIdx = t,
         gc_tasks = [], read_tasks = [], callbacks = [], committing = None, router = newRouter w\<rparr>
     }"

definition isLeader :: "'n raft_node \<Rightarrow> ('d, 'n, 'w) peer \<Rightarrow> bool" where
  "isLeader N pr = (nd_lead N (raftGroup pr) = prId pr)"

definition term_of :: "'n raft_node \<Rightarrow> ('d, 'n, 'w) peer \<Rightarrow> u64" where
  "term_of N pr = nd_term N (raftGroup pr)"

definition propose ::
    "'n raft_node \<Rightarrow> RaftCmdRequest \<Rightarrow> ('d, 'n, 'w) peer \<Rightarrow> err option \<times> ('d, 'n, 'w) peer" where
  "propose N cmd pr =
     (let (er, n) = nd_propose N (marshal_RaftCmd cmd) (raftGroup pr)
      in (er, pr\<lparr>raftGroup := n\<rparr>))"

section \<open>Applying committed entries\<close>

definition processRequest :: "'d pebble \<Rightarrow> Request \<Rightarrow> ('d, 'n, 'w) peer \<Rightarrow> ('d, 'n, 'w) peer run" where
  "processRequest P request pr =
     (if rqCmdType request = CmdType_Put then
        (case rqPut request of
           None \<Rightarrow> panic
         | Some put \<Rightarrow>
             (let e = snd (WriteKV P (PutData (prKey put) (prValue put) True) (engines (ps pr)))
              in Some (pr\<lparr>ps := (ps pr)\<lparr>engines := e\<rparr>\<rparr>)))
      else if rqCmdType request = CmdType_Delete then
        (case rqDelete request of
           None \<Rightarrow> panic
         | Some del \<Rightarrow>
             (let e = snd (WriteKV P (DeleteData (drKey del) True) (engines (ps pr)))
              in Some (pr\<lparr>ps := (ps pr)\<lparr>engines := e\<rparr>\<rparr>)))
      else Some pr)"

definition processAdminRequest ::
    "'d pebble \<Rightarrow> AdminRequest \<Rightarrow> ('d, 'n, 'w) peer \<Rightarrow> ('d, 'n, 'w) peer run" where
  "processAdminRequest P request pr =
     (if arCmdType request = AdminCmdType_CompactLog then
        do {
          compactLog \<leftarrow> GetCompactLog (Some request);
          ts \<leftarrow> asTruncatedState (applyState (ps pr));
          if clCompactIndex compactLog \<ge> tsIndex ts then
            (let ts' = ts\<lparr>tsIndex := clCompactIndex compactLog, tsTerm := clCompactTerm compactLog\<rparr>;
                 s1 = (ps pr)\<lparr>applyState := (applyState (ps pr))\<lparr>asTruncatedState := Some ts'\<rparr>\<rparr>;
                 s2 = snd (writeApplyState P (applyState s1) s1)
             in Some (pr\<lparr>ps := s2,
                  gc_tasks := gc_tasks pr @ [(lastCompactedIdx pr + 1, tsIndex ts' + 1)],
                  lastCompactedIdx := tsIndex ts'\<rparr>))
          else Some pr
        }
      else Some pr)"

text \<open>The first half of \<^verbatim>\<open>process\<close>: the applied index is raised and written out.\<close>

definition mark_applied :: "'d pebble \<Rightarrow> Entry \<Rightarrow> 'd peerStorage \<Rightarrow> 'd peerStorage" where
  "mark_applied P ent s =
     (let s1 = s\<lparr>applyState := (applyState s)\<lparr>asApplyIndex := eIndex ent\<rparr>\<rparr>
      in snd (writeApplyState P (applyState s1) s1))"

definition process :: "'d pebble \<Rightarrow> Entry \<Rightarrow> ('d, 'n, 'w) peer \<Rightarrow> ('d, 'n, 'w) peer run" where
  "process P ent pr =
     do {
       let pr2 = pr\<lparr>ps := mark_applied P ent (ps pr)\<rparr>;
       cmd \<leftarrow> unmarshal_RaftCmd (slice (eData ent));
       case rcRequest cmd of
         Some request \<Rightarrow> processRequest P request pr2
       | None \<Rightarrow>
           (case rcAdminRequest cmd of
              Some request \<Rightarrow> processAdminRequest P request pr2
            | None \<Rightarrow> Some pr2)
     }"

fun process_all :: "'d pebble \<Rightarrow> Entry list \<Rightarrow> ('d, 'n, 'w) peer \<Rightarrow> ('d, 'n, 'w) peer run" where
  "process_all P [] pr = Some pr"
| "process_all P (ent # ents) pr = Option.bind (process P ent pr) (process_all P ents)"

section \<open>Compaction\<close>

definition gcRaftLog ::
    "'d pebble \<Rightarrow> u64 \<Rightarrow> u64 \<Rightarrow> 'd peerStorage \<Rightarrow> (err option \<times> 'd peerStorage) run" where
  "gcRaftLog P start till s =
     do {
       r \<leftarrow> Entries P start till (- 1) s;
       Some (case r of Inl er \<Rightarrow> (Some er, s) | Inr ents \<Rightarrow> deleteLogEntries P ents s)
     }"

text \<open>The collector goroutine of one task.\<close>

definition run_gc_task :: "'d pebble \<Rightarrow> nat \<Rightarrow> ('d, 'n, 'w) peer \<Rightarrow> ('d, 'n, 'w) peer run" where
  "run_gc_task P k pr =
     (if k < length (gc_tasks pr) then
        (case gc_tasks pr ! k of (start, till) \<Rightarrow>
          map_option (\<lambda>(er, s). pr\<lparr>ps := s,
              gc_tasks := take k (gc_tasks pr) @ drop (Suc k) (gc_tasks pr)\<rparr>)
            (gcRaftLog P start till (ps pr)))
      else Some pr)"

definition onLogGCTask :: "'d pebble \<Rightarrow> 'n raft_node \<Rightarrow> ('d, 'n, 'w) peer \<Rightarrow> ('d, 'n, 'w) peer run" where
  "onLogGCTask P N pr =
     (if \<not> isLeader N pr then Some pr
      else do {
        let appliedIdx = AppliedIndex (ps pr);
        firstIdx \<leftarrow> FirstIndex (ps pr);
        if appliedIdx > firstIdx \<and> appliedIdx - firstIdx \<ge> defaultLogGCCountLimit then
          do {
            let compactIdx = appliedIdx - 1;
            r \<leftarrow> Term P compactIdx (ps pr);
            case r of
              Inl _ \<Rightarrow> panic
            | Inr t \<Rightarrow> Some (snd (propose N (NewCompactCmdRequest compactIdx t) pr))
          }
        else Some pr
      })"

definition tickLogGC :: "'d pebble \<Rightarrow> 'n raft_node \<Rightarrow> ('d, 'n, 'w) peer \<Rightarrow> ('d, 'n, 'w) peer run" where
  "tickLogGC P N pr =
     (let pr1 = pr\<lparr>compactionElapse := compactionElapse pr + 1\<rparr>
      in if compactionElapse pr1 \<ge> compactionTimeout pr1
         then onLogGCTask P N (pr1\<lparr>compactionElapse := 0\<rparr>)
         else Some pr1)"

definition tick :: "'d pebble \<Rightarrow> 'n raft_node \<Rightarrow> ('d, 'n, 'w) peer \<Rightarrow> ('d, 'n, 'w) peer run" where
  "tick P N pr = tickLogGC P N (pr\<lparr>raftGroup := nd_tick N (raftGroup pr)\<rparr>)"

section \<open>Handling a batch\<close>

text \<open>Up to the signal: the batch is saved (an error is dropped) and its read states noted.\<close>

definition handleReady_save ::
    "'d pebble \<Rightarrow> bytes \<Rightarrow> Ready \<Rightarrow> ('d, 'n, 'w) peer \<Rightarrow> ('d, 'n, 'w) peer run" where
  "handleReady_save P spare rd pr =
     map_option (\<lambda>(er, s). pr\<lparr>ps := s,
         readStateTable :=
           foldl (\<lambda>t st. t(rsRequestCtx st \<mapsto> st)) (readStateTable pr) (rdReadStates rd),
         committing := Some rd\<rparr>)
       (saveReadyState P spare rd (ps pr))"

text \<open>The signal blocks while the channel, of capacity 1, is full.\<close>

definition can_signal :: "Ready \<Rightarrow> ('d, 'n, 'w) peer \<Rightarrow> bool" where
  "can_signal rd pr \<longleftrightarrow> length (rdReadStates rd) > 0 \<longrightarrow> readStateComing pr < 1"

definition signal :: "Ready \<Rightarrow> ('d, 'n, 'w) peer \<Rightarrow> ('d, 'n, 'w) peer" where
  "signal rd pr =
     (if length (rdReadStates rd) > 0 then pr\<lparr>readStateComing := readStateComing pr + 1\<rparr> else pr)"

text \<open>After it: the messages are sent, the committed entries applied, the node told.\<close>

definition handleReady_apply ::
    "'d pebble \<Rightarrow> 'n raft_node \<Rightarrow> 'w grpc \<Rightarrow> Ready \<Rightarrow> ('d, 'n, 'w) peer \<Rightarrow> ('d, 'n, 'w) peer run" where
  "handleReady_apply P N G rd pr =
     do {
       let pr0 = signal rd pr;
       pr1 \<leftarrow> process_all P (rdCommittedEntries rd)
                (pr0\<lparr>router := sendRaftMsgs G (rdMessages rd) (router pr0)\<rparr>);
       Some (pr1\<lparr>raftGroup := nd_advance N (raftGroup pr1), committing := None\<rparr>)
     }"

definition handleReady ::
    "'d pebble \<Rightarrow> 'n raft_node \<Rightarrow> 'w grpc \<Rightarrow> bytes \<Rightarrow> Ready \<Rightarrow> ('d, 'n, 'w) peer \<Rightarrow> ('d, 'n, 'w) peer run" where
  "handleReady P N G spare rd pr =
     Option.bind (handleReady_save P spare rd pr) (handleReady_apply P N G rd)"

text \<open>The message loop: everything buffered, those addressed to this peer are stepped.\<close>

definition handleRaftMsgs :: "'n raft_node \<Rightarrow> ('d, 'n, 'w) peer \<Rightarrow> ('d, 'n, 'w) peer" where
  "handleRaftMsgs N pr =
     pr\<lparr>raftGroup := foldl (\<lambda>n m. if mTo m = prId pr then nd_step N m n else n) (raftGroup pr)
          (recvc pr),
        recvc := []\<rparr>"

end
