(* ===== verification/Peer_Apply.thy ===== *)
theory Peer_Apply
  imports Peer
begin

text \<open>
  Applying committed entries: the key-value map changes by the entry's command and nothing
  else does, the log is compacted as the memory storage would, and what the garbage collector
  deletes (nothing).
\<close>

section \<open>Commands\<close>

datatype command = CPut bytes bytes | CDelete bytes | CCompact u64 u64 | CNone

fun apply_command :: "command \<Rightarrow> (bytes \<Rightarrow> bytes option) \<Rightarrow> bytes \<Rightarrow> bytes option" where
  "apply_command (CPut k v) m = m(k \<mapsto> v)"
| "apply_command (CDelete k) m = m(k := None)"
| "apply_command (CCompact i t) m = m"
| "apply_command CNone m = m"

text \<open>The command of a decoded request; \<open>None\<close> when its payload is missing.\<close>

definition cmd_command :: "RaftCmdRequest \<Rightarrow> command option" where
  "cmd_command cmd =
     (case rcRequest cmd of
        Some r \<Rightarrow>
          if rqCmdType r = CmdType_Put then map_option (\<lambda>p. CPut (prKey p) (prValue p)) (rqPut r)
          else if rqCmdType r = CmdType_Delete then map_option (\<lambda>d. CDelete (drKey d)) (rqDelete r)
          else Some CNone
      | None \<Rightarrow>
          (case rcAdminRequest cmd of
             Some a \<Rightarrow>
               if arCmdType a = AdminCmdType_CompactLog
               then map_option (\<lambda>c. CCompact (clCompactIndex c) (clCompactTerm c)) (arCompactLog a)
               else Some CNone
           | None \<Rightarrow> Some CNone))"

definition entry_command :: "Entry \<Rightarrow> command option" where
  "entry_command ent = Option.bind (unmarshal_RaftCmd (slice (eData ent))) cmd_command"

lemma cmd_command_new [simp]:
  "cmd_command (NewPutCmdRequest k v) = Some (CPut k v)"
  "cmd_command (NewDeleteCmdRequest k) = Some (CDelete k)"
  "cmd_command (NewCompactCmdRequest i t) = Some (CCompact i t)"
  by (simp_all add: cmd_command_def NewPutCmdRequest_def NewDeleteCmdRequest_def
      NewCompactCmdRequest_def)

lemma entry_command_proposed:
  assumes "RaftCmd_fits cmd"
  shows "entry_command (ent\<lparr>eData := Some (marshal_RaftCmd cmd)\<rparr>) = cmd_command cmd"
  by (simp add: entry_command_def raft_cmd.unmarshal_marshal [OF assms])

text \<open>Entries the raft library itself puts in the log: the empty one of a new leader, and the
  configuration changes of a first start. Neither is a command.\<close>

lemma entry_command_empty: "slice (eData ent) = [] \<Longrightarrow> entry_command ent = Some CNone"
  by (simp add: entry_command_def unmarshal_RaftCmd_empty cmd_command_def zero_RaftCmd_def)

lemma bootstrap_entries_command:
  "map entry_command (bootstrap_entries peers) = map (\<lambda>_. Some CNone) peers"
  by (rule nth_equalityI)
    (simp_all add: bootstrap_entries_def entry_command_def unmarshal_RaftCmd_ConfChange cmd_command_def
      zero_RaftCmd_def)

section \<open>One entry\<close>

text \<open>Frame: a step that changes the storage only.\<close>

definition compact_state :: "u64 \<Rightarrow> u64 \<Rightarrow> RaftApplyState \<Rightarrow> RaftApplyState" where
  "compact_state i t a =
     (case asTruncatedState a of
        None \<Rightarrow> a
      | Some ts \<Rightarrow> if i \<ge> tsIndex ts then a\<lparr>asTruncatedState := Some \<lparr>tsIndex = i, tsTerm = t\<rparr>\<rparr> else a)"

fun command_state :: "command \<Rightarrow> RaftApplyState \<Rightarrow> RaftApplyState" where
  "command_state (CCompact i t) a = compact_state i t a"
| "command_state c a = a"

lemma mark_applied_effect:
  assumes "pebble_ok P" "healthy P"
  shows "applyState (mark_applied P ent s) = (applyState s)\<lparr>asApplyIndex := eIndex ent\<rparr>"
    "localState (mark_applied P ent s) = localState s"
    "confState (mark_applied P ent s) = confState s"
    "kv_map P (engines (mark_applied P ent s)) = kv_map P (engines s)"
    "meta_map P (engines (mark_applied P ent s)) = (meta_map P (engines s))
      (RaftApplyStateKey \<mapsto> marshal_ApplyState ((applyState s)\<lparr>asApplyIndex := eIndex ent\<rparr>))"
  by (simp_all add: mark_applied_def Let_def writeState_effect [OF assms])

text \<open>
  What an entry's command does to the storage \<open>s\<close>, giving \<open>s'\<close>; \<open>a'\<close> is the new apply state.
  Only the user's data and the apply state change, and the latter is on disk.
\<close>

definition applied :: "'d pebble \<Rightarrow> Entry \<Rightarrow> command \<Rightarrow> 'd peerStorage \<Rightarrow> 'd peerStorage \<Rightarrow> bool" where
  "applied P ent c s s' \<longleftrightarrow>
     (let a' = command_state c ((applyState s)\<lparr>asApplyIndex := eIndex ent\<rparr>) in
      applyState s' = a' \<and> localState s' = localState s \<and> confState s' = confState s \<and>
      kv_map P (engines s') = apply_command c (kv_map P (engines s)) \<and>
      meta_map P (engines s') =
        (meta_map P (engines s))(RaftApplyStateKey \<mapsto> marshal_ApplyState a'))"

lemma process_panics:
  assumes "entry_command ent = None"
  shows "process P ent pr = panic"
proof (cases "unmarshal_RaftCmd (slice (eData ent))")
  case None
  then show ?thesis by (simp add: process_def)
next
  case (Some cmd)
  then have "cmd_command cmd = None" using assms by (simp add: entry_command_def)
  then show ?thesis using Some
    by (cases "rcRequest cmd"; cases "rcAdminRequest cmd")
      (simp_all add: cmd_command_def process_def processRequest_def processAdminRequest_def
        GetCompactLog_def split: if_splits)
qed

lemma processRequest_applied:
  assumes P: "pebble_ok P" "healthy P"
    and cmd: "cmd_command cmd = Some c" "rcRequest cmd = Some r"
  shows "\<exists>pr'. processRequest P r (pr\<lparr>ps := mark_applied P ent (ps pr)\<rparr>) = Some pr' \<and>
    applied P ent c (ps pr) (ps pr') \<and> lastCompactedIdx pr' = lastCompactedIdx pr \<and>
    gc_tasks pr' = gc_tasks pr"
  using cmd mark_applied_effect [OF P, of ent "ps pr"] P
  by (auto simp: cmd_command_def processRequest_def applied_def Let_def PutData_def DeleteData_def
      split: if_splits)

lemma processAdminRequest_applied:
  assumes P: "pebble_ok P" "healthy P"
    and cmd: "cmd_command cmd = Some c" "rcRequest cmd = None" "rcAdminRequest cmd = Some a"
    and ts: "asTruncatedState (applyState (ps pr)) \<noteq> None"
  shows "\<exists>pr'. processAdminRequest P a (pr\<lparr>ps := mark_applied P ent (ps pr)\<rparr>) = Some pr' \<and>
    applied P ent c (ps pr) (ps pr') \<and>
    (gc_tasks pr' = gc_tasks pr \<and> lastCompactedIdx pr' = lastCompactedIdx pr \<or>
     (\<exists>i t. c = CCompact i t \<and> trunc (ps pr) \<le> i \<and> lastCompactedIdx pr' = i \<and>
       gc_tasks pr' = gc_tasks pr @ [(lastCompactedIdx pr + 1, i + 1)]))"
proof (cases "arCmdType a = AdminCmdType_CompactLog")
  case False
  with cmd show ?thesis
    by (simp add: cmd_command_def processAdminRequest_def applied_def mark_applied_effect [OF P])
next
  case True
  let ?s = "mark_applied P ent (ps pr)"
  obtain cl where cl: "arCompactLog a = Some cl" "c = CCompact (clCompactIndex cl) (clCompactTerm cl)"
    using cmd True by (auto simp: cmd_command_def)
  obtain t where t: "asTruncatedState (applyState (ps pr)) = Some t" using ts by auto
  then have t': "asTruncatedState (applyState ?s) = Some t" by (simp add: mark_applied_effect [OF P])
  show ?thesis
  proof (cases "clCompactIndex cl \<ge> tsIndex t")
    case False
    then have "processAdminRequest P a (pr\<lparr>ps := ?s\<rparr>) = Some (pr\<lparr>ps := ?s\<rparr>)"
      using True cl t' by (simp add: processAdminRequest_def GetCompactLog_def)
    then show ?thesis
      using False cl t by (simp add: applied_def mark_applied_effect [OF P] compact_state_def)
  next
    case ge: True
    let ?s1 = "?s\<lparr>applyState := (applyState ?s)\<lparr>asTruncatedState :=
      Some \<lparr>tsIndex = clCompactIndex cl, tsTerm = clCompactTerm cl\<rparr>\<rparr>\<rparr>"
    let ?pr = "pr\<lparr>ps := snd (writeApplyState P (applyState ?s1) ?s1),
      gc_tasks := gc_tasks pr @ [(lastCompactedIdx pr + 1, clCompactIndex cl + 1)],
      lastCompactedIdx := clCompactIndex cl\<rparr>"
    have "processAdminRequest P a (pr\<lparr>ps := ?s\<rparr>) = Some ?pr"
      using True ge cl t' by (simp add: processAdminRequest_def GetCompactLog_def Let_def truncated_update)
    moreover have "applied P ent c (ps pr) (ps ?pr)"
      using ge cl t by (simp add: applied_def Let_def mark_applied_effect [OF P]
          writeState_effect [OF P] compact_state_def)
    ultimately show ?thesis using ge cl t by (auto simp: trunc_state_def)
  qed
qed

theorem process_applied:
  assumes P: "pebble_ok P" "healthy P" and c: "entry_command ent = Some c"
    and ts: "asTruncatedState (applyState (ps pr)) \<noteq> None"
  shows "\<exists>pr'. process P ent pr = Some pr' \<and> applied P ent c (ps pr) (ps pr') \<and>
    (gc_tasks pr' = gc_tasks pr \<and> lastCompactedIdx pr' = lastCompactedIdx pr \<or>
     (\<exists>i t. c = CCompact i t \<and> trunc (ps pr) \<le> i \<and> lastCompactedIdx pr' = i \<and>
       gc_tasks pr' = gc_tasks pr @ [(lastCompactedIdx pr + 1, i + 1)]))"
proof -
  obtain cmd where u: "unmarshal_RaftCmd (slice (eData ent)) = Some cmd" "cmd_command cmd = Some c"
    using c by (auto simp: entry_command_def)
  show ?thesis
  proof (cases "rcRequest cmd")
    case (Some r)
    then show ?thesis
      using processRequest_applied [OF P u(2) Some, where pr = pr and ent = ent] u(1)
      by (auto simp: process_def Let_def)
  next
    case None
    show ?thesis
    proof (cases "rcAdminRequest cmd")
      case (Some a)
      then show ?thesis
        using processAdminRequest_applied [OF P u(2) None Some ts, where ent = ent] u(1) None
        by (auto simp: process_def Let_def)
    next
      case None': None
      then have "c = CNone" using u(2) None by (simp add: cmd_command_def)
      then show ?thesis
        using u(1) None None' mark_applied_effect [OF P, of ent "ps pr"]
        by (simp add: process_def Let_def applied_def)
    qed
  qed
qed

text \<open>A compaction that is not behind the truncated index starts a collector.\<close>

lemma process_collects:
  assumes "entry_command ent = Some (CCompact i t)" "process P ent pr = Some pr'"
    and "asTruncatedState (applyState (ps pr)) \<noteq> None" "trunc (ps pr) \<le> i"
  shows "gc_tasks pr' = gc_tasks pr @ [(lastCompactedIdx pr + 1, i + 1)]"
proof -
  obtain cmd where m: "unmarshal_RaftCmd (slice (eData ent)) = Some cmd"
    "cmd_command cmd = Some (CCompact i t)" using assms(1) by (auto simp: entry_command_def)
  have r: "rcRequest cmd = None"
    using m(2) by (cases "rcRequest cmd") (auto simp: cmd_command_def split: if_splits)
  then obtain a cl where u: "rcAdminRequest cmd = Some a" "arCmdType a = AdminCmdType_CompactLog"
    "arCompactLog a = Some cl" "i = clCompactIndex cl"
    using m(2) by (auto simp: cmd_command_def split: option.splits if_splits)
  have "applyState (mark_applied P ent (ps pr)) = (applyState (ps pr))\<lparr>asApplyIndex := eIndex ent\<rparr>"
    by (simp add: mark_applied_def Let_def)
  with m(1) r u assms(2-4) show ?thesis
    by (auto simp: process_def processAdminRequest_def GetCompactLog_def Let_def trunc_state_def)
qed

section \<open>The log under commands\<close>

definition ms_command :: "command \<Rightarrow> MemoryStorage \<Rightarrow> MemoryStorage run" where
  "ms_command c ms =
     (case c of CCompact i t \<Rightarrow> map_option snd (ms_Compact i ms) | _ \<Rightarrow> Some ms)"

text \<open>A compaction that raft agreed on names an index of the log and its term, or one that is
  compacted already.\<close>

definition command_ok :: "command \<Rightarrow> MemoryStorage \<Rightarrow> bool" where
  "command_ok c ms \<longleftrightarrow>
     (case c of CCompact i t \<Rightarrow> i < ms_offset ms \<or> ms_Term i ms = Some (Inr t) | _ \<Rightarrow> True)"

lemma ms_Term_range:
  assumes "refines P s ms" "ms_Term i ms = Some (Inr t)"
  shows "trunc s \<le> i" "i \<le> LastIndex s"
    "eTerm (peer_ents P s ! (unat i - unat (trunc s))) = t"
proof -
  have e: "msEnts ms = peer_ents P s" and ok: "log_ok P s" using assms(1) by (auto simp: refines_def)
  show ge: "trunc s \<le> i"
    using assms(2) by (auto simp: ms_Term_def Let_def refines_offset [OF assms(1)] split: if_splits)
  have "unat (i - trunc s) < Suc (log_size s)"
    using assms(2) by (auto simp: ms_Term_def Let_def refines_offset [OF assms(1)] e split: if_splits)
  then show le: "i \<le> LastIndex s"
    using ge log_ok_last(1) [OF ok] by (simp add: word_sub_unat log_size_def word_le_nat_alt)
  show "eTerm (peer_ents P s ! (unat i - unat (trunc s))) = t"
    using ms_Term_refines [OF assms(1) ge le] assms(2) by simp
qed

lemma ms_Compact_below:
  "i \<le> ms_offset ms \<Longrightarrow> ms_Compact i ms = Some (Some ErrCompacted, ms)"
  by (simp add: ms_Compact_def)

lemma log_entry_apply_key:
  "meta_map P (engines s') = (meta_map P (engines s))(RaftApplyStateKey \<mapsto> v) \<Longrightarrow>
   log_entry P s' = log_entry P s"
  by (rule ext) (simp add: log_entry_def)

lemma log_same:
  assumes "log_entry P s' = log_entry P s" "trunc_state s' = trunc_state s"
    "localState s' = localState s" "asTruncatedState (applyState s') \<noteq> None" "log_ok P s"
  shows "log_ok P s'" "peer_ents P s' = peer_ents P s"
  using assms by (simp_all add: peer_ents_def log_ok_def log_stored_def log_size_def LastIndex_def
      dummy_entry_def)

text \<open>Raising the truncated index to \<open>i\<close>: the log from \<open>i\<close> on is left.\<close>

lemma compacted_log:
  assumes ok: "log_ok P s" and i: "trunc s \<le> i" "i \<le> LastIndex s"
    and t: "eTerm (peer_ents P s ! (unat i - unat (trunc s))) = t"
    and s': "log_entry P s' = log_entry P s" "localState s' = localState s"
      "asTruncatedState (applyState s') = Some \<lparr>tsIndex = i, tsTerm = t\<rparr>"
  shows "log_ok P s' \<and> peer_ents P s' =
    zero_Entry\<lparr>eIndex := i, eTerm := t\<rparr> # drop (Suc (unat i - unat (trunc s))) (peer_ents P s)"
proof -
  let ?k = "unat i - unat (trunc s)"
  let ?xs = "zero_Entry\<lparr>eIndex := i, eTerm := t\<rparr> # drop (Suc ?k) (peer_ents P s)"
  have ts: "trunc_state s' = \<lparr>tsIndex = i, tsTerm = t\<rparr>" using s'(3) by (simp add: trunc_state_def)
  have L: "LastIndex s' = LastIndex s" by (simp add: LastIndex_def s'(2))
  have k: "i = trunc s + word_of_nat ?k" "?k < Suc (log_size s)" using log_index [OF ok i] by auto
  have n: "log_size s' = log_size s - ?k" "?k \<le> log_size s"
    using k(2) i by (simp_all add: log_size_def L ts word_le_nat_alt)
  show ?thesis
  proof (rule log_okI)
    show "asTruncatedState (applyState s') \<noteq> None" using s'(3) by simp
    show "trunc s' \<le> LastIndex s'" using i(2) by (simp add: ts L)
    show "LastIndex s' \<noteq> - 1" using ok by (simp add: L log_ok_def)
    have "consecutive (trunc s + word_of_nat (Suc ?k)) (drop (Suc ?k) (peer_ents P s))"
      by (rule consecutive_drop [OF peer_ents_consecutive [OF ok]]) (use n in simp)
    moreover have "trunc s + word_of_nat (Suc ?k) = i + 1"
      by (subst k(1)) (simp add: add.assoc add.commute)
    ultimately have "consecutive (i + 1) (drop (Suc ?k) (peer_ents P s))" by metis
    then show "consecutive (trunc s') ?xs" by (simp add: consecutive_Cons ts)
    show "length ?xs = Suc (log_size s')" using n by simp
    show "?xs ! 0 = dummy_entry s'" by (simp add: dummy_entry_def ts)
    show "eTerm (last ?xs) = lsLastTerm (localState s')"
    proof (cases "?k = log_size s")
      case True
      then show ?thesis using ok t last_conv_nth [of "peer_ents P s"]
        by (simp add: log_ok_def s'(2))
    next
      case False
      then have "Suc ?k < length (peer_ents P s)" using n by simp
      then have "last (drop (Suc ?k) (peer_ents P s)) = last (peer_ents P s)" by (rule last_drop)
      then show ?thesis using ok False n by (simp add: log_ok_def s'(2))
    qed
    fix j assume j: "j < log_size s'"
    let ?i = "trunc s + word_of_nat (?k + Suc j)"
    have e: "trunc s' + word_of_nat (Suc j) = ?i" by (subst ts, subst k(1)) (simp add: algebra_simps)
    have u: "unat ?i = unat (trunc s) + (?k + Suc j)"
      using j n log_ok_last [OF ok] by (intro unat_add_small) (simp add: log_size_def)
    have "t + (k + Suc j) \<le> m" if "j < m - t - k" for t k m :: nat using that by arith
    from this [of "unat (LastIndex s)" "unat (trunc s)" ?k] have "unat ?i \<le> unat (LastIndex s)"
      using j n(1) u by (simp only: log_size_def)
    with u have b: "trunc s < ?i" "?i \<le> LastIndex s"
      by (simp_all add: word_less_nat_alt word_le_nat_alt del: of_nat_Suc of_nat_add)
    obtain x where x: "log_entry P s ?i = Some x" using log_entry_stored(1) [OF ok b] by auto
    have "x = peer_ents P s ! (?k + Suc j)"
      using log_entry_stored(2) [OF ok b] u x by simp
    then show "log_entry P s' (trunc s' + word_of_nat (Suc j)) = Some (?xs ! Suc j)"
      using x j n by (simp only: e s'(1)) simp
  qed
qed

theorem applied_refines:
  assumes ref: "refines P s ms" and c: "command_ok c ms" and ap: "applied P ent c s s'"
  shows "\<exists>ms'. ms_command c ms = Some ms' \<and> refines P s' ms' \<and> msHardState ms' = msHardState ms \<and>
    msSnapshot ms' = msSnapshot ms"
proof -
  have ok: "log_ok P s" and e: "msEnts ms = peer_ents P s" using ref by (auto simp: refines_def)
  have le: "log_entry P s' = log_entry P s"
    using ap by (intro log_entry_apply_key) (simp add: applied_def Let_def)
  have ls: "localState s' = localState s"
    and as: "applyState s' = command_state c ((applyState s)\<lparr>asApplyIndex := eIndex ent\<rparr>)"
    using ap by (simp_all add: applied_def Let_def)
  have same: ?thesis if "command_state c ((applyState s)\<lparr>asApplyIndex := eIndex ent\<rparr>) =
      (applyState s)\<lparr>asApplyIndex := eIndex ent\<rparr>" "ms_command c ms = Some ms"
  proof -
    have "trunc_state s' = trunc_state s" "asTruncatedState (applyState s') \<noteq> None"
      using as that(1) ok by (simp_all add: trunc_state_def log_ok_def)
    from log_same [OF le this(1) ls this(2) ok] that(2) e show ?thesis by (simp add: refines_def)
  qed
  show ?thesis
  proof (cases c)
    case (CCompact i t)
    show ?thesis
    proof (cases "i < trunc s")
      case True
      then have "\<not> i \<ge> trunc s" by simp
      then show ?thesis
        using True CCompact log_ok_state [OF ok]
        by (intro same) (simp_all add: compact_state_def ms_command_def ms_Compact_below
            refines_offset [OF ref])
    next
      case False
      then have T: "ms_Term i ms = Some (Inr t)"
        using c CCompact refines_offset [OF ref] by (simp add: command_ok_def)
      note r = ms_Term_range [OF ref T]
      have a': "asTruncatedState (applyState s') = Some \<lparr>tsIndex = i, tsTerm = t\<rparr>"
        using r(1) as CCompact log_ok_state [OF ok] by (simp add: compact_state_def)
      note cl = compacted_log [OF ok r(1,2,3) le ls a']
      let ?k = "unat i - unat (trunc s)"
      have k: "?k < length (peer_ents P s)" using log_index(2) [OF ok r(1,2)] by simp
      show ?thesis
      proof (cases "i = trunc s")
        case True
        have "peer_ents P s' = peer_ents P s"
          using cl True r(3) by (simp add: peer_ents_def dummy_entry_def)
        then show ?thesis
          using cl True CCompact e
          by (simp add: ms_command_def ms_Compact_below refines_offset [OF ref] refines_def)
      next
        case False
        have ei: "eIndex (peer_ents P s ! ?k) = i"
          using peer_ents_consecutive [OF ok] k log_index(1) [OF ok r(1,2)]
          by (simp add: consecutive_def)
        have "unat (i - trunc s) = ?k" using r(1) by (rule word_sub_unat)
        then have "ms_Compact i ms = Some (None, ms\<lparr>msEnts :=
            zero_Entry\<lparr>eIndex := i, eTerm := t\<rparr> # drop (Suc ?k) (peer_ents P s)\<rparr>)"
          using False r ei
          by (simp add: ms_Compact_def Let_def refines_offset [OF ref] refines_lastIndex [OF ref]
              e not_le order.strict_iff_order)
        then show ?thesis using cl CCompact by (simp add: ms_command_def refines_def)
      qed
    qed
  qed (rule same; simp add: ms_command_def)+
qed

end
