(* ===== verification/Peer_Ready.thy ===== *)
theory Peer_Ready
  imports Peer_Apply
begin

text \<open>
  The peer's loop on whole batches: saving, applying and compaction together keep the peer in
  step with a memory storage and a key-value map, everything a restart needs is on disk, and
  the tasks that should remove compacted entries never remove one.
\<close>

section \<open>All committed entries\<close>

fun ms_commands :: "command list \<Rightarrow> MemoryStorage \<Rightarrow> MemoryStorage run" where
  "ms_commands [] ms = Some ms"
| "ms_commands (c # cs) ms = Option.bind (ms_command c ms) (ms_commands cs)"

text \<open>Every compaction names an index of the log as it is by then.\<close>

fun commands_ok :: "command list \<Rightarrow> MemoryStorage \<Rightarrow> bool" where
  "commands_ok [] ms \<longleftrightarrow> True"
| "commands_ok (c # cs) ms \<longleftrightarrow>
     command_ok c ms \<and> (case ms_command c ms of None \<Rightarrow> False | Some ms' \<Rightarrow> commands_ok cs ms')"

text \<open>The tasks started so far end at an index that is compacted.\<close>

definition gc_bounded :: "('d, 'n, 'w) peer \<Rightarrow> bool" where
  "gc_bounded pr \<longleftrightarrow> list_all (\<lambda>(start, till). till - 1 \<le> trunc (ps pr)) (gc_tasks pr)"

lemma applied_trunc:
  assumes "applied P ent c s s'" "asTruncatedState (applyState s) \<noteq> None"
  shows "trunc s \<le> trunc s'" "asTruncatedState (applyState s') \<noteq> None"
    "c = CCompact i t \<Longrightarrow> trunc s \<le> i \<Longrightarrow> trunc s' = i"
  using assms
  by (cases c; auto simp: applied_def Let_def trunc_state_def compact_state_def)+

lemma applied_keys:
  assumes "applied P ent c s s'" "healthy P" "others_persisted P s"
  shows "others_persisted P s'"
    "InitRaftLocalState P (engines s') = InitRaftLocalState P (engines s)"
proof -
  have m: "meta_map P (engines s') =
      (meta_map P (engines s))(RaftApplyStateKey \<mapsto> marshal_ApplyState (applyState s'))"
    and f: "confState s' = confState s" "localState s' = localState s"
    using assms(1) by (simp_all add: applied_def Let_def)
  show "InitRaftLocalState P (engines s') = InitRaftLocalState P (engines s)"
    by (rule Init_cong(1) [OF assms(2)]) (simp add: m)
  have "InitRaftConfState P (engines s') = InitRaftConfState P (engines s)"
    by (rule Init_cong(3) [OF assms(2)]) (simp add: m)
  then show "others_persisted P s'"
    using assms(3) f by (simp add: others_persisted_def apply_state_written m)
qed

lemma applied_fields:
  "applied P ent c s s' \<Longrightarrow> localState s' = localState s"
  "applied P ent c s s' \<Longrightarrow> confState s' = confState s"
  "applied P ent c s s' \<Longrightarrow> kv_map P (engines s') = apply_command c (kv_map P (engines s))"
  by (simp_all add: applied_def Let_def)

lemma applied_index: "applied P ent c s s' \<Longrightarrow> AppliedIndex s' = eIndex ent"
  by (cases c) (simp_all add: applied_def Let_def AppliedIndex_def compact_state_def split: option.split)

theorem process_all_refines:
  assumes P: "pebble_ok P" "healthy P"
  shows "refines P (ps pr) ms \<Longrightarrow> others_persisted P (ps pr) \<Longrightarrow> gc_bounded pr \<Longrightarrow>
    map entry_command ents = map Some cs \<Longrightarrow> commands_ok cs ms \<Longrightarrow>
    \<exists>pr' ms'. process_all P ents pr = Some pr' \<and> ms_commands cs ms = Some ms' \<and>
      refines P (ps pr') ms' \<and> msHardState ms' = msHardState ms \<and> msSnapshot ms' = msSnapshot ms \<and>
      kv_map P (engines (ps pr')) = fold apply_command cs (kv_map P (engines (ps pr))) \<and>
      localState (ps pr') = localState (ps pr) \<and> others_persisted P (ps pr') \<and>
      InitRaftLocalState P (engines (ps pr')) = InitRaftLocalState P (engines (ps pr)) \<and>
      AppliedIndex (ps pr') = (if ents = [] then AppliedIndex (ps pr) else eIndex (last ents)) \<and>
      gc_bounded pr'"
proof (induction ents arbitrary: pr ms cs)
  case Nil
  then show ?case by auto
next
  case (Cons ent ents)
  then obtain c cs' where cs: "cs = c # cs'" "entry_command ent = Some c"
    "map entry_command ents = map Some cs'" by auto
  have ts: "asTruncatedState (applyState (ps pr)) \<noteq> None"
    using Cons.prems(1) by (simp add: refines_def log_ok_def)
  obtain pr1 where p: "process P ent pr = Some pr1" and ap: "applied P ent c (ps pr) (ps pr1)"
    and gc: "gc_tasks pr1 = gc_tasks pr \<or> (\<exists>i t. c = CCompact i t \<and> trunc (ps pr) \<le> i \<and>
      gc_tasks pr1 = gc_tasks pr @ [(lastCompactedIdx pr + 1, i + 1)])"
    using process_applied [OF P cs(2) ts] by blast
  obtain ms1 where m: "ms_command c ms = Some ms1" "refines P (ps pr1) ms1"
    "msHardState ms1 = msHardState ms" "msSnapshot ms1 = msSnapshot ms"
    using applied_refines [OF Cons.prems(1) _ ap] Cons.prems(5) cs(1) by auto
  have g1: "gc_bounded pr1"
  proof -
    have "list_all (\<lambda>(start, till). till - 1 \<le> trunc (ps pr1)) (gc_tasks pr)"
      using Cons.prems(3) applied_trunc(1) [OF ap ts] unfolding gc_bounded_def
      by (elim list.pred_mono_strong) (auto intro: order_trans)
    then show ?thesis using gc applied_trunc(3) [OF ap ts] by (auto simp: gc_bounded_def)
  qed
  have c1: "commands_ok cs' ms1" using Cons.prems(5) cs(1) m(1) by simp
  have o1: "others_persisted P (ps pr1)" using applied_keys(1) [OF ap P(2) Cons.prems(2)] .
  from Cons.IH [OF m(2) o1 g1 cs(3) c1] obtain pr' ms' where
    ih: "process_all P ents pr1 = Some pr'" "ms_commands cs' ms1 = Some ms'"
      "refines P (ps pr') ms'" "msHardState ms' = msHardState ms1" "msSnapshot ms' = msSnapshot ms1"
      "kv_map P (engines (ps pr')) = fold apply_command cs' (kv_map P (engines (ps pr1)))"
      "localState (ps pr') = localState (ps pr1)" "others_persisted P (ps pr')"
      "InitRaftLocalState P (engines (ps pr')) = InitRaftLocalState P (engines (ps pr1))"
      "AppliedIndex (ps pr') = (if ents = [] then AppliedIndex (ps pr1) else eIndex (last ents))"
      "gc_bounded pr'" by blast
  show ?case
    using ih p m cs(1) applied_fields [OF ap] applied_index [OF ap]
      applied_keys(2) [OF ap P(2) Cons.prems(2)]
    by auto
qed

section \<open>The garbage collector\<close>

text \<open>
  A task reads its entries through \<^verbatim>\<open>Entries\<close>, which refuses every index up to the truncated
  one; and the truncated index is raised before the task is started.
\<close>

lemma gcRaftLog_noop:
  assumes "asTruncatedState (applyState s) \<noteq> None" "till - 1 \<le> trunc s"
  shows "\<exists>er. gcRaftLog P start till s = Some (er, s)"
proof -
  obtain ts where ts: "asTruncatedState (applyState s) = Some ts" using assms(1) by auto
  have t: "truncateIndex s = Some (trunc s)" by (simp add: truncateIndex_def trunc_state_def ts)
  consider "start > till" | "start \<le> till" "till > lsLastIndex (localState s) + 1"
    | "start \<le> till" "till \<le> lsLastIndex (localState s) + 1" "start \<le> trunc s"
    | "start \<le> till" "till \<le> lsLastIndex (localState s) + 1" "trunc s < start"
    by (meson not_le)
  then show ?thesis
  proof cases
    case 4
    have "start = till"
    proof -
      have "till \<noteq> 0" using 4 by auto
      then have "unat (till - 1) = unat till - 1" by (simp add: unat_minus_one)
      then have "unat till \<le> unat start"
        using 4(3) assms(2) \<open>till \<noteq> 0\<close> by (simp add: word_less_nat_alt word_le_nat_alt)
      with 4(1) show ?thesis by (simp add: word_le_nat_alt word_unat_eq_iff)
    qed
    with 4 t show ?thesis by (simp add: gcRaftLog_def Entries_def checkRange_def)
  qed (use t in \<open>simp_all add: gcRaftLog_def Entries_def checkRange_def not_less\<close>)
qed

lemma run_gc_task_noop:
  assumes "asTruncatedState (applyState (ps pr)) \<noteq> None" "gc_bounded pr"
  shows "\<exists>pr'. run_gc_task P k pr = Some pr' \<and> ps pr' = ps pr \<and> gc_bounded pr'"
proof (cases "k < length (gc_tasks pr)")
  case True
  obtain start till where st: "gc_tasks pr ! k = (start, till)" by (metis prod.exhaust)
  have "(start, till) \<in> set (gc_tasks pr)" using True st by (metis nth_mem)
  then have "till - 1 \<le> trunc (ps pr)" using assms(2) by (auto simp: gc_bounded_def list_all_iff)
  with assms(1) obtain er where "gcRaftLog P start till (ps pr) = Some (er, ps pr)"
    using gcRaftLog_noop by blast
  then show ?thesis using True st assms(2)
    by (auto simp: run_gc_task_def gc_bounded_def list_all_iff dest: in_set_takeD in_set_dropD)
next
  case False
  then show ?thesis using assms by (simp add: run_gc_task_def)
qed

section \<open>Proposing a compaction\<close>

text \<open>A leader whose log is consistent never fails to find the term it needs.\<close>

lemma onLogGCTask_returns:
  assumes "log_ok P (ps pr)" "AppliedIndex (ps pr) \<le> LastIndex (ps pr)"
  shows "onLogGCTask P N pr = Some (
    if isLeader N pr \<and> AppliedIndex (ps pr) > trunc (ps pr) + 1 \<and>
       AppliedIndex (ps pr) - (trunc (ps pr) + 1) \<ge> defaultLogGCCountLimit
    then (let i = AppliedIndex (ps pr) - 1 in
          snd (propose N (NewCompactCmdRequest i
            (eTerm (peer_ents P (ps pr) ! (unat i - unat (trunc (ps pr)))))) pr))
    else pr)"
proof -
  let ?a = "AppliedIndex (ps pr)" and ?s = "ps pr"
  have f: "FirstIndex ?s = Some (trunc ?s + 1)" using assms(1) by (simp add: FirstIndex_def)
  let ?ms = "NewMemoryStorage\<lparr>msEnts := peer_ents P ?s\<rparr>"
  have r: "refines P ?s ?ms" using assms(1) by (simp add: refines_def)
  have T: "Term P (?a - 1) ?s = Some (Inr (eTerm (peer_ents P ?s ! (unat (?a - 1) - unat (trunc ?s)))))"
    if "?a > trunc ?s + 1"
  proof -
    have "?a \<noteq> 0" using that by auto
    then have u: "unat (?a - 1) = unat ?a - 1" by (simp add: unat_minus_one)
    have "unat (trunc ?s + 1) = Suc (unat (trunc ?s))"
      using log_ok_last [OF assms(1)] by (simp add: unat_add_small [of _ 1, simplified])
    then have b: "trunc ?s \<le> ?a - 1" "?a - 1 \<le> LastIndex ?s"
      using that assms(2) u by (simp_all add: word_less_nat_alt word_le_nat_alt)
    show ?thesis using Term_refines [OF r b] ms_Term_refines [OF r b] by simp
  qed
  show ?thesis by (auto simp: onLogGCTask_def f Let_def T)
qed

section \<open>A whole batch\<close>

text \<open>
  The invariant of a peer, against a memory storage \<open>ms\<close>: the log and the hard state are the
  memory storage's, everything is on disk, and no task can reach an entry that is needed.
\<close>

definition peer_ok :: "'d pebble \<Rightarrow> ('d, 'n, 'w) peer \<Rightarrow> MemoryStorage \<Rightarrow> bool" where
  "peer_ok P pr ms \<longleftrightarrow>
     refines P (ps pr) ms \<and> lsHardState (localState (ps pr)) = Some (msHardState ms) \<and>
     persisted P (ps pr) \<and> gc_bounded pr"

text \<open>What raft promises of a batch: it can be saved, a snapshot is not behind the compacted
  part of the log, and the committed entries are commands, the compactions among them on
  indexes of the log.\<close>

definition batch_ok ::
    "bytes \<Rightarrow> Ready \<Rightarrow> command list \<Rightarrow> 'd peerStorage \<Rightarrow> MemoryStorage \<Rightarrow> bool" where
  "batch_ok spare rd cs s ms \<longleftrightarrow>
     ready_ok spare rd s ms \<and>
     (\<not> IsEmptySnap (rdSnapshot rd) \<longrightarrow> trunc s \<le> smIndex (snMetadata (rdSnapshot rd))) \<and>
     map entry_command (rdCommittedEntries rd) = map Some cs \<and>
     (case ms_save rd ms of None \<Rightarrow> False | Some ms' \<Rightarrow> commands_ok cs ms')"

text \<open>The memory storage's and the map's side of a batch.\<close>

definition ms_batch :: "Ready \<Rightarrow> command list \<Rightarrow> MemoryStorage \<Rightarrow> MemoryStorage run" where
  "ms_batch rd cs ms = Option.bind (ms_save rd ms) (ms_commands cs)"

definition map_batch ::
    "bytes \<Rightarrow> Ready \<Rightarrow> command list \<Rightarrow> (bytes \<Rightarrow> bytes option) \<Rightarrow> bytes \<Rightarrow> bytes option" where
  "map_batch spare rd cs m = fold apply_command cs (m ++ batch_map spare rd)"

text \<open>The applied index after a batch.\<close>

definition batch_applied :: "Ready \<Rightarrow> u64 \<Rightarrow> u64" where
  "batch_applied rd a =
     (if rdCommittedEntries rd \<noteq> [] then eIndex (last (rdCommittedEntries rd))
      else if \<not> IsEmptySnap (rdSnapshot rd) then smIndex (snMetadata (rdSnapshot rd))
      else a)"

lemma ready_to_batch: "persisted P s \<Longrightarrow> others_persisted P s"
  by (simp add: persisted_def others_persisted_def)

theorem handleReady_refines:
  assumes P: "pebble_ok P" "healthy P" and inv: "peer_ok P pr ms"
    and b: "batch_ok spare rd cs (ps pr) ms"
  shows "\<exists>pr' ms'. handleReady P N G spare rd pr = Some pr' \<and> ms_batch rd cs ms = Some ms' \<and>
    peer_ok P pr' ms' \<and>
    kv_map P (engines (ps pr')) = map_batch spare rd cs (kv_map P (engines (ps pr))) \<and>
    AppliedIndex (ps pr') = batch_applied rd (AppliedIndex (ps pr))"
proof -
  have i: "refines P (ps pr) ms" "lsHardState (localState (ps pr)) = Some (msHardState ms)"
    "others_persisted P (ps pr)" "gc_bounded pr"
    using inv by (auto simp: peer_ok_def ready_to_batch)
  have bb: "ready_ok spare rd (ps pr) ms" "map entry_command (rdCommittedEntries rd) = map Some cs"
    using b by (auto simp: batch_ok_def)
  obtain s1 ms1 where s: "saveReadyState P spare rd (ps pr) = Some (None, s1)"
    "ms_save rd ms = Some ms1" "refines P s1 ms1" "lsHardState (localState s1) = Some (msHardState ms1)"
    "persisted P s1" "kv_map P (engines s1) = kv_map P (engines (ps pr)) ++ batch_map spare rd"
    "applyState s1 = batch_state rd (applyState (ps pr))"
    using saveReadyState_refines [OF P i(1) bb(1) i(3,2)] by blast
  obtain pr1 where h: "handleReady_save P spare rd pr = Some pr1" "ps pr1 = s1"
    "gc_tasks pr1 = gc_tasks pr"
    using s(1) by (simp add: handleReady_save_def)
  let ?pr2 = "(signal rd pr1)\<lparr>router := sendRaftMsgs G (rdMessages rd) (router (signal rd pr1))\<rparr>"
  have p2: "ps ?pr2 = s1" "gc_tasks ?pr2 = gc_tasks pr"
    using h by (simp_all add: signal_def)
  have "trunc (ps pr) \<le> trunc s1"
    using b s(7) by (auto simp: batch_ok_def batch_state_def trunc_state_def snapshot_state_def)
  then have g: "gc_bounded ?pr2"
    using i(4) p2 unfolding gc_bounded_def
    by (auto elim!: list.pred_mono_strong intro: order_trans)
  have c: "commands_ok cs ms1" using b s(2) by (simp add: batch_ok_def)
  have r2: "refines P (ps ?pr2) ms1" using s(3) p2 by simp
  have o2: "others_persisted P (ps ?pr2)" using s(5) p2 by (simp add: ready_to_batch)
  from process_all_refines [OF P r2 o2 g bb(2) c] obtain pr3 ms3 where
    q: "process_all P (rdCommittedEntries rd) ?pr2 = Some pr3" "ms_commands cs ms1 = Some ms3"
      "refines P (ps pr3) ms3" "msHardState ms3 = msHardState ms1"
      "kv_map P (engines (ps pr3)) = fold apply_command cs (kv_map P (engines (ps ?pr2)))"
      "localState (ps pr3) = localState (ps ?pr2)" "others_persisted P (ps pr3)"
      "InitRaftLocalState P (engines (ps pr3)) = InitRaftLocalState P (engines (ps ?pr2))"
      "AppliedIndex (ps pr3) = (if rdCommittedEntries rd = [] then AppliedIndex (ps ?pr2)
        else eIndex (last (rdCommittedEntries rd)))" "gc_bounded pr3"
    by blast
  let ?pr' = "pr3\<lparr>raftGroup := nd_advance N (raftGroup pr3), committing := None\<rparr>"
  have "handleReady P N G spare rd pr = Some ?pr'"
    using h(1) q(1) by (simp add: handleReady_def handleReady_apply_def Let_def)
  moreover have "ms_batch rd cs ms = Some ms3" using s(2) q(2) by (simp add: ms_batch_def)
  moreover have "peer_ok P ?pr' ms3"
    using q s(4,5) p2(1)
    by (simp add: peer_ok_def persisted_def others_persisted_def gc_bounded_def)
  moreover have "kv_map P (engines (ps ?pr')) = map_batch spare rd cs (kv_map P (engines (ps pr)))"
    using q(5) p2(1) s(6) by (simp add: map_batch_def)
  moreover have "AppliedIndex (ps ?pr') = batch_applied rd (AppliedIndex (ps pr))"
    using q(9) p2(1) s(7)
    by (simp add: batch_applied_def AppliedIndex_def batch_state_def snapshot_state_def)
  ultimately show ?thesis by blast
qed

end
