(* ===== verification/Read_Path.thy ===== *)
theory Read_Path
  imports Peer_Ready
begin

text \<open>
  Linearizable reads (\<^verbatim>\<open>raftstore/peer.go\<close>, \<^verbatim>\<open>internal/callback.go\<close>): a read is queued and
  registered with raft under a context of its own; raft answers with the index that the
  applied log must have reached; a goroutine waits for it, reads the key and completes the
  callback.

  A step that waits is a function with a guard beside it (\<open>can_*\<close>): the guard says when the
  waiting is over. The clock is a parameter, in nanoseconds.
\<close>

section \<open>Callbacks\<close>

definition NewCallback :: Callback where
  "NewCallback = \<lparr>cbResp = None, cbDone = 0\<rparr>"

text \<open>Sending on the full channel would wait.\<close>

definition can_Done :: "Callback \<Rightarrow> bool" where
  "can_Done c \<longleftrightarrow> cbDone c < 1"

definition Done :: "RaftCmdResponse option \<Rightarrow> Callback \<Rightarrow> Callback" where
  "Done resp c =
     c\<lparr>cbResp := (case resp of None \<Rightarrow> cbResp c | Some _ \<Rightarrow> resp), cbDone := cbDone c + 1\<rparr>"

definition can_WaitResp :: "Callback \<Rightarrow> bool" where
  "can_WaitResp c \<longleftrightarrow> 0 < cbDone c"

definition WaitResp :: "Callback \<Rightarrow> RaftCmdResponse option \<times> Callback" where
  "WaitResp c = (cbResp c, c\<lparr>cbDone := cbDone c - 1\<rparr>)"

text \<open>With a timeout: whichever comes first, the response is what is there by then.\<close>

definition WaitRespWithTimeout :: "bool \<Rightarrow> Callback \<Rightarrow> RaftCmdResponse option \<times> Callback" where
  "WaitRespWithTimeout timed_out c = (if timed_out then (cbResp c, c) else WaitResp c)"

section \<open>Requests\<close>

definition buildReadCtx :: "u64 \<Rightarrow> bytes \<Rightarrow> bytes" where
  "buildReadCtx now key = put_u64 now @ key"

definition read_key :: "read \<Rightarrow> bytes run" where
  "read_key r = (if length (ctx r) < 8 then panic else Some (drop 8 (ctx r)))"

definition read_timestamp :: "read \<Rightarrow> u64 run" where
  "read_timestamp r = get_u64 (ctx r)"

text \<open>The queue holds 1024 reads; the caller waits while it is full. The result is the number
  of the callback.\<close>

definition can_linearizableRead :: "('d, 'n, 'w) peer \<Rightarrow> bool" where
  "can_linearizableRead pr \<longleftrightarrow> length (readc pr) < 1024"

definition linearizableRead ::
    "'n raft_node \<Rightarrow> u64 \<Rightarrow> bytes \<Rightarrow> ('d, 'n, 'w) peer \<Rightarrow> (nat \<times> ('d, 'n, 'w) peer) run" where
  "linearizableRead N now key pr =
     (let c = buildReadCtx now key; n = length (callbacks pr);
          pr1 = pr\<lparr>callbacks := callbacks pr @ [NewCallback],
                   readc := readc pr @ [\<lparr>ctx = c, cb = n\<rparr>]\<rparr>
      in case nd_readIndex N c (raftGroup pr1) of
           (Some er, g) \<Rightarrow> panic
         | (None, g) \<Rightarrow> Some (n, pr1\<lparr>raftGroup := g\<rparr>))"

section \<open>Matching read states\<close>

definition read_timeout :: int where
  "read_timeout = 15000000000"

text \<open>\<open>clock n\<close> is the time read when \<open>n\<close> reads are still to be looked at.\<close>

definition still_fresh :: "(nat \<Rightarrow> u64) \<Rightarrow> nat \<Rightarrow> read \<Rightarrow> bool run" where
  "still_fresh clock n r =
     map_option (\<lambda>ts. sint (clock n - ts) < read_timeout) (read_timestamp r)"

text \<open>The loop of \<^verbatim>\<open>handleReadState\<close>: the read it stops at, or the last one, and the queue.\<close>

fun drain ::
    "(nat \<Rightarrow> u64) \<Rightarrow> (bytes \<Rightarrow> ReadState option) \<Rightarrow> nat \<Rightarrow> read list \<Rightarrow> read option
     \<Rightarrow> (read option \<times> read list) run" where
  "drain clock t 0 q r = Some (r, q)"
| "drain clock t (Suc n) [] r = Some (r, [])"
| "drain clock t (Suc n) (x # q) r =
     (if t (ctx x) \<noteq> None then Some (Some x, q)
      else do {
        fresh \<leftarrow> still_fresh clock (Suc n) x;
        drain clock t n (if fresh then q @ [x] else q) (Some x)
      })"

definition zero_ReadState :: ReadState where
  "zero_ReadState = \<lparr>rsIndex = 0, rsRequestCtx = []\<rparr>"

definition can_handleReadState :: "('d, 'n, 'w) peer \<Rightarrow> bool" where
  "can_handleReadState pr \<longleftrightarrow> 0 < readStateComing pr"

definition handleReadState :: "(nat \<Rightarrow> u64) \<Rightarrow> ('d, 'n, 'w) peer \<Rightarrow> ('d, 'n, 'w) peer run" where
  "handleReadState clock pr =
     do {
       (r, q) \<leftarrow> drain clock (readStateTable pr) (length (readc pr)) (readc pr) None;
       case r of
         None \<Rightarrow> panic
       | Some x \<Rightarrow>
           Some (pr\<lparr>readStateComing := readStateComing pr - 1, readc := q,
             readStateTable := (readStateTable pr)(ctx x := None),
             read_tasks := read_tasks pr @
               [(case readStateTable pr (ctx x) of None \<Rightarrow> zero_ReadState | Some st \<Rightarrow> st, x)]\<rparr>)
     }"

section \<open>Serving a read\<close>

text \<open>The goroutine of the \<open>k\<close>-th task: it waits until the applied index has reached the state's.\<close>

definition can_readApplied :: "nat \<Rightarrow> ('d, 'n, 'w) peer \<Rightarrow> bool" where
  "can_readApplied k pr \<longleftrightarrow>
     k < length (read_tasks pr) \<and>
     (case read_tasks pr ! k of (st, r) \<Rightarrow>
       AppliedIndex (ps pr) \<ge> rsIndex st \<and>
       cb r < length (callbacks pr) \<and> can_Done (callbacks pr ! cb r))"

definition read_response :: "'d pebble \<Rightarrow> read \<Rightarrow> 'd peerStorage \<Rightarrow> RaftCmdResponse run" where
  "read_response P r s =
     do {
       key \<leftarrow> read_key r;
       case ReadKV P key (engines s) of
         Inr v \<Rightarrow> Some (NewGetCmdResponse v)
       | Inl er \<Rightarrow> if er \<noteq> ErrNotFound then panic else Some (NewGetCmdResponse None)
     }"

definition readApplied :: "'d pebble \<Rightarrow> nat \<Rightarrow> ('d, 'n, 'w) peer \<Rightarrow> ('d, 'n, 'w) peer run" where
  "readApplied P k pr =
     (case read_tasks pr ! k of (st, r) \<Rightarrow>
       do {
         resp \<leftarrow> read_response P r (ps pr);
         Some (pr\<lparr>callbacks := (callbacks pr)[cb r := Done (Some resp) (callbacks pr ! cb r)],
           read_tasks := take k (read_tasks pr) @ drop (Suc k) (read_tasks pr)\<rparr>)
       })"

section \<open>What a read returns\<close>

lemma read_key_ctx [simp]: "ctx r = buildReadCtx now key \<Longrightarrow> read_key r = Some key"
  by (simp add: read_key_def buildReadCtx_def)

lemma read_timestamp_ctx [simp]: "ctx r = buildReadCtx now key \<Longrightarrow> read_timestamp r = Some now"
  by (simp add: read_timestamp_def buildReadCtx_def)

lemma read_response_value:
  assumes "healthy P" "ctx r = buildReadCtx now key"
  shows "read_response P r s =
    Some (NewGetCmdResponse (Option.bind (kv_map P (engines s) key) nil_if_empty))"
  by (simp add: read_response_def read_key_ctx [OF assms(2)] ReadKV_healthy [OF assms(1)]
      split: option.split)

text \<open>The first queued read that raft has answered is the one served, with its own state. Of those
  before it the ones that are fresh when they are looked at go to the end of the queue.\<close>

lemma drain_first_match:
  assumes "t (ctx x) \<noteq> None" "list_all (\<lambda>y. t (ctx y) = None \<and> read_timestamp y \<noteq> None) xs"
    "length xs < n"
  shows "drain clock t n (xs @ x # ys) r =
    Some (Some x, ys @ map snd (filter (\<lambda>(i, y). still_fresh clock (n + k - i) y = Some True) (enumerate k xs)))"
  using assms(2,3)
proof (induction xs arbitrary: n k ys r)
  case Nil
  then obtain m where "n = Suc m" by (cases n) auto
  then show ?case using assms(1) by simp
next
  case (Cons y xs)
  then obtain m where m: "n = Suc m" "length xs < m" by (cases n) auto
  obtain fr where fr: "still_fresh clock n y = Some fr"
    using Cons.prems(1) by (auto simp: still_fresh_def)
  show ?case
    using Cons.IH [OF _ m(2), of "if fr then ys @ [y] else ys" "Some y" "Suc k"] Cons.prems(1) m(1) fr
    by (cases fr) simp_all
qed

text \<open>When raft has answered none of the queued reads, the last one looked at is taken all the
  same.\<close>

lemma drain_no_match:
  assumes "list_all (\<lambda>y. t (ctx y) = None \<and> read_timestamp y \<noteq> None) q" "q \<noteq> []"
  shows "\<exists>q'. drain clock t (length q) q r = Some (Some (last q), q')"
proof -
  have "\<exists>q'. drain clock t (length xs) (xs @ ys) r = Some (if xs = [] then r else Some (last xs), q')"
    if "list_all (\<lambda>y. t (ctx y) = None \<and> read_timestamp y \<noteq> None) xs" for xs ys r
    using that
  proof (induction xs arbitrary: ys r)
    case (Cons y xs)
    obtain fr where fr: "still_fresh clock (Suc (length xs)) y = Some fr"
      using Cons.prems by (auto simp: still_fresh_def)
    show ?case
      using Cons.IH [of "if fr then ys @ [y] else ys" "Some y"] Cons.prems fr
      by (auto split: if_splits)
  qed simp
  from this [OF assms(1), of "[]" r] show ?thesis using assms(2) by simp
qed

text \<open>One signal, three cases: the first answered read is served under its own state; with no
  answered read in the queue the last one is served under the zero state, so without waiting;
  with an empty queue the loop dereferences nil.\<close>

lemma handleReadState_match:
  assumes "readc pr = xs @ x # ys" "readStateTable pr (ctx x) = Some st"
    "list_all (\<lambda>y. readStateTable pr (ctx y) = None \<and> read_timestamp y \<noteq> None) xs"
  shows "\<exists>pr'. handleReadState clock pr = Some pr' \<and>
    readc pr' = ys @ map snd
      (filter (\<lambda>(i, y). still_fresh clock (length (readc pr) - i) y = Some True) (enumerate 0 xs)) \<and>
    read_tasks pr' = read_tasks pr @ [(st, x)] \<and>
    readStateTable pr' = (readStateTable pr)(ctx x := None)"
  using drain_first_match [of "readStateTable pr" x xs "length (readc pr)" clock ys None 0] assms
  by (simp add: handleReadState_def)

lemma handleReadState_unmatched:
  assumes "readc pr \<noteq> []"
    "list_all (\<lambda>y. readStateTable pr (ctx y) = None \<and> read_timestamp y \<noteq> None) (readc pr)"
  shows "\<exists>pr'. handleReadState clock pr = Some pr' \<and> ps pr' = ps pr \<and> callbacks pr' = callbacks pr \<and>
    read_tasks pr' = read_tasks pr @ [(zero_ReadState, last (readc pr))]"
proof -
  obtain q' where "drain clock (readStateTable pr) (length (readc pr)) (readc pr) None =
      Some (Some (last (readc pr)), q')"
    using drain_no_match [OF assms(2,1), of clock None] by auto
  moreover have "readStateTable pr (ctx (last (readc pr))) = None"
    using assms by (simp add: list_all_iff)
  ultimately show ?thesis by (simp add: handleReadState_def)
qed

lemma handleReadState_empty: "readc pr = [] \<Longrightarrow> handleReadState clock pr = panic"
  by (simp add: handleReadState_def)

end
