(* ===== verification/Store_Api.thy ===== *)
theory Store_Api
  imports Read_Path
begin

text \<open>
  The store behind the HTTP interface: the raft store (\<^verbatim>\<open>raftstore/raftstore.go\<close>), the memory
  store (\<^verbatim>\<open>store/store_memory.go\<close>), the choice between them (\<^verbatim>\<open>store/store.go\<close>) and the request
  handlers (\<^verbatim>\<open>api/server.go\<close>, \<^verbatim>\<open>api/result.go\<close>, \<^verbatim>\<open>model\<close>). HTTP and JSON are libraries: a
  handler starts from the query parameter or from the outcome of binding the request body, and
  ends with the result object it hands to the encoder.
\<close>

section \<open>The raft store\<close>

definition RaftStore_Set ::
    "'n raft_node \<Rightarrow> bytes \<Rightarrow> bytes \<Rightarrow> ('d, 'n, 'w) peer \<Rightarrow> err option \<times> ('d, 'n, 'w) peer" where
  "RaftStore_Set N key val pr = propose N (NewPutCmdRequest key val) pr"

definition RaftStore_Delete ::
    "'n raft_node \<Rightarrow> bytes \<Rightarrow> ('d, 'n, 'w) peer \<Rightarrow> err option \<times> ('d, 'n, 'w) peer" where
  "RaftStore_Delete N key pr = propose N (NewDeleteCmdRequest key) pr"

text \<open>\<^verbatim>\<open>Get\<close> registers a read and waits for at most a second; what it makes of the response.\<close>

definition RaftStore_Get_start ::
    "'n raft_node \<Rightarrow> u64 \<Rightarrow> bytes \<Rightarrow> ('d, 'n, 'w) peer \<Rightarrow> (nat \<times> ('d, 'n, 'w) peer) run" where
  "RaftStore_Get_start N now key pr = linearizableRead N now key pr"

definition RaftStore_Get_end :: "RaftCmdResponse option \<Rightarrow> (err + bytes) run" where
  "RaftStore_Get_end resp =
     (case resp of
        None \<Rightarrow> Some (Inl ErrLostReadResponse)
      | Some rsp \<Rightarrow>
          do {
            response \<leftarrow> GetResponse_of rsp;
            get \<leftarrow> rspGet response;
            Some (case grsValue get of None \<Rightarrow> Inl ErrNotFound | Some v \<Rightarrow> Inr v)
          })"

lemma RaftStore_Get_end_value:
  "RaftStore_Get_end (Some (NewGetCmdResponse v)) =
     Some (case v of None \<Rightarrow> Inl ErrNotFound | Some x \<Rightarrow> Inr x)"
  by (simp add: RaftStore_Get_end_def GetResponse_of_def NewGetCmdResponse_def)

text \<open>The answer of a \<^verbatim>\<open>Get\<close> for what the map holds: an empty value counts as no value.\<close>

definition answer :: "bytes option \<Rightarrow> err + bytes" where
  "answer v =
     (case v of None \<Rightarrow> Inl ErrNotFound | Some x \<Rightarrow> if x = [] then Inl ErrNotFound else Inr x)"

definition served :: "'d pebble \<Rightarrow> u64 \<Rightarrow> bytes \<Rightarrow> nat \<Rightarrow> 'd peerStorage \<Rightarrow> (err + bytes) run" where
  "served P now key n s =
     Option.bind (read_response P \<lparr>ctx = buildReadCtx now key, cb = n\<rparr> s)
       (\<lambda>resp. RaftStore_Get_end (Some resp))"

lemma served_answer:
  "healthy P \<Longrightarrow> served P now key n s = Some (answer (kv_map P (engines s) key))"
  by (auto simp: served_def read_response_value [where now = now and key = key]
      RaftStore_Get_end_value answer_def nil_if_empty_def split: option.split)

lemma process_proposed:
  assumes P: "pebble_ok P" "healthy P" and ts: "asTruncatedState (applyState (ps pr)) \<noteq> None"
    and cmd: "RaftCmd_fits cmd" "cmd_command cmd = Some c"
  shows "\<exists>pr'. process P (ent\<lparr>eData := Some (marshal_RaftCmd cmd)\<rparr>) pr = Some pr' \<and>
    kv_map P (engines (ps pr')) = apply_command c (kv_map P (engines (ps pr))) \<and>
    AppliedIndex (ps pr') = eIndex ent"
proof -
  have "entry_command (ent\<lparr>eData := Some (marshal_RaftCmd cmd)\<rparr>) = Some c"
    using entry_command_proposed [OF cmd(1)] cmd(2) by simp
  from process_applied [OF P this ts] obtain pr' where
    "process P (ent\<lparr>eData := Some (marshal_RaftCmd cmd)\<rparr>) pr = Some pr'"
    "applied P (ent\<lparr>eData := Some (marshal_RaftCmd cmd)\<rparr>) c (ps pr) (ps pr')" by blast
  then show ?thesis using applied_index [of P] by (fastforce simp: applied_def Let_def)
qed

section \<open>The memory store\<close>

text \<open>A Go map from keys to slices; a slice may be nil.\<close>

record memoryStore = db :: "bytes \<Rightarrow> bytes option option"

definition newMemoryStore :: memoryStore where
  "newMemoryStore = \<lparr>db = Map.empty\<rparr>"

definition mem_Set :: "bytes \<Rightarrow> bytes option \<Rightarrow> memoryStore \<Rightarrow> err option \<times> memoryStore" where
  "mem_Set key val s = (None, s\<lparr>db := (db s)(key \<mapsto> val)\<rparr>)"

definition mem_Get :: "bytes \<Rightarrow> memoryStore \<Rightarrow> err + bytes option" where
  "mem_Get key s = (case db s key of Some v \<Rightarrow> Inr v | None \<Rightarrow> Inr None)"

definition mem_Delete :: "bytes \<Rightarrow> memoryStore \<Rightarrow> err option \<times> memoryStore" where
  "mem_Delete key s = (None, s\<lparr>db := (db s)(key := None)\<rparr>)"

section \<open>Choosing the store\<close>

definition nodeMap :: "string \<Rightarrow> u64 option" where
  "nodeMap = [''node1'' \<mapsto> 1, ''node2'' \<mapsto> 2, ''node3'' \<mapsto> 3]"

text \<open>\<^verbatim>\<open>strings.Split\<close> at a one-character separator.\<close>

fun split_at :: "char \<Rightarrow> string \<Rightarrow> string list" where
  "split_at c [] = [[]]"
| "split_at c (x # xs) =
     (if x = c then [] # split_at c xs
      else (case split_at c xs of [] \<Rightarrow> [[x]] | w # ws \<Rightarrow> (x # w) # ws))"

datatype store_kind = MemoryStore | RaftStore u64 string

definition NewStore :: "bool \<Rightarrow> string \<Rightarrow> store_kind" where
  "NewStore memory dataPath =
     (if memory then MemoryStore
      else (let dirs = split_at CHR ''/'' dataPath
            in RaftStore (case nodeMap (last dirs) of Some i \<Rightarrow> i | None \<Rightarrow> 0) dataPath))"

lemma split_at_nonempty [simp]: "split_at c xs \<noteq> []"
  by (induction xs) (auto split: list.splits)

lemma split_at_append: "split_at c (xs @ c # ys) = split_at c xs @ split_at c ys"
  by (induction xs) (auto split: list.splits)

lemma split_at_plain: "c \<notin> set ys \<Longrightarrow> split_at c ys = [ys]"
  by (induction ys) auto

lemma last_split_at: "c \<notin> set ys \<Longrightarrow> last (split_at c (xs @ c # ys)) = ys"
  by (simp add: split_at_append split_at_plain)

section \<open>The interface\<close>

text \<open>
  The contract of \<^verbatim>\<open>Store\<close> that the handlers rely on: \<open>val s\<close> is the map a store \<open>s\<close> stands for;
  the operations report no error and change one key.
\<close>

locale kv_store =
  fixes set_op :: "bytes \<Rightarrow> bytes option \<Rightarrow> 's \<Rightarrow> err option \<times> 's"
    and get_op :: "bytes \<Rightarrow> 's \<Rightarrow> err + bytes option"
    and delete_op :: "bytes \<Rightarrow> 's \<Rightarrow> err option \<times> 's"
    and val :: "'s \<Rightarrow> bytes \<Rightarrow> bytes option"
  assumes set_ok: "fst (set_op k (Some v) s) = None" "val (snd (set_op k (Some v) s)) = (val s)(k \<mapsto> v)"
    and get_ok: "get_op k s = Inr (val s k)"
    and delete_ok: "fst (delete_op k s) = None" "val (snd (delete_op k s)) = (val s)(k := None)"

interpretation memory_kv: kv_store mem_Set mem_Get mem_Delete "\<lambda>s k. Option.bind (db s k) id"
  by unfold_locales
    (auto simp: mem_Set_def mem_Get_def mem_Delete_def fun_eq_iff split: option.split)

section \<open>The handlers\<close>

datatype json_data = NoData | BytesData "bytes option" | TextData string

record JSONResult =
  Code :: int
  Data :: json_data
  Err :: string

record Api_Request =
  reqKey :: bytes
  reqValue :: bytes

text \<open>Error texts: the store's own, and those of the libraries (a parameter).\<close>

definition Error :: "(err \<Rightarrow> string) \<Rightarrow> err \<Rightarrow> string" where
  "Error lib e =
     (case e of
        ErrUnknownModify \<Rightarrow> ''unknown modify type''
      | ErrNotFound \<Rightarrow> ''key does not exist''
      | ErrLostReadResponse \<Rightarrow> ''it lost read response, retry read''
      | _ \<Rightarrow> lib e)"

definition returnError :: "(err \<Rightarrow> string) \<Rightarrow> err \<Rightarrow> JSONResult" where
  "returnError lib e = \<lparr>Code = 1, Data = NoData, Err = Error lib e\<rparr>"

definition returnData :: "json_data \<Rightarrow> JSONResult" where
  "returnData v = \<lparr>Code = 0, Data = v, Err = ''''\<rparr>"

definition doGet ::
    "(err \<Rightarrow> string) \<Rightarrow> (bytes \<Rightarrow> 's \<Rightarrow> err + bytes option) \<Rightarrow> bytes \<Rightarrow> 's \<Rightarrow> JSONResult" where
  "doGet lib get_op key s =
     (case get_op key s of
        Inl e \<Rightarrow> returnError lib e
      | Inr v \<Rightarrow> returnData (BytesData v))"

definition doSet ::
    "(err \<Rightarrow> string) \<Rightarrow> (bytes \<Rightarrow> bytes option \<Rightarrow> 's \<Rightarrow> err option \<times> 's) \<Rightarrow> err + Api_Request \<Rightarrow> 's
     \<Rightarrow> JSONResult \<times> 's" where
  "doSet lib set_op body s =
     (case body of
        Inl e \<Rightarrow> (returnError lib e, s)
      | Inr req \<Rightarrow>
          (case set_op (reqKey req) (Some (reqValue req)) s of
             (Some e, s') \<Rightarrow> (returnError lib e, s')
           | (None, s') \<Rightarrow> (returnData (TextData ''OK''), s')))"

definition doDelete ::
    "(err \<Rightarrow> string) \<Rightarrow> (bytes \<Rightarrow> 's \<Rightarrow> err option \<times> 's) \<Rightarrow> bytes \<Rightarrow> 's \<Rightarrow> JSONResult \<times> 's" where
  "doDelete lib delete_op key s =
     (case delete_op key s of
        (Some e, s') \<Rightarrow> (returnError lib e, s')
      | (None, s') \<Rightarrow> (returnData (TextData ''OK''), s'))"

context kv_store
begin

lemma doSet_ok:
  "doSet lib set_op (Inr req) s = (returnData (TextData ''OK''), snd (set_op (reqKey req) (Some (reqValue req)) s))"
  using set_ok(1) [of "reqKey req" "reqValue req" s]
  by (auto simp: doSet_def split: prod.splits)

lemma doDelete_ok:
  "doDelete lib delete_op k s = (returnData (TextData ''OK''), snd (delete_op k s))"
  using delete_ok(1) [of k s] by (auto simp: doDelete_def split: prod.splits)

lemma doGet_ok: "doGet lib get_op k s = returnData (BytesData (val s k))"
  by (simp add: doGet_def get_ok)

lemma doGet_after_doSet:
  "doGet lib get_op k (snd (doSet lib set_op (Inr req) s)) =
     returnData (BytesData (if k = reqKey req then Some (reqValue req) else val s k))"
  by (simp add: doSet_ok doGet_ok set_ok(2))

lemma doGet_after_doDelete:
  "doGet lib get_op k (snd (doDelete lib delete_op k' s)) =
     returnData (BytesData (if k = k' then None else val s k))"
  by (simp add: doDelete_ok doGet_ok delete_ok(2))

end

text \<open>A body that does not bind changes nothing.\<close>

lemma doSet_bad_body: "doSet lib set_op (Inl e) s = (returnError lib e, s)"
  by (simp add: doSet_def)

end
