(* ===== verification/Save_Steps.thy ===== *)
theory Save_Steps
  imports Ready_Save
begin

text \<open>
  Saving a batch in steps (\<^verbatim>\<open>saveReadyState\<close>, \<^verbatim>\<open>applySnapshot\<close> and \<^verbatim>\<open>truncateAndAppend\<close> of
  \<^verbatim>\<open>raftstore/peer_storage.go\<close>): every write to a database is a step of its own, together with the
  assignments to the states in memory that come right before it. The other goroutines of a peer may
  run, and the process may end, between any two. Undisturbed, the steps are \<open>saveReadyState\<close>.
\<close>

section \<open>Where the save is\<close>

text \<open>
  At the test for a snapshot; in \<^verbatim>\<open>applySnapshot\<close> before the configuration, before the pairs are
  decoded, and in the loop over the pairs; at the start of \<^verbatim>\<open>truncateAndAppend\<close>, in the loop over the
  entries, before the stale indexes are collected, in the loop over them, and before the last index
  and term are set; before the local state is written; at the end.
\<close>

datatype save_pc = SaveStart | SaveConf | SavePairs | PairLoop "Pair list" | SaveLog
  | AppendLoop "Entry list" | SaveStale | DeleteLoop "Entry list" | SaveLast | SaveLocal | SaveDone

definition take_snapshot :: "'d pebble \<Rightarrow> Snapshot \<Rightarrow> 'd peerStorage \<Rightarrow> 'd peerStorage run" where
  "take_snapshot P s ps =
     do {
       ts \<leftarrow> asTruncatedState (applyState ps);
       let m = snMetadata s;
       let ps1 = ps\<lparr>localState := (localState ps)\<lparr>lsLastIndex := smIndex m, lsLastTerm := smTerm m\<rparr>,
                    applyState := \<lparr>asApplyIndex = smIndex m,
                      asTruncatedState = Some (ts\<lparr>tsIndex := smIndex m, tsTerm := smTerm m\<rparr>)\<rparr>\<rparr>;
       Some (snd (writeApplyState P (applyState ps1) ps1))
     }"

definition take_conf :: "'d pebble \<Rightarrow> Snapshot \<Rightarrow> 'd peerStorage \<Rightarrow> 'd peerStorage" where
  "take_conf P s ps = snd (writeConfState P (smConfState (snMetadata s)) (ps\<lparr>confState := smConfState (snMetadata s)\<rparr>))"

definition set_last :: "Entry \<Rightarrow> 'd peerStorage \<Rightarrow> 'd peerStorage" where
  "set_last ent ps = ps\<lparr>localState := (localState ps)\<lparr>lsLastTerm := eTerm ent, lsLastIndex := eIndex ent\<rparr>\<rparr>"

definition save_local :: "'d pebble \<Rightarrow> Ready \<Rightarrow> 'd peerStorage \<Rightarrow> err option \<times> 'd peerStorage" where
  "save_local P rd ps =
     (let ps1 = (if \<not> IsEmptyHardState (rdHardState rd)
                 then ps\<lparr>localState := (localState ps)\<lparr>lsHardState := Some (rdHardState rd)\<rparr>\<rparr>
                 else ps)
      in writeLocalState P (localState ps1) ps1)"

text \<open>An error of a write ends its loop and nothing else: the callers drop it.\<close>

fun save_next ::
    "'d pebble \<Rightarrow> bytes \<Rightarrow> Ready \<Rightarrow> save_pc \<Rightarrow> 'd peerStorage \<Rightarrow> ('d peerStorage \<times> save_pc) run" where
  "save_next P spare rd SaveStart ps =
     (if \<not> IsEmptySnap (rdSnapshot rd) then map_option (\<lambda>ps1. (ps1, SaveConf)) (take_snapshot P (rdSnapshot rd) ps)
      else Some (ps, SaveLog))"
| "save_next P spare rd SaveConf ps = Some (take_conf P (rdSnapshot rd) ps, SavePairs)"
| "save_next P spare rd SavePairs ps =
     map_option (\<lambda>pairs. (ps\<lparr>snapState := (snapState ps)\<lparr>StateType := SnapshotApplying\<rparr>\<rparr>, PairLoop pairs))
       (Decode spare (slice (snData (rdSnapshot rd))))"
| "save_next P spare rd (PairLoop []) ps = Some (ps, SaveLog)"
| "save_next P spare rd (PairLoop (p # pairs)) ps =
     Some (ps\<lparr>engines := snd (WriteKV P (PutData (Key p) (Val p) True) (engines ps))\<rparr>, PairLoop pairs)"
| "save_next P spare rd SaveLog ps =
     (if rdEntries rd = [] then Some (ps, SaveLocal)
      else do {
        firsti \<leftarrow> FirstIndex ps;
        trunc \<leftarrow> truncateIndex ps;
        if firsti > eIndex (last (rdEntries rd)) then Some (ps, SaveLocal)
        else map_option (\<lambda>es. (ps, AppendLoop es)) (drop_compacted firsti trunc (rdEntries rd))
      })"
| "save_next P spare rd (AppendLoop []) ps = Some (ps, SaveStale)"
| "save_next P spare rd (AppendLoop (ent # ents)) ps =
     (case putMeta P (RaftLogEntryKey (eIndex ent)) marshal_Entry ent ps of
        (Some er, ps1) \<Rightarrow> Some (ps1, SaveStale)
      | (None, ps1) \<Rightarrow> Some (ps1, AppendLoop ents))"
| "save_next P spare rd SaveStale ps =
     (if LastIndex ps > eIndex (last (rdEntries rd))
      then map_option (\<lambda>es. (ps, DeleteLoop es)) (stale_entries (eIndex (last (rdEntries rd)) + 1) (LastIndex ps))
      else Some (ps, SaveLast))"
| "save_next P spare rd (DeleteLoop []) ps = Some (ps, SaveLast)"
| "save_next P spare rd (DeleteLoop (ent # ents)) ps =
     (case deleteMeta P (RaftLogEntryKey (eIndex ent)) ps of
        (Some er, ps1) \<Rightarrow> Some (ps1, SaveLast)
      | (None, ps1) \<Rightarrow> Some (ps1, DeleteLoop ents))"
| "save_next P spare rd SaveLast ps = Some (set_last (last (rdEntries rd)) ps, SaveLocal)"
| "save_next P spare rd SaveLocal ps = Some (snd (save_local P rd ps), SaveDone)"
| "save_next P spare rd SaveDone ps = panic"

definition save_step ::
    "'d pebble \<Rightarrow> bytes \<Rightarrow> Ready \<Rightarrow> 'd peerStorage \<times> save_pc \<Rightarrow> 'd peerStorage \<times> save_pc \<Rightarrow> bool" where
  "save_step P spare rd t t' \<longleftrightarrow> (case t of (ps, w) \<Rightarrow> save_next P spare rd w ps = Some t')"

lemma save_stepI: "save_next P spare rd w ps = Some t' \<Longrightarrow> save_step P spare rd (ps, w) t'"
  by (simp add: save_step_def)

section \<open>Undisturbed\<close>

lemma save_steps_trans:
  "save_next P spare rd w ps = Some t \<Longrightarrow> (save_step P spare rd)\<^sup>*\<^sup>* t t' \<Longrightarrow>
   (save_step P spare rd)\<^sup>*\<^sup>* (ps, w) t'"
  using converse_rtranclp_into_rtranclp [of "save_step P spare rd" "(ps, w)" t t'] save_stepI by blast

lemma save_one: "save_next P spare rd w ps = Some t \<Longrightarrow> (save_step P spare rd)\<^sup>*\<^sup>* (ps, w) t"
  by (rule save_steps_trans) auto

lemma PairLoop_steps:
  "(save_step P spare rd)\<^sup>*\<^sup>* (ps, PairLoop pairs) (ps\<lparr>engines := write_pairs P pairs (engines ps)\<rparr>, SaveLog)"
proof (induction pairs arbitrary: ps)
  case Nil
  show ?case by (rule save_one) simp
next
  case (Cons p pairs)
  let ?ps = "ps\<lparr>engines := snd (WriteKV P (PutData (Key p) (Val p) True) (engines ps))\<rparr>"
  have "save_next P spare rd (PairLoop (p # pairs)) ps = Some (?ps, PairLoop pairs)" by simp
  from save_steps_trans [OF this Cons.IH] show ?case by simp
qed

lemma AppendLoop_steps:
  "(save_step P spare rd)\<^sup>*\<^sup>* (ps, AppendLoop es) (snd (appendLogEntries P es ps), SaveStale)"
proof (induction es arbitrary: ps)
  case Nil
  show ?case by (rule save_one) simp
next
  case (Cons e es)
  obtain er ps1 where p: "putMeta P (RaftLogEntryKey (eIndex e)) marshal_Entry e ps = (er, ps1)" by fastforce
  show ?case
  proof (cases er)
    case None
    have "save_next P spare rd (AppendLoop (e # es)) ps = Some (ps1, AppendLoop es)" using p None by simp
    from save_steps_trans [OF this Cons.IH] show ?thesis using p None by simp
  next
    case (Some x)
    have "save_next P spare rd (AppendLoop (e # es)) ps = Some (ps1, SaveStale)" using p Some by simp
    from save_one [OF this] show ?thesis using p Some by simp
  qed
qed

lemma DeleteLoop_steps:
  "(save_step P spare rd)\<^sup>*\<^sup>* (ps, DeleteLoop es) (snd (deleteLogEntries P es ps), SaveLast)"
proof (induction es arbitrary: ps)
  case Nil
  show ?case by (rule save_one) simp
next
  case (Cons e es)
  obtain er ps1 where p: "deleteMeta P (RaftLogEntryKey (eIndex e)) ps = (er, ps1)" by fastforce
  show ?case
  proof (cases er)
    case None
    have "save_next P spare rd (DeleteLoop (e # es)) ps = Some (ps1, DeleteLoop es)" using p None by simp
    from save_steps_trans [OF this Cons.IH] show ?thesis using p None by simp
  next
    case (Some x)
    have "save_next P spare rd (DeleteLoop (e # es)) ps = Some (ps1, SaveLast)" using p Some by simp
    from save_one [OF this] show ?thesis using p Some by simp
  qed
qed

lemma applySnapshot_steps:
  assumes "\<not> IsEmptySnap (rdSnapshot rd)" "applySnapshot P spare (rdSnapshot rd) ps = Some ps'"
  shows "(save_step P spare rd)\<^sup>*\<^sup>* (ps, SaveStart) (ps', SaveLog)"
proof -
  obtain ps1 where 1: "take_snapshot P (rdSnapshot rd) ps = Some ps1"
    using assms(2) by (auto simp: applySnapshot_def take_snapshot_def Let_def bind_eq_Some_conv)
  let ?ps2 = "take_conf P (rdSnapshot rd) ps1"
  let ?ps3 = "?ps2\<lparr>snapState := (snapState ?ps2)\<lparr>StateType := SnapshotApplying\<rparr>\<rparr>"
  obtain pairs where d: "Decode spare (slice (snData (rdSnapshot rd))) = Some pairs"
    using assms(2) by (auto simp: applySnapshot_def Let_def bind_eq_Some_conv)
  have e: "ps' = ?ps3\<lparr>engines := write_pairs P pairs (engines ?ps3)\<rparr>"
    using assms(2) 1 d
    by (auto simp: applySnapshot_def take_snapshot_def take_conf_def Let_def bind_eq_Some_conv)
  show ?thesis
    unfolding e
    by (rule save_steps_trans [of _ _ _ _ _ "(ps1, SaveConf)"], simp add: 1 assms(1),
        rule save_steps_trans [of _ _ _ _ _ "(?ps2, SavePairs)"], simp,
        rule save_steps_trans [of _ _ _ _ _ "(?ps3, PairLoop pairs)"], simp add: d, rule PairLoop_steps)
qed

lemma truncateAndAppend_steps:
  assumes "truncateAndAppend P (rdEntries rd) ps = Some ps'"
  shows "(save_step P spare rd)\<^sup>*\<^sup>* (ps, SaveLog) (ps', SaveLocal)"
proof (cases "rdEntries rd = []")
  case True
  then show ?thesis using assms by (intro save_one) (simp add: truncateAndAppend_def)
next
  case ne: False
  let ?l = "last (rdEntries rd)"
  obtain f t where ft: "FirstIndex ps = Some f" "truncateIndex ps = Some t"
    using assms ne by (auto simp: truncateAndAppend_def bind_eq_Some_conv)
  show ?thesis
  proof (cases "f > eIndex ?l")
    case True
    then show ?thesis using assms ne ft
      by (intro save_one) (simp add: truncateAndAppend_def)
  next
    case False
    obtain es where es: "drop_compacted f t (rdEntries rd) = Some es"
      using assms ne ft False by (auto simp: truncateAndAppend_def Let_def bind_eq_Some_conv)
    let ?ps1 = "snd (appendLogEntries P es ps)"
    have a: "(save_step P spare rd)\<^sup>*\<^sup>* (ps, SaveLog) (?ps1, SaveStale)"
      by (rule save_steps_trans [OF _ AppendLoop_steps]) (use ne ft False es in simp)
    have l: "save_next P spare rd SaveLast x = Some (set_last ?l x, SaveLocal)" for x by simp
    have "(save_step P spare rd)\<^sup>*\<^sup>* (?ps1, SaveStale) (ps', SaveLocal)"
    proof (cases "LastIndex ?ps1 > eIndex ?l")
      case True
      then obtain dl where dl: "stale_entries (eIndex ?l + 1) (LastIndex ?ps1) = Some dl"
        "ps' = set_last ?l (snd (deleteLogEntries P dl ?ps1))"
        using assms ne ft False es
        by (auto simp: truncateAndAppend_def Let_def bind_eq_Some_conv set_last_def)
      have "(save_step P spare rd)\<^sup>*\<^sup>* (?ps1, SaveStale) (snd (deleteLogEntries P dl ?ps1), SaveLast)"
        by (rule save_steps_trans [OF _ DeleteLoop_steps]) (use True dl(1) in simp)
      from rtranclp.rtrancl_into_rtrancl [OF this save_stepI [OF l]] show ?thesis by (simp only: dl(2))
    next
      case False': False
      then have "ps' = set_last ?l ?ps1"
        using assms ne ft False es by (auto simp: truncateAndAppend_def Let_def bind_eq_Some_conv set_last_def)
      then show ?thesis
        using save_steps_trans [OF _ save_one [OF l], where w = SaveStale and ps = ?ps1] False' by simp
    qed
    with a show ?thesis by (rule rtranclp_trans)
  qed
qed

theorem saveReadyState_steps:
  assumes "saveReadyState P spare rd ps = Some (er, ps')"
  shows "(save_step P spare rd)\<^sup>*\<^sup>* (ps, SaveStart) (ps', SaveDone)"
proof -
  obtain ps1 ps2 where s: "(if \<not> IsEmptySnap (rdSnapshot rd)
      then applySnapshot P spare (rdSnapshot rd) ps else Some ps) = Some ps1"
    "truncateAndAppend P (rdEntries rd) ps1 = Some ps2" "save_local P rd ps2 = (er, ps')"
    using assms by (auto simp: saveReadyState_def save_local_def Let_def bind_eq_Some_conv)
  have 1: "(save_step P spare rd)\<^sup>*\<^sup>* (ps, SaveStart) (ps1, SaveLog)"
  proof (cases "IsEmptySnap (rdSnapshot rd)")
    case True
    then show ?thesis using s(1) by (intro save_one) simp
  next
    case False
    then show ?thesis using s(1) applySnapshot_steps by (simp split: if_split_asm)
  qed
  have "save_next P spare rd SaveLocal ps2 = Some (ps', SaveDone)" using s(3) by simp
  from rtranclp.rtrancl_into_rtrancl [OF rtranclp_trans [OF 1 truncateAndAppend_steps [OF s(2)]] save_stepI [OF this]]
  show ?thesis .
qed

section \<open>What a step leaves alone\<close>

text \<open>The apply state in memory is the one on disk.\<close>

definition apply_saved :: "'d pebble \<Rightarrow> 'd peerStorage \<Rightarrow> bool" where
  "apply_saved P s \<longleftrightarrow>
     InitRaftApplyState P (engines s) = Some (applyState s) \<and> asTruncatedState (applyState s) \<noteq> None"

lemma apply_saved_cong:
  assumes "healthy P" "apply_saved P s" "applyState s' = applyState s"
    and "meta_map P (engines s') RaftApplyStateKey = meta_map P (engines s) RaftApplyStateKey"
  shows "apply_saved P s'"
  using Init_cong(2) [OF assms(1,4)] assms(2,3) by (simp add: apply_saved_def)

lemma apply_saved_written:
  "meta_map P (engines s) RaftApplyStateKey = Some (marshal_ApplyState (applyState s)) \<Longrightarrow>
   asTruncatedState (applyState s) \<noteq> None \<Longrightarrow> apply_saved P s"
  by (simp add: apply_saved_def apply_state_written)

text \<open>The steps that change the map or the applied index are those of an installed snapshot.\<close>

fun installs :: "Ready \<Rightarrow> save_pc \<Rightarrow> bool" where
  "installs rd SaveStart = (\<not> IsEmptySnap (rdSnapshot rd))"
| "installs rd (PairLoop (p # pairs)) = True"
| "installs rd w = False"

lemma entry_write_quiet [simp]:
  "applyState (snd (putMeta P key marshal msg s)) = applyState s"
  "kv_map P (engines (snd (putMeta P key marshal msg s))) = kv_map P (engines s)"
  "applyState (snd (deleteMeta P key s)) = applyState s"
  "kv_map P (engines (snd (deleteMeta P key s))) = kv_map P (engines s)"
  using meta_only_fields [OF meta_only_putMeta [of s P key marshal msg]]
    meta_only_fields [OF meta_only_deleteMeta [of s P key]] by simp_all

lemma save_next_quiet:
  assumes P: "pebble_ok P" "healthy P" and n: "save_next P spare rd w s = Some (s', w')" "\<not> installs rd w"
  shows "applyState s' = applyState s" "kv_map P (engines s') = kv_map P (engines s)"
    "meta_map P (engines s') RaftApplyStateKey = meta_map P (engines s) RaftApplyStateKey"
proof -
  have "applyState s' = applyState s \<and> kv_map P (engines s') = kv_map P (engines s) \<and>
    meta_map P (engines s') RaftApplyStateKey = meta_map P (engines s) RaftApplyStateKey"
  proof (cases w)
    case (AppendLoop es)
    then show ?thesis using n(1) by (cases es) (auto simp: putMeta_effect [OF P] prod_eq_iff split: prod.splits option.splits)
  next
    case (DeleteLoop es)
    then show ?thesis using n(1) by (cases es) (auto simp: deleteMeta_effect [OF P] prod_eq_iff split: prod.splits option.splits)
  next
    case (PairLoop pairs)
    then show ?thesis using n by (cases pairs) auto
  next
    case SaveLog
    then show ?thesis using n(1) by (auto simp: bind_eq_Some_conv split: if_split_asm)
  next
    case SaveLocal
    then show ?thesis using n(1) by (auto simp: save_local_def Let_def writeState_effect [OF P])
  qed (use n in \<open>auto simp: take_conf_def set_last_def writeState_effect [OF P] split: if_split_asm\<close>)
  then show "applyState s' = applyState s" "kv_map P (engines s') = kv_map P (engines s)"
    "meta_map P (engines s') RaftApplyStateKey = meta_map P (engines s) RaftApplyStateKey" by simp_all
qed

lemma save_next_saved:
  assumes P: "pebble_ok P" "healthy P" and n: "save_next P spare rd w s = Some (s', w')" "apply_saved P s"
  shows "apply_saved P s'"
proof (cases "installs rd w")
  case False
  note q = save_next_quiet [OF P n(1) False]
  show ?thesis by (rule apply_saved_cong [OF P(2) n(2) q(1,3)])
next
  case True
  show ?thesis
  proof (cases w)
    case SaveStart
    then show ?thesis using n(1) True
      by (auto simp: take_snapshot_def Let_def bind_eq_Some_conv writeState_effect [OF P] intro!: apply_saved_written)
  next
    case (PairLoop pairs)
    then obtain p ps where p: "pairs = p # ps" using True by (cases pairs) auto
    have e: "engines s' = snd (WriteKV P (PutData (Key p) (Val p) True) (engines s))" "applyState s' = applyState s"
      using n(1) PairLoop p by auto
    then have "meta (engines s') = meta (engines s)" by simp
    then show ?thesis by (intro apply_saved_cong [OF P(2) n(2) e(2)]) simp
  qed (use True in auto)
qed

lemma take_snapshot_effect:
  assumes P: "pebble_ok P" "healthy P" and t: "take_snapshot P x s = Some s'"
  shows "AppliedIndex s' = smIndex (snMetadata x)" "kv_map P (engines s') = kv_map P (engines s)"
  using t by (auto simp: take_snapshot_def Let_def bind_eq_Some_conv AppliedIndex_def writeState_effect [OF P])

section \<open>A save ends\<close>

text \<open>From wherever it is: the snapshot decodes, the entries are consecutive, and no index is the
  greatest one.\<close>

definition savable :: "bytes \<Rightarrow> Ready \<Rightarrow> 'd peerStorage \<Rightarrow> bool" where
  "savable spare rd s \<longleftrightarrow>
     asTruncatedState (applyState s) \<noteq> None \<and> LastIndex s \<noteq> - 1 \<and> (\<exists>l. ready_batch (rdEntries rd) l) \<and>
     (\<not> IsEmptySnap (rdSnapshot rd) \<longrightarrow> smIndex (snMetadata (rdSnapshot rd)) \<noteq> - 1) \<and>
     Decode spare (slice (snData (rdSnapshot rd))) \<noteq> None"

definition ends :: "'d pebble \<Rightarrow> bytes \<Rightarrow> Ready \<Rightarrow> 'd peerStorage \<times> save_pc \<Rightarrow> bool" where
  "ends P spare rd t \<longleftrightarrow> (\<exists>s'. (save_step P spare rd)\<^sup>*\<^sup>* t (s', SaveDone))"

lemma ends_steps: "(save_step P spare rd)\<^sup>*\<^sup>* t t' \<Longrightarrow> ends P spare rd t' \<Longrightarrow> ends P spare rd t"
  unfolding ends_def by (blast intro: rtranclp_trans)

lemma ends_next: "save_next P spare rd w s = Some t \<Longrightarrow> ends P spare rd t \<Longrightarrow> ends P spare rd (s, w)"
  by (rule ends_steps [OF save_one])

lemma ends_local: "ends P spare rd (s, SaveLocal)"
  using save_one [of P spare rd SaveLocal s] by (auto simp: ends_def)

lemma ends_last: "ends P spare rd (s, SaveLast)"
  by (rule ends_next [OF _ ends_local]) simp

lemma ends_delete: "ends P spare rd (s, DeleteLoop es)"
  by (rule ends_steps [OF DeleteLoop_steps ends_last])

lemma ends_stale:
  assumes "LastIndex s \<noteq> - 1"
  shows "ends P spare rd (s, SaveStale)"
proof (cases "LastIndex s > eIndex (last (rdEntries rd))")
  case True
  obtain es where "stale_entries (eIndex (last (rdEntries rd)) + 1) (LastIndex s) = Some es"
    using stale_entries_returns [OF assms] by blast
  then show ?thesis by (intro ends_next [OF _ ends_delete]) (use True in simp)
next
  case False
  then show ?thesis by (intro ends_next [OF _ ends_last]) simp
qed

lemma ends_append:
  assumes "LastIndex s \<noteq> - 1"
  shows "ends P spare rd (s, AppendLoop es)"
proof (rule ends_steps [OF AppendLoop_steps ends_stale])
  have "LastIndex (snd (appendLogEntries P es s)) = LastIndex s"
    using meta_only_fields(2) [OF meta_only_appendLogEntries [of s P es]] by (simp add: LastIndex_def)
  then show "LastIndex (snd (appendLogEntries P es s)) \<noteq> - 1" using assms by simp
qed

lemma ends_log:
  assumes "savable spare rd s"
  shows "ends P spare rd (s, SaveLog)"
proof (cases "rdEntries rd = []")
  case True
  then show ?thesis by (intro ends_next [OF _ ends_local]) simp
next
  case ne: False
  obtain ts where ts: "asTruncatedState (applyState s) = Some ts" using assms by (auto simp: savable_def)
  let ?t = "tsIndex ts" and ?l = "last (rdEntries rd)"
  have t: "truncateIndex s = Some ?t" "FirstIndex s = Some (?t + 1)"
    using ts by (simp_all add: truncateIndex_def FirstIndex_def)
  show ?thesis
  proof (cases "?t + 1 > eIndex ?l")
    case True
    then show ?thesis by (intro ends_next [OF _ ends_local]) (use ne t in simp)
  next
    case False
    obtain l where "ready_batch (rdEntries rd) l" using assms by (auto simp: savable_def)
    then have r: "ready_ents (rdEntries rd) (s\<lparr>localState := (localState s)\<lparr>lsLastIndex := l\<rparr>\<rparr>)"
      by (simp add: LastIndex_def)
    obtain es where "drop_compacted (?t + 1) ?t (rdEntries rd) = Some es"
    proof (cases "?t = - 1")
      case True
      then show ?thesis using that by (simp add: drop_compacted_def)
    next
      case t1: False
      have "unat ?t < unat (eIndex ?l)"
        using False unat_minus_one_less [OF t1]
        by (simp add: word_less_nat_alt unat_add_small [of _ 1, simplified])
      then show ?thesis using drop_compacted_ready [OF r ne _ t1] that by blast
    qed
    then have "save_next P spare rd SaveLog s = Some (s, AppendLoop es)" using ne t False by simp
    then show ?thesis by (rule ends_next [OF _ ends_append]) (use assms in \<open>simp add: savable_def\<close>)
  qed
qed

lemma savable_cong:
  "savable spare rd s \<Longrightarrow> applyState s' = applyState s \<Longrightarrow> localState s' = localState s \<Longrightarrow> savable spare rd s'"
  by (simp add: savable_def LastIndex_def)

theorem save_ends:
  assumes "savable spare rd s"
  shows "ends P spare rd (s, w)"
proof -
  have L: "LastIndex s \<noteq> - 1" using assms by (simp add: savable_def)
  have pairs: "ends P spare rd (s', PairLoop ps)" if v: "savable spare rd s'" for s' ps
    by (rule ends_steps [OF PairLoop_steps ends_log [OF savable_cong [OF v]]]) simp_all
  have decode: "ends P spare rd (s', SavePairs)" if v: "savable spare rd s'" for s'
  proof -
    obtain ps where d: "Decode spare (slice (snData (rdSnapshot rd))) = Some ps" using v by (auto simp: savable_def)
    then have "save_next P spare rd SavePairs s' =
        Some (s'\<lparr>snapState := (snapState s')\<lparr>StateType := SnapshotApplying\<rparr>\<rparr>, PairLoop ps)" by simp
    then show ?thesis by (rule ends_next [OF _ pairs [OF savable_cong [OF v]]]) simp_all
  qed
  have conf: "ends P spare rd (s', SaveConf)" if v: "savable spare rd s'" for s'
    by (rule ends_next [OF save_next.simps(2) decode [OF savable_cong [OF v]]]) (simp_all add: take_conf_def)
  have start: "ends P spare rd (s, SaveStart)"
  proof (cases "IsEmptySnap (rdSnapshot rd)")
    case True
    then show ?thesis by (intro ends_next [OF _ ends_log [OF assms]]) simp
  next
    case ne: False
    let ?m = "snMetadata (rdSnapshot rd)"
    obtain ts where ts: "asTruncatedState (applyState s) = Some ts" using assms by (auto simp: savable_def)
    obtain s1 where s1: "take_snapshot P (rdSnapshot rd) s = Some s1"
      using ts by (simp add: take_snapshot_def Let_def)
    then have f: "applyState s1 = \<lparr>asApplyIndex = smIndex ?m,
        asTruncatedState = Some (ts\<lparr>tsIndex := smIndex ?m, tsTerm := smTerm ?m\<rparr>)\<rparr>"
      "lsLastIndex (localState s1) = smIndex ?m"
      using ts by (auto simp: take_snapshot_def Let_def)
    have "savable spare rd s1" using assms ne by (simp add: savable_def LastIndex_def f)
    then show ?thesis by (intro ends_next [OF _ conf]) (use ne s1 in simp_all)
  qed
  show ?thesis
    using assms L ends_log ends_append ends_stale ends_delete ends_last ends_local pairs decode conf start
    by (cases w) (auto simp: ends_def)
qed

end
