(* ===== verification/Snapshot_Gen.thy ===== *)
theory Snapshot_Gen
  imports Save_Steps
begin

text \<open>
  Making, handing out and installing snapshots (\<^verbatim>\<open>peerStorage.Snapshot\<close>, \<^verbatim>\<open>SchedSnapGen\<close>,
  \<^verbatim>\<open>applySnapshot\<close>): the protocol between the raft library, which asks repeatedly, and the
  generating goroutine, and what a follower holds after an installation.
\<close>

section \<open>The protocol\<close>

text \<open>The bookkeeping invariant: the counter is in range, a generating state has a channel,
  pending goroutines have channels of their own and have sent nothing yet, no channel ever
  holds more than one snapshot.\<close>

definition snap_inv :: "'d peerStorage \<Rightarrow> bool" where
  "snap_inv s \<longleftrightarrow>
     0 \<le> snapTriedCnt s \<and> snapTriedCnt s \<le> defaultSnapTriedCnt \<and>
     (case Receiver (snapState s) of None \<Rightarrow> StateType (snapState s) \<noteq> SnapshotGenerating
      | Some n \<Rightarrow> n < length (chans s)) \<and>
     distinct (map fst (generating s)) \<and>
     list_all (\<lambda>(n, g). n < length (chans s) \<and> chans s ! n = []) (generating s) \<and>
     list_all (\<lambda>c. length c \<le> 1) (chans s)"

lemma schedule_snapshot_inv:
  assumes "snap_inv s" "schedule_snapshot x s = (y, er, s')"
  shows "snap_inv s'"
proof -
  have l: "list_all (\<lambda>(n, g). n < length (chans s) \<and> chans s ! n = []) (generating s)"
    using assms(1) by (simp add: snap_inv_def)
  then have "list_all (\<lambda>(n, g). n < Suc (length (chans s)) \<and> (chans s @ [[]]) ! n = []) (generating s)"
    by (elim list.pred_mono_strong) (auto simp: nth_append)
  moreover have "length (chans s) \<notin> fst ` set (generating s)" using l by (auto simp: list_all_iff)
  ultimately show ?thesis
    using assms by (auto simp: snap_inv_def schedule_snapshot_def Let_def defaultSnapTriedCnt_def
        split: if_splits option.splits)
qed

lemma receive_Some:
  "receive r cs = Some (x, cs') \<Longrightarrow>
   \<exists>n xs. r = Some n \<and> n < length cs \<and> cs ! n = x # xs \<and> cs' = cs[n := xs]"
  by (auto simp: receive_def split: option.splits if_splits list.splits)

lemma snap_inv_received:
  assumes "snap_inv s" "receive (Receiver (snapState s)) (chans s) = Some (x, cs)"
  shows "snap_inv (s\<lparr>snapState := (snapState s)\<lparr>StateType := SnapshotRelaxed\<rparr>, chans := cs\<rparr>)"
    "snap_inv (s\<lparr>snapState := (snapState s)\<lparr>StateType := SnapshotRelaxed\<rparr>, chans := cs,
      snapTriedCnt := 0\<rparr>)"
proof -
  obtain n xs where n: "Receiver (snapState s) = Some n" "n < length (chans s)"
    "chans s ! n = x # xs" "cs = (chans s)[n := xs]" using receive_Some [OF assms(2)] by blast
  have "length (x # xs) \<le> 1" using assms(1) n(2,3) unfolding snap_inv_def by (metis list_all_length)
  then have "xs = []" by simp
  moreover have "n \<notin> fst ` set (generating s)"
    using assms(1) n(3) by (auto simp: snap_inv_def list_all_iff)
  ultimately show "snap_inv (s\<lparr>snapState := (snapState s)\<lparr>StateType := SnapshotRelaxed\<rparr>, chans := cs\<rparr>)"
    "snap_inv (s\<lparr>snapState := (snapState s)\<lparr>StateType := SnapshotRelaxed\<rparr>, chans := cs,
      snapTriedCnt := 0\<rparr>)"
    using assms(1) n
    by (auto simp: snap_inv_def list_all_iff nth_list_update defaultSnapTriedCnt_def
        dest!: set_update_subset_insert [THEN subsetD])
qed

theorem Snapshot_op_inv:
  assumes "snap_inv s" "Snapshot_op s = Some (x, er, s')"
  shows "snap_inv s'"
proof (cases "StateType (snapState s) = SnapshotGenerating")
  case False
  then show ?thesis using assms schedule_snapshot_inv [OF assms(1)]
    by (auto simp: Snapshot_op_def)
next
  case True
  show ?thesis
  proof (cases "receive (Receiver (snapState s)) (chans s)")
    case None
    then show ?thesis using assms True by (auto simp: Snapshot_op_def)
  next
    case (Some r)
    obtain y cs where r: "r = (y, cs)" by (metis prod.exhaust)
    note i = snap_inv_received [OF assms(1) Some [unfolded r]]
    show ?thesis
      using assms(2) True Some r i schedule_snapshot_inv [OF i(1)] schedule_snapshot_inv [OF i(2)]
      by (auto simp: Snapshot_op_def Let_def split: if_splits)
  qed
qed

lemma gen_at_chans: "map (fst \<circ> (\<lambda>(c, x). (c, if c = ch then g else x))) gs = map fst gs"
  by (induction gs) auto

lemma gen_at_inv: "snap_inv s \<Longrightarrow> snap_inv (gen_at ch g s)"
  by (auto simp: snap_inv_def gen_at_def list_all_iff gen_at_chans split: option.splits)

lemma SchedSnapGen_inv:
  assumes "snap_inv s" "n \<in> fst ` set (generating s)" "SchedSnapGen P n s = Some s'"
  shows "snap_inv s'"
proof (cases "map_of (generating s) n")
  case None
  then show ?thesis using assms by (simp add: SchedSnapGen_def)
next
  case (Some g)
  show ?thesis
  proof (cases g)
    case (GenSend x)
    have x: "s' = s\<lparr>chans := (chans s)[n := chans s ! n @ [x]],
        generating := filter (\<lambda>(c, _). c \<noteq> n) (generating s)\<rparr>"
      using assms(3) Some GenSend by (simp add: SchedSnapGen_def)
    have n: "n < length (chans s)" "chans s ! n = []" using assms(1,2) by (auto simp: snap_inv_def list_all_iff)
    have "distinct (map fst (filter (\<lambda>(c, _). c \<noteq> n) (generating s)))"
      using assms(1) by (simp add: snap_inv_def distinct_map_filter)
    then show ?thesis
      using assms(1) n unfolding x
      by (auto simp: snap_inv_def list_all_iff nth_list_update
          split: option.splits dest!: set_update_subset_insert [THEN subsetD])
  qed (use assms Some gen_at_inv in \<open>auto simp: SchedSnapGen_def\<close>)
qed

text \<open>What is handed out without an error: a non-empty snapshot, not behind the truncated
  index, taken from the channel.\<close>

lemma Snapshot_op_success:
  assumes "Snapshot_op s = Some (x, None, s')"
  shows "\<not> IsEmptySnap x \<and> snapshotValid x s = Some True \<and> snapTriedCnt s' = 0 \<and>
    StateType (snapState s') = SnapshotRelaxed \<and>
    (\<exists>n xs. Receiver (snapState s) = Some n \<and> chans s ! n = x # xs)"
proof -
  have g: "StateType (snapState s) = SnapshotGenerating"
    using assms by (auto simp: Snapshot_op_def schedule_snapshot_def Let_def split: if_splits)
  show ?thesis
  proof (cases "receive (Receiver (snapState s)) (chans s)")
    case None
    then show ?thesis using assms g by (simp add: Snapshot_op_def)
  next
    case (Some r)
    obtain y cs where r: "r = (y, cs)" by (metis prod.exhaust)
    then show ?thesis
      using assms g Some receive_Some [of "Receiver (snapState s)" "chans s" y cs]
      by (auto simp: Snapshot_op_def Let_def schedule_snapshot_def snapshotValid_def
          truncateIndex_def split: if_splits)
  qed
qed

text \<open>The count in the error message of a snapshot given up on.\<close>

lemma Snapshot_op_tried:
  assumes "Snapshot_op s = Some (x, Some (ErrSnapTried n), s')"
  shows "n = 0"
  using assms
  by (auto simp: Snapshot_op_def schedule_snapshot_def Let_def
      split: if_splits option.splits prod.splits)

section \<open>Contents\<close>

text \<open>A snapshot holds the sender's map and its applied position, whatever state it is made in.\<close>

lemma KVSnapshot_pairs:
  assumes "pebble_ok P" "kv_fits (kv_map P e)"
  shows "\<exists>pairs. (\<forall>spare. Decode spare (KVSnapshot P e) = Some pairs) \<and> pair_map pairs = kv_map P e"
proof -
  let ?it = "pb_iter P (kv e)"
  let ?ps = "map (\<lambda>(k, v). \<lparr>Key = k, Val = v\<rparr>) ?it"
  have it: "map_of ?it = kv_map P e" "distinct (map fst ?it)"
    using assms(1) by (auto simp: pebble_ok_def)
  have "map (\<lambda>p. (Key p, Val p)) ?ps = ?it" by (simp add: o_def case_prod_beta)
  then have "pair_map ?ps = map_of (rev ?it)" by (simp add: pair_map_def)
  also have "\<dots> = map_of ?it"
    using it(2) by (intro map_of_inject_set [THEN iffD2]) (simp_all add: rev_map [symmetric])
  finally have "pair_map ?ps = kv_map P e" using it(1) by simp
  then show ?thesis using KVSnapshot_decodes [OF assms] by blast
qed

lemma checkRange_returns: "asTruncatedState (applyState s) \<noteq> None \<Longrightarrow> \<exists>r. checkRange lo hi s = Some r"
  by (cases "lo > hi"; cases "hi > lsLastIndex (localState s) + 1") (auto simp: checkRange_def truncateIndex_def)
lemma Term_returns:
  assumes "asTruncatedState (applyState s) \<noteq> None"
  shows "\<exists>t. Term P i s = Some t"
proof -
  obtain ts where ts: "asTruncatedState (applyState s) = Some ts" using assms by blast
  obtain r where "checkRange i (i + 1) s = Some r" using checkRange_returns [OF assms] by blast
  then show ?thesis
    using ts by (cases "i = tsIndex ts"; cases r) (simp_all add: Term_def truncateIndex_def truncateTerm_def)
qed

lemma gen_term_returns: "asTruncatedState (applyState s) \<noteq> None \<Longrightarrow> \<exists>t. gen_term P s = Some t"
  using Term_returns [of s P "AppliedIndex s"] by (auto simp: gen_term_def)

text \<open>The index is that of the second look at the storage, the map that of the third.\<close>

lemma make_snapshot_map:
  assumes "pebble_ok P" "asTruncatedState (applyState s1) \<noteq> None" "kv_fits (kv_map P (engines s3))"
  shows "\<exists>x pairs. make_snapshot P s1 s2 s3 = Some x \<and> smIndex (snMetadata x) = AppliedIndex s2 \<and>
    (\<forall>spare. Decode spare (slice (snData x)) = Some pairs) \<and> pair_map pairs = kv_map P (engines s3)"
proof -
  obtain t where "gen_term P s1 = Some t" using gen_term_returns [OF assms(2)] by blast
  then show ?thesis
    using KVSnapshot_pairs [OF assms(1,3)] by (auto simp: make_snapshot_def gen_snapshot_def gen_metadata_def)
qed

lemma make_snapshot_contents:
  assumes "pebble_ok P" "log_ok P s" "trunc s \<le> AppliedIndex s" "AppliedIndex s \<le> LastIndex s"
    "kv_fits (kv_map P (engines s))"
  shows "\<exists>x pairs. make_snapshot P s s s = Some x \<and> smIndex (snMetadata x) = AppliedIndex s \<and>
    smTerm (snMetadata x) =
      eTerm (peer_ents P s ! (unat (AppliedIndex s) - unat (trunc s))) \<and>
    smConfState (snMetadata x) = confState s \<and>
    (\<forall>spare. Decode spare (slice (snData x)) = Some pairs) \<and>
    pair_map pairs = kv_map P (engines s)"
proof -
  let ?ms = "NewMemoryStorage\<lparr>msEnts := peer_ents P s\<rparr>"
  have r: "refines P s ?ms" using assms(2) by (simp add: refines_def)
  have T: "Term P (AppliedIndex s) s =
      Some (Inr (eTerm (peer_ents P s ! (unat (AppliedIndex s) - unat (trunc s)))))"
    using Term_refines [OF r assms(3,4)] ms_Term_refines [OF r assms(3,4)] by simp
  then show ?thesis
    using KVSnapshot_pairs [OF assms(1,5)]
    by (auto simp: make_snapshot_def gen_term_def gen_snapshot_def gen_metadata_def)
qed

section \<open>What the protocol leaves alone\<close>

text \<open>\<open>s\<close> with the bookkeeping of snapshots that \<open>t\<close> has; the log, the states and the databases stay.\<close>

definition with_snap :: "'d peerStorage \<Rightarrow> 'd peerStorage \<Rightarrow> 'd peerStorage" where
  "with_snap s t = s\<lparr>snapState := snapState t, snapTriedCnt := snapTriedCnt t, chans := chans t,
     generating := generating t\<rparr>"

lemma with_snap_fields [simp]:
  "engines (with_snap s t) = engines s" "localState (with_snap s t) = localState s"
  "applyState (with_snap s t) = applyState s" "confState (with_snap s t) = confState s"
  "LastIndex (with_snap s t) = LastIndex s" "AppliedIndex (with_snap s t) = AppliedIndex s"
  "trunc_state (with_snap s t) = trunc_state s"
  by (simp_all add: with_snap_def LastIndex_def AppliedIndex_def trunc_state_def)

lemma with_snap_log [simp]:
  "peer_ents P (with_snap s t) = peer_ents P s" "log_ok P (with_snap s t) = log_ok P s"
  "refines P (with_snap s t) ms = refines P s ms" "persisted P (with_snap s t) = persisted P s"
proof -
  have e: "log_entry P (with_snap s t) = log_entry P s" by (rule ext) (simp add: log_entry_def)
  show "peer_ents P (with_snap s t) = peer_ents P s" "log_ok P (with_snap s t) = log_ok P s"
    by (simp_all add: peer_ents_def log_ok_def log_stored_def log_size_def dummy_entry_def e)
  then show "refines P (with_snap s t) ms = refines P s ms" by (simp add: refines_def)
  show "persisted P (with_snap s t) = persisted P s" by (simp add: persisted_def)
qed

lemma schedule_snapshot_with_snap: "schedule_snapshot x s = (y, er, s') \<Longrightarrow> s' = with_snap s s'"
  by (auto simp: schedule_snapshot_def Let_def with_snap_def split: if_split_asm)

lemma with_snap_trans: "s' = with_snap s t \<Longrightarrow> s'' = with_snap s' s'' \<Longrightarrow> s'' = with_snap s s''"
  by (cases s; cases s'') (simp add: with_snap_def)

lemma Snapshot_op_with_snap:
  assumes "Snapshot_op s = Some (x, er, s')"
  shows "s' = with_snap s s'"
proof (cases "StateType (snapState s) = SnapshotGenerating")
  case False
  then show ?thesis using assms schedule_snapshot_with_snap by (auto simp: Snapshot_op_def)
next
  case True
  show ?thesis
  proof (cases "receive (Receiver (snapState s)) (chans s)")
    case None
    then show ?thesis using assms True by (simp add: Snapshot_op_def with_snap_def)
  next
    case (Some r)
    obtain y cs where r: "r = (y, cs)" by fastforce
    let ?s1 = "s\<lparr>snapState := (snapState s)\<lparr>StateType := SnapshotRelaxed\<rparr>, chans := cs\<rparr>"
    have w: "?s1 = with_snap s ?s1" "?s1\<lparr>snapTriedCnt := 0\<rparr> = with_snap s (?s1\<lparr>snapTriedCnt := 0\<rparr>)"
      by (simp_all add: with_snap_def)
    have "s' = ?s1\<lparr>snapTriedCnt := 0\<rparr> \<or> (\<exists>z e. schedule_snapshot y (?s1\<lparr>snapTriedCnt := 0\<rparr>) = (z, e, s')) \<or>
        (\<exists>z e. schedule_snapshot y ?s1 = (z, e, s'))"
      using assms True Some r by (auto simp: Snapshot_op_def Let_def bind_eq_Some_conv split: if_split_asm)
    then show ?thesis using w with_snap_trans schedule_snapshot_with_snap by metis
  qed
qed

lemma SchedSnapGen_with_snap: "SchedSnapGen P n s = Some s' \<Longrightarrow> s' = with_snap s s'"
  by (auto simp: SchedSnapGen_def gen_at_def with_snap_def split: option.split_asm gen_pc.split_asm)

text \<open>Neither panics on a storage with a truncated state.\<close>

lemma snapshot_returns:
  assumes "asTruncatedState (applyState s) \<noteq> None"
  shows "Snapshot_op s \<noteq> panic" "SchedSnapGen P n s \<noteq> panic"
proof -
  show "SchedSnapGen P n s \<noteq> panic"
    using gen_term_returns [OF assms, of P] by (auto simp: SchedSnapGen_def split: option.split gen_pc.split)
  show "Snapshot_op s \<noteq> panic"
  proof -
    obtain ts where ts: "asTruncatedState (applyState s) = Some ts" using assms by blast
    have "truncateIndex (s\<lparr>snapState := x, chans := cs, snapTriedCnt := k\<rparr>) \<noteq> panic" for x cs k
      using ts by (simp add: truncateIndex_def)
    then have "snapshotValid y (s\<lparr>snapState := x, chans := cs, snapTriedCnt := k\<rparr>) \<noteq> panic" for y x cs k
      by (auto simp: snapshotValid_def)
    then have v: "\<exists>b. snapshotValid y (s\<lparr>snapState := x, chans := cs, snapTriedCnt := k\<rparr>) = Some b" for y x cs k
      by auto
    show ?thesis
    proof (cases "receive (Receiver (snapState s)) (chans s)")
      case None
      then show ?thesis by (simp add: Snapshot_op_def del: not_None_eq)
    next
      case (Some r)
      obtain y cs where r: "r = (y, cs)" by fastforce
      obtain b where "snapshotValid y (s\<lparr>snapState := (snapState s)\<lparr>StateType := SnapshotRelaxed\<rparr>,
          chans := cs, snapTriedCnt := 0\<rparr>) = Some b" using v by blast
      then show ?thesis using Some r by (simp add: Snapshot_op_def Let_def del: not_None_eq)
    qed
  qed
qed

section \<open>From a request to the snapshot\<close>

text \<open>
  Ask, let the goroutine take its four steps, ask again. Between them the other goroutines may change
  the log, the states and the databases: \<open>with_snap u s\<close> is the storage \<open>u\<close> they made, with the
  bookkeeping of \<open>s\<close>.
\<close>

lemma with_snap_snap [simp]:
  "snapState (with_snap u s) = snapState s" "snapTriedCnt (with_snap u s) = snapTriedCnt s"
  "chans (with_snap u s) = chans s" "generating (with_snap u s) = generating s"
  by (simp_all add: with_snap_def)

lemma with_snap_reads [simp]:
  "gen_term P (with_snap u s) = gen_term P u" "gen_metadata t (with_snap u s) = gen_metadata t u"
  "gen_snapshot P m (with_snap u s) = gen_snapshot P m u"
  "snapshotValid x (with_snap u s) = snapshotValid x u"
proof -
  have t: "truncateIndex (with_snap u s) = truncateIndex u" "truncateTerm (with_snap u s) = truncateTerm u"
    by (simp_all add: truncateIndex_def truncateTerm_def)
  have c: "checkRange lo hi (with_snap u s) = checkRange lo hi u" for lo hi
    by (simp only: checkRange_def with_snap_fields t)
  have "Term P i (with_snap u s) = Term P i u" for i by (simp only: Term_def t c with_snap_fields)
  then show "gen_term P (with_snap u s) = gen_term P u" by (simp add: gen_term_def)
  show "gen_metadata t (with_snap u s) = gen_metadata t u" by (simp add: gen_metadata_def)
  show "gen_snapshot P m (with_snap u s) = gen_snapshot P m u" by (simp add: gen_snapshot_def)
  show "snapshotValid x (with_snap u s) = snapshotValid x u" by (simp add: snapshotValid_def t)
qed

lemma gen_at_snap [simp]:
  "snapState (gen_at ch g s) = snapState s" "snapTriedCnt (gen_at ch g s) = snapTriedCnt s"
  "chans (gen_at ch g s) = chans s"
  "generating (gen_at ch g s) = map (\<lambda>(c, x). (c, if c = ch then g else x)) (generating s)"
  by (simp_all add: gen_at_def)

lemma map_of_gen_at [simp]:
  "map_of (map (\<lambda>(c, x). (c, if c = ch then g else x)) gs) ch = map_option (\<lambda>_. g) (map_of gs ch)"
  by (induction gs) auto

lemma gen_at_moves:
  "map_of (generating s) ch = Some g' \<Longrightarrow> map_of (generating (gen_at ch g (with_snap u s))) ch = Some g"
  by simp

text \<open>The four steps of a goroutine that is where it starts.\<close>

lemma SchedSnapGen_run:
  assumes "map_of (generating s1) ch = Some GenTerm" and "make_snapshot P u1 u2 u3 = Some x"
  shows "\<exists>s2 s3 s4. SchedSnapGen P ch (with_snap u1 s1) = Some s2 \<and>
    SchedSnapGen P ch (with_snap u2 s2) = Some s3 \<and> SchedSnapGen P ch (with_snap u3 s3) = Some s4 \<and>
    SchedSnapGen P ch (with_snap u4 s4) = Some ((with_snap u4 s4)\<lparr>chans := (chans s1)[ch := chans s1 ! ch @ [x]],
      generating := filter (\<lambda>(c, _). c \<noteq> ch) (generating s4)\<rparr>) \<and>
    chans s4 = chans s1 \<and> snapState s4 = snapState s1"
proof -
  obtain t where t: "gen_term P u1 = Some t" "x = gen_snapshot P (gen_metadata t u2) u3"
    using assms(2) by (auto simp: make_snapshot_def)
  let ?s2 = "gen_at ch (GenMeta t) (with_snap u1 s1)"
  let ?s3 = "gen_at ch (GenData (gen_metadata t u2)) (with_snap u2 ?s2)"
  let ?s4 = "gen_at ch (GenSend x) (with_snap u3 ?s3)"
  have g2: "map_of (generating ?s2) ch = Some (GenMeta t)" by (rule gen_at_moves [OF assms(1)])
  have g3: "map_of (generating ?s3) ch = Some (GenData (gen_metadata t u2))" by (rule gen_at_moves [OF g2])
  have g4: "map_of (generating ?s4) ch = Some (GenSend x)" by (rule gen_at_moves [OF g3])
  have 1: "SchedSnapGen P ch (with_snap u1 s1) = Some ?s2" using assms(1) t(1) by (simp add: SchedSnapGen_def)
  have 2: "SchedSnapGen P ch (with_snap u2 s2) = Some (gen_at ch (GenData (gen_metadata t u2)) (with_snap u2 s2))"
    if "map_of (generating s2) ch = Some (GenMeta t)" for s2 using that by (simp add: SchedSnapGen_def)
  have 3: "SchedSnapGen P ch (with_snap u3 s3) = Some (gen_at ch (GenSend x) (with_snap u3 s3))"
    if "map_of (generating s3) ch = Some (GenData (gen_metadata t u2))" for s3
    using that t(2) by (simp add: SchedSnapGen_def)
  have 4: "SchedSnapGen P ch (with_snap u4 s4) = Some ((with_snap u4 s4)\<lparr>chans := (chans s4)[ch := chans s4 ! ch @ [x]],
      generating := filter (\<lambda>(c, _). c \<noteq> ch) (generating s4)\<rparr>)"
    if "map_of (generating s4) ch = Some (GenSend x)" for s4
    using that by (simp add: SchedSnapGen_def)
  have c: "chans ?s4 = chans s1" "snapState ?s4 = snapState s1" by simp_all
  show ?thesis
    by (rule exI [of _ ?s2], rule exI [of _ ?s3], rule exI [of _ ?s4])
      (intro conjI 1 2 [OF g2] 3 [OF g3] 4 [OF g4, unfolded c] c)
qed

theorem Snapshot_generated:
  assumes s: "snap_inv s" "StateType (snapState s) \<noteq> SnapshotGenerating"
    "snapTriedCnt s < defaultSnapTriedCnt"
    and m: "make_snapshot P u1 u2 u3 = Some x" "\<not> IsEmptySnap x" "snapshotValid x u5 = Some True"
  shows "\<exists>s1 s2 s3 s4 s5 s6 ch. Snapshot_op s = Some (zero_Snapshot, Some ErrSnapshotTemporarilyUnavailable, s1) \<and>
    (ch, GenTerm) \<in> set (generating s1) \<and>
    SchedSnapGen P ch (with_snap u1 s1) = Some s2 \<and> SchedSnapGen P ch (with_snap u2 s2) = Some s3 \<and>
    SchedSnapGen P ch (with_snap u3 s3) = Some s4 \<and> SchedSnapGen P ch (with_snap u4 s4) = Some s5 \<and>
    Snapshot_op (with_snap u5 s5) = Some (x, None, s6)"
proof -
  let ?ch = "length (chans s)"
  let ?s1 = "s\<lparr>snapTriedCnt := snapTriedCnt s + 1,
    snapState := \<lparr>StateType = SnapshotGenerating, Receiver = Some ?ch\<rparr>,
    chans := chans s @ [[]], generating := generating s @ [(?ch, GenTerm)]\<rparr>"
  have n: "map_of (generating s) ?ch = None"
    using s(1) by (auto simp: snap_inv_def list_all_iff map_of_eq_None_iff)
  have 1: "Snapshot_op s = Some (zero_Snapshot, Some ErrSnapshotTemporarilyUnavailable, ?s1)"
    using s(2,3) by (simp add: Snapshot_op_def schedule_snapshot_def Let_def)
  have g: "map_of (generating ?s1) ?ch = Some GenTerm" using n by (simp add: map_add_def)
  obtain s2 s3 s4 where r: "SchedSnapGen P ?ch (with_snap u1 ?s1) = Some s2"
    "SchedSnapGen P ?ch (with_snap u2 s2) = Some s3" "SchedSnapGen P ?ch (with_snap u3 s3) = Some s4"
    "SchedSnapGen P ?ch (with_snap u4 s4) =
      Some ((with_snap u4 s4)\<lparr>chans := (chans ?s1)[?ch := chans ?s1 ! ?ch @ [x]],
        generating := filter (\<lambda>(c, _). c \<noteq> ?ch) (generating s4)\<rparr>)"
    "chans s4 = chans ?s1" "snapState s4 = snapState ?s1"
    using SchedSnapGen_run [OF g m(1)] by blast
  let ?s5 = "(with_snap u4 s4)\<lparr>chans := (chans ?s1)[?ch := chans ?s1 ! ?ch @ [x]],
    generating := filter (\<lambda>(c, _). c \<noteq> ?ch) (generating s4)\<rparr>"
  let ?s6 = "(with_snap u5 ?s5)\<lparr>snapState := \<lparr>StateType = SnapshotRelaxed, Receiver = Some ?ch\<rparr>,
    chans := chans s @ [[]], snapTriedCnt := 0\<rparr>"
  have "snapshotValid x ?s6 = Some True"
    using m(3) by (simp add: snapshotValid_def truncateIndex_def)
  moreover have "chans ?s5 = chans s @ [[x]]"
    "snapState ?s5 = \<lparr>StateType = SnapshotGenerating, Receiver = Some ?ch\<rparr>"
    using r(6) by simp_all
  ultimately have 6: "Snapshot_op (with_snap u5 ?s5) = Some (x, None, ?s6)"
    using m(2) by (simp add: Snapshot_op_def receive_def Let_def del: bind_Some_iff)
  have "(?ch, GenTerm) \<in> set (generating ?s1)" by simp
  with 1 r(1-4) 6 show ?thesis by blast
qed

section \<open>Runs of the protocol\<close>

text \<open>The library asks for a snapshot, a goroutine that makes one takes a step, the save of a batch makes
  one (and may install a snapshot).\<close>

inductive snap_step :: "'d pebble \<Rightarrow> 'd peerStorage \<Rightarrow> 'd peerStorage \<Rightarrow> bool" for P where
  Ask: "Snapshot_op s = Some (x, er, s') \<Longrightarrow> snap_step P s s'"
| Generate: "n \<in> fst ` set (generating s) \<Longrightarrow> SchedSnapGen P n s = Some s' \<Longrightarrow> snap_step P s s'"
| Write: "save_next P spare rd w s = Some (s', w') \<Longrightarrow> snap_step P s s'"

definition snap_frame :: "'d peerStorage \<Rightarrow> 'd peerStorage \<Rightarrow> bool" where
  "snap_frame s s' \<longleftrightarrow>
     Receiver (snapState s') = Receiver (snapState s) \<and> snapTriedCnt s' = snapTriedCnt s \<and>
     chans s' = chans s \<and> generating s' = generating s \<and>
     (StateType (snapState s') = StateType (snapState s) \<or>
      StateType (snapState s') = SnapshotApplying)"

lemma snap_frame_inv: "snap_inv s \<Longrightarrow> snap_frame s s' \<Longrightarrow> snap_inv s'"
  by (auto simp: snap_inv_def snap_frame_def split: option.splits)

lemma snap_frame_refl [simp]: "snap_frame s s"
  by (simp add: snap_frame_def)

lemma snap_frame_trans: "snap_frame s s1 \<Longrightarrow> snap_frame s1 s2 \<Longrightarrow> snap_frame s s2"
  by (auto simp: snap_frame_def)

lemma snap_frame_meta: "meta_only s s' \<Longrightarrow> snap_frame s s'"
  using meta_only_fields [of s s'] by (simp add: snap_frame_def)

lemma writeState_snap [simp]:
  "snap_frame s (snd (writeLocalState P l s))" "snap_frame s (snd (writeApplyState P a s))"
  "snap_frame s (snd (writeConfState P c s))"
  by (simp_all add: writeLocalState_def writeApplyState_def writeConfState_def snap_frame_meta)

lemmas writeState_snap_fields = writeState_snap [unfolded snap_frame_def]

lemma truncateAndAppend_snap: "truncateAndAppend P ents s = Some s' \<Longrightarrow> snap_frame s s'"
proof -
  have a: "snap_frame s (snd (appendLogEntries P es s))" for es
    by (rule snap_frame_meta) simp
  have d: "snap_frame s (snd (deleteLogEntries P ds (snd (appendLogEntries P es s))))" for ds es
    by (rule snap_frame_trans [OF a [of es] snap_frame_meta]) simp
  have l: "snap_frame s (t\<lparr>localState := x\<rparr>) = snap_frame s t" for t x
    by (simp add: snap_frame_def)
  assume "truncateAndAppend P ents s = Some s'"
  then show ?thesis
    using a d by (auto simp: truncateAndAppend_def Let_def l split: if_split_asm)
qed

lemma save_next_snap:
  assumes "save_next P spare rd w s = Some (s', w')"
  shows "snap_frame s s'"
proof -
  note put = meta_only_fields [OF meta_only_putMeta [of s P]]
  note del = meta_only_fields [OF meta_only_deleteMeta [of s P]]
  from assms show ?thesis
    by (cases "(P, spare, rd, w, s)" rule: save_next.cases)
      (auto simp: take_snapshot_def take_conf_def set_last_def save_local_def Let_def bind_eq_Some_conv
        snap_frame_def writeState_snap_fields prod_eq_iff put del
        split: if_split_asm prod.split_asm option.split_asm)
qed

lemma snap_inv_new: "newPeerStorage P e = Some s \<Longrightarrow> snap_inv s"
  by (auto simp: newPeerStorage_def snap_inv_def defaultSnapTriedCnt_def)

theorem snap_run_inv:
  assumes "(snap_step P)\<^sup>*\<^sup>* s s'" "snap_inv s"
  shows "snap_inv s'"
  using assms
proof (induction rule: rtranclp_induct)
  case (step s1 s2)
  then have i: "snap_inv s1" by simp
  from step.hyps(2) show ?case
    by cases (auto intro: Snapshot_op_inv [OF i] SchedSnapGen_inv [OF i]
        snap_frame_inv [OF i save_next_snap])
qed

end
