(* ===== verification/Raft_Log.thy ===== *)
theory Raft_Log
  imports Log_Refinement
begin

text \<open>
  What the raft library needs of its storage, and that the peer's storage gives it. The
  client is the library's \<^verbatim>\<open>raftLog\<close> (\<^verbatim>\<open>raft/log.go\<close>, \<^verbatim>\<open>raft/log_unstable.go\<close>): opening a log on a
  storage, reading terms and slices. It panics when the storage breaks its contract, so the
  contract is the locale \<open>raft_storage\<close>, the client's lemmas are proved in it, and both the
  memory storage and the peer's storage on disk are interpretations.
\<close>

section \<open>The interface\<close>

record 's storage =
  st_first :: "'s \<Rightarrow> u64 run"
  st_last :: "'s \<Rightarrow> u64 run"
  st_term :: "u64 \<Rightarrow> 's \<Rightarrow> (err + u64) run"
  st_entries :: "u64 \<Rightarrow> u64 \<Rightarrow> u64 \<Rightarrow> 's \<Rightarrow> (err + Entry list) run"

definition noLimit :: u64 where
  "noLimit = - 1"

locale raft_storage =
  fixes S :: "'s storage" and inv :: "'s \<Rightarrow> bool"
  assumes bounds: "inv s \<Longrightarrow> \<exists>f l. st_first S s = Some f \<and> st_last S s = Some l \<and>
      0 < f \<and> unat f \<le> Suc (unat l) \<and> Suc (unat l) < 2 ^ 64"
    and term_in_range: "inv s \<Longrightarrow> st_first S s = Some f \<Longrightarrow> st_last S s = Some l \<Longrightarrow>
      f - 1 \<le> i \<Longrightarrow> i \<le> l \<Longrightarrow> \<exists>t. st_term S i s = Some (Inr t)"
    and entries_in_range: "inv s \<Longrightarrow> st_first S s = Some f \<Longrightarrow> st_last S s = Some l \<Longrightarrow>
      f \<le> lo \<Longrightarrow> lo < hi \<Longrightarrow> hi \<le> l + 1 \<Longrightarrow>
      \<exists>es. st_entries S lo hi noLimit s = Some (Inr es) \<and> length es = unat hi - unat lo \<and>
        consecutive lo es \<and> sum_list (map Entry_Size es) \<le> unat noLimit \<and>
        (\<forall>j < length es. st_term S (lo + word_of_nat j) s = Some (Inr (eTerm (es ! j))))"

section \<open>The order of logs\<close>

text \<open>The last term and index of a log.\<close>

datatype log_pos = LogPos (pos_term: u64) (pos_index: u64)

instantiation log_pos :: linorder
begin

definition less_eq_log_pos :: "log_pos \<Rightarrow> log_pos \<Rightarrow> bool" where
  "less_eq_log_pos a b \<longleftrightarrow>
     pos_term a < pos_term b \<or> pos_term a = pos_term b \<and> pos_index a \<le> pos_index b"

definition less_log_pos :: "log_pos \<Rightarrow> log_pos \<Rightarrow> bool" where
  "less_log_pos a b \<longleftrightarrow>
     pos_term a < pos_term b \<or> pos_term a = pos_term b \<and> pos_index a < pos_index b"

instance
  by standard (auto simp: less_eq_log_pos_def less_log_pos_def intro: log_pos.expand)

end

section \<open>The client: raftLog\<close>

record raftLog =
  unSnapshot :: "Snapshot option"
  unEntries :: "Entry list"
  unOffset :: u64
  rlCommitted :: u64
  rlApplied :: u64

definition newLog :: "'s storage \<Rightarrow> 's \<Rightarrow> raftLog run" where
  "newLog S s =
     do {
       firstIndex \<leftarrow> st_first S s;
       lastIndex \<leftarrow> st_last S s;
       Some \<lparr>unSnapshot = None, unEntries = [], unOffset = lastIndex + 1,
         rlCommitted = firstIndex - 1, rlApplied = firstIndex - 1\<rparr>
     }"

definition maybeLastIndex :: "raftLog \<Rightarrow> u64 option" where
  "maybeLastIndex l =
     (if unEntries l \<noteq> [] then Some (unOffset l + word_of_nat (length (unEntries l)) - 1)
      else map_option (\<lambda>x. smIndex (snMetadata x)) (unSnapshot l))"

definition rl_firstIndex :: "'s storage \<Rightarrow> raftLog \<Rightarrow> 's \<Rightarrow> u64 run" where
  "rl_firstIndex S l s =
     (case unSnapshot l of Some x \<Rightarrow> Some (smIndex (snMetadata x) + 1) | None \<Rightarrow> st_first S s)"

definition rl_lastIndex :: "'s storage \<Rightarrow> raftLog \<Rightarrow> 's \<Rightarrow> u64 run" where
  "rl_lastIndex S l s =
     (case maybeLastIndex l of Some i \<Rightarrow> Some i | None \<Rightarrow> st_last S s)"

text \<open>An entry of the unstable part is indexed: out of range would panic.\<close>

definition maybeTerm :: "raftLog \<Rightarrow> u64 \<Rightarrow> u64 option run" where
  "maybeTerm l i =
     (if i < unOffset l then
        (case unSnapshot l of
           Some x \<Rightarrow> Some (if smIndex (snMetadata x) = i then Some (smTerm (snMetadata x)) else None)
         | None \<Rightarrow> Some None)
      else
        (case maybeLastIndex l of
           None \<Rightarrow> Some None
         | Some lst \<Rightarrow>
             if i > lst then Some None
             else if unat (i - unOffset l) < length (unEntries l)
             then Some (Some (eTerm (unEntries l ! unat (i - unOffset l))))
             else panic))"

definition rl_term :: "'s storage \<Rightarrow> raftLog \<Rightarrow> 's \<Rightarrow> u64 \<Rightarrow> (err + u64) run" where
  "rl_term S l s i =
     do {
       f \<leftarrow> rl_firstIndex S l s;
       lst \<leftarrow> rl_lastIndex S l s;
       if i < f - 1 \<or> i > lst then Some (Inr 0)
       else do {
         m \<leftarrow> maybeTerm l i;
         case m of
           Some t \<Rightarrow> Some (Inr t)
         | None \<Rightarrow>
             do {
               r \<leftarrow> st_term S i s;
               case r of
                 Inr t \<Rightarrow> Some (Inr t)
               | Inl e \<Rightarrow> if e = ErrCompacted \<or> e = ErrUnavailable then Some (Inl e) else panic
             }
       }
     }"

definition rl_lastTerm :: "'s storage \<Rightarrow> raftLog \<Rightarrow> 's \<Rightarrow> u64 run" where
  "rl_lastTerm S l s =
     do {
       i \<leftarrow> rl_lastIndex S l s;
       r \<leftarrow> rl_term S l s i;
       case r of Inl _ \<Rightarrow> panic | Inr t \<Rightarrow> Some t
     }"

definition rl_isUpToDate :: "'s storage \<Rightarrow> raftLog \<Rightarrow> 's \<Rightarrow> u64 \<Rightarrow> u64 \<Rightarrow> bool run" where
  "rl_isUpToDate S l s lasti t =
     do {
       lt \<leftarrow> rl_lastTerm S l s;
       i \<leftarrow> rl_lastIndex S l s;
       Some (t > lt \<or> t = lt \<and> lasti \<ge> i)
     }"

definition rl_matchTerm :: "'s storage \<Rightarrow> raftLog \<Rightarrow> 's \<Rightarrow> u64 \<Rightarrow> u64 \<Rightarrow> bool run" where
  "rl_matchTerm S l s i t =
     map_option (\<lambda>r. case r of Inl _ \<Rightarrow> False | Inr x \<Rightarrow> x = t) (rl_term S l s i)"

definition unstable_slice :: "raftLog \<Rightarrow> u64 \<Rightarrow> u64 \<Rightarrow> Entry list run" where
  "unstable_slice l lo hi =
     (let upper = unOffset l + word_of_nat (length (unEntries l)) in
      if lo > hi \<or> lo < unOffset l \<or> hi > upper then panic
      else Some (take (unat (hi - unOffset l) - unat (lo - unOffset l))
                  (drop (unat (lo - unOffset l)) (unEntries l))))"

definition rl_checkOutOfBounds :: "'s storage \<Rightarrow> raftLog \<Rightarrow> 's \<Rightarrow> u64 \<Rightarrow> u64 \<Rightarrow> err option run" where
  "rl_checkOutOfBounds S l s lo hi =
     (if lo > hi then panic
      else do {
        fi \<leftarrow> rl_firstIndex S l s;
        if lo < fi then Some (Some ErrCompacted)
        else do {
          lst \<leftarrow> rl_lastIndex S l s;
          if hi > fi + (lst + 1 - fi) then panic else Some None
        }
      })"

definition rl_slice :: "'s storage \<Rightarrow> raftLog \<Rightarrow> 's \<Rightarrow> u64 \<Rightarrow> u64 \<Rightarrow> u64 \<Rightarrow> (err + Entry list) run" where
  "rl_slice S l s lo hi maxSize =
     do {
       chk \<leftarrow> rl_checkOutOfBounds S l s lo hi;
       case chk of
         Some e \<Rightarrow> Some (Inl e)
       | None \<Rightarrow>
           if lo = hi then Some (Inr [])
           else do {
             let upto = min hi (unOffset l);
             stored \<leftarrow> (if lo < unOffset l then st_entries S lo upto maxSize s else Some (Inr []));
             case stored of
               Inl e \<Rightarrow> if e = ErrCompacted then Some (Inl e) else panic
             | Inr es \<Rightarrow>
                 if lo < unOffset l \<and> (word_of_nat (length es) :: u64) < upto - lo then Some (Inr es)
                 else do {
                   us \<leftarrow> (if hi > unOffset l then unstable_slice l (max lo (unOffset l)) hi
                          else Some []);
                   Some (Inr (limitSize (es @ us) (unat maxSize)))
                 }
           }
     }"

text \<open>The log part of \<^verbatim>\<open>newRaft\<close>, which \<^verbatim>\<open>StartNode\<close> and \<^verbatim>\<open>RestartNode\<close> run: the saved hard state and the
  applied index are checked against the log, and raft panics when they do not fit it.\<close>

definition rl_appliedTo :: "u64 \<Rightarrow> raftLog \<Rightarrow> raftLog run" where
  "rl_appliedTo i l =
     (if i = 0 then Some l
      else if rlCommitted l < i \<or> i < rlApplied l then panic
      else Some (l\<lparr>rlApplied := i\<rparr>))"

definition loadState :: "'s storage \<Rightarrow> 's \<Rightarrow> HardState \<Rightarrow> raftLog \<Rightarrow> raftLog run" where
  "loadState S s state l =
     do {
       lst \<leftarrow> rl_lastIndex S l s;
       if hsCommit state < rlCommitted l \<or> hsCommit state > lst then panic
       else Some (l\<lparr>rlCommitted := hsCommit state\<rparr>)
     }"

definition newRaft_log :: "'s storage \<Rightarrow> 's \<Rightarrow> HardState \<Rightarrow> u64 \<Rightarrow> raftLog run" where
  "newRaft_log S s hs applied =
     do {
       l \<leftarrow> newLog S s;
       l1 \<leftarrow> (if \<not> IsEmptyHardState hs then loadState S s hs l else Some l);
       if applied > 0 then rl_appliedTo applied l1 else Some l1
     }"

section \<open>The client on a storage that keeps the contract\<close>

context raft_storage
begin

lemma newLog_opens:
  assumes "inv s"
  shows "\<exists>l f lst. newLog S s = Some l \<and> st_first S s = Some f \<and> st_last S s = Some lst \<and>
    l = \<lparr>unSnapshot = None, unEntries = [], unOffset = lst + 1, rlCommitted = f - 1, rlApplied = f - 1\<rparr> \<and>
    rlCommitted l \<le> lst"
proof -
  obtain f lst where b: "st_first S s = Some f" "st_last S s = Some lst" "0 < f"
    "unat f \<le> Suc (unat lst)" using bounds [OF assms] by blast
  have "f \<noteq> 0" using b(3) by auto
  then have "unat (f - 1) = unat f - 1" by (simp add: unat_minus_one)
  then have "f - 1 \<le> lst" using b(4) by (simp add: word_le_nat_alt)
  with b show ?thesis by (simp add: newLog_def)
qed

text \<open>Raft starts when the commit index lies in the log and the applied index is committed.\<close>

lemma newRaft_log_starts:
  assumes "inv s" "st_first S s = Some f" "st_last S s = Some lst"
    and "f - 1 \<le> hsCommit hs" "hsCommit hs \<le> lst" "\<not> IsEmptyHardState hs"
    and "f - 1 \<le> applied" "applied \<le> hsCommit hs" and l: "newLog S s = Some l"
  shows "newRaft_log S s hs applied = Some (l\<lparr>rlCommitted := hsCommit hs, rlApplied := applied\<rparr>)"
proof -
  have "l = \<lparr>unSnapshot = None, unEntries = [], unOffset = lst + 1, rlCommitted = f - 1, rlApplied = f - 1\<rparr>"
    using newLog_opens [OF assms(1)] assms(2,3) l by auto
  moreover have "f - 1 = 0" if "applied = 0" using assms(7) that by simp
  ultimately show ?thesis using l assms(3-8)
    by (auto simp: newRaft_log_def loadState_def rl_lastIndex_def maybeLastIndex_def rl_appliedTo_def
        not_less word_gt_0)
qed

text \<open>Reading a term never panics, and never fails within the log.\<close>

lemma opened_term:
  assumes "inv s" "newLog S s = Some l"
  shows "\<exists>t. rl_term S l s i = Some (Inr t)"
proof -
  obtain f lst where b: "st_first S s = Some f" "st_last S s = Some lst"
    and l: "l = \<lparr>unSnapshot = None, unEntries = [], unOffset = lst + 1,
      rlCommitted = f - 1, rlApplied = f - 1\<rparr>"
    using newLog_opens [OF assms(1)] assms(2) by auto
  have f: "rl_firstIndex S l s = Some f" "rl_lastIndex S l s = Some lst"
    by (simp_all add: rl_firstIndex_def rl_lastIndex_def maybeLastIndex_def l b)
  have m: "maybeTerm l i = Some None" by (simp add: maybeTerm_def maybeLastIndex_def l)
  show ?thesis
  proof (cases "i < f - 1 \<or> i > lst")
    case True
    then show ?thesis by (simp add: rl_term_def f)
  next
    case False
    then obtain t where "st_term S i s = Some (Inr t)"
      using term_in_range [OF assms(1) b, of i] by (auto simp: not_less)
    with False show ?thesis by (simp add: rl_term_def f m)
  qed
qed

lemma opened_lastTerm:
  assumes "inv s" "newLog S s = Some l"
  shows "\<exists>t. rl_lastTerm S l s = Some t"
proof -
  obtain lst where "rl_lastIndex S l s = Some lst"
    using newLog_opens [OF assms(1)] assms(2)
    by (auto simp: rl_lastIndex_def maybeLastIndex_def)
  then show ?thesis
    using opened_term [OF assms, of lst] by (auto simp: rl_lastTerm_def)
qed

text \<open>The order of logs that votes go by: the later last term wins, then the longer log.\<close>

lemma opened_isUpToDate:
  assumes "inv s" "newLog S s = Some l" "st_last S s = Some lst" "st_term S lst s = Some (Inr lt)"
  shows "rl_isUpToDate S l s i t = Some (LogPos lt lst \<le> LogPos t i)"
proof -
  obtain f where f: "st_first S s = Some f" "f - 1 \<le> lst" and
    l: "l = \<lparr>unSnapshot = None, unEntries = [], unOffset = lst + 1,
      rlCommitted = f - 1, rlApplied = f - 1\<rparr>"
    using newLog_opens [OF assms(1)] assms(2,3) by auto
  have b: "rl_firstIndex S l s = Some f" "rl_lastIndex S l s = Some lst" "maybeTerm l lst = Some None"
    using f(1) assms(3)
    by (simp_all add: rl_firstIndex_def rl_lastIndex_def maybeTerm_def maybeLastIndex_def l)
  then have "rl_lastTerm S l s = Some lt"
    using f(2) assms(4) by (simp add: rl_lastTerm_def rl_term_def leD)
  then show ?thesis using b(2) by (auto simp: rl_isUpToDate_def less_eq_log_pos_def)
qed

text \<open>A vote request or an append request can be answered.\<close>

lemma opened_answers:
  assumes "inv s" "newLog S s = Some l"
  shows "rl_isUpToDate S l s i t \<noteq> panic" "rl_matchTerm S l s i t \<noteq> panic"
proof -
  obtain lst where "rl_lastIndex S l s = Some lst"
    using newLog_opens [OF assms(1)] assms(2)
    by (auto simp: rl_lastIndex_def maybeLastIndex_def)
  then show "rl_isUpToDate S l s i t \<noteq> panic"
    using opened_lastTerm [OF assms] by (auto simp: rl_isUpToDate_def)
  show "rl_matchTerm S l s i t \<noteq> panic"
    using opened_term [OF assms, of i] by (auto simp: rl_matchTerm_def)
qed

text \<open>A slice of the log: as many entries as asked for, with consecutive indexes.\<close>

lemma opened_slice:
  assumes "inv s" "newLog S s = Some l" "st_first S s = Some f" "st_last S s = Some lst"
    "f \<le> lo" "lo \<le> hi" "hi \<le> lst + 1"
  shows "\<exists>es. rl_slice S l s lo hi noLimit = Some (Inr es) \<and> length es = unat hi - unat lo \<and>
    consecutive lo es"
proof -
  have l: "l = \<lparr>unSnapshot = None, unEntries = [], unOffset = lst + 1,
      rlCommitted = f - 1, rlApplied = f - 1\<rparr>"
    using newLog_opens [OF assms(1)] assms(2-4) by auto
  have f: "rl_firstIndex S l s = Some f" "rl_lastIndex S l s = Some lst"
    using assms(3,4) by (simp_all add: rl_firstIndex_def rl_lastIndex_def maybeLastIndex_def l)
  have chk: "rl_checkOutOfBounds S l s lo hi = Some None"
    using assms(5-7) by (auto simp: rl_checkOutOfBounds_def f)
  show ?thesis
  proof (cases "lo = hi")
    case True
    then show ?thesis using chk by (simp add: rl_slice_def)
  next
    case False
    then have lt: "lo < hi" using assms(6) by simp
    obtain es where es: "st_entries S lo hi noLimit s = Some (Inr es)"
      "length es = unat hi - unat lo" "consecutive lo es"
      "sum_list (map Entry_Size es) \<le> unat noLimit"
      using entries_in_range [OF assms(1,3,4,5) lt assms(7)] by blast
    have "(word_of_nat (length es) :: u64) = hi - lo"
    proof -
      have "unat (hi - lo) = length es" using lt by (simp add: word_sub_unat es(2))
      then show ?thesis by (metis of_nat_unat ucast_id)
    qed
    moreover have "lo < lst + 1" "min hi (lst + 1) = hi" "\<not> lst + 1 < hi"
      using lt assms(7) by auto
    ultimately show ?thesis
      using False chk es by (simp add: rl_slice_def l limitSize_all)
  qed
qed

end

section \<open>The providers\<close>

text \<open>The log is small enough for \<open>noLimit\<close> to be no limit, and for a Go slice.\<close>

definition log_sizes :: "Entry list \<Rightarrow> bool" where
  "log_sizes es \<longleftrightarrow> sum_list (map Entry_Size es) < 2 ^ 63 \<and> length es < 2 ^ 63"

definition memory_storage :: "MemoryStorage storage" where
  "memory_storage = \<lparr>st_first = (\<lambda>ms. Some (ms_firstIndex ms)),
     st_last = (\<lambda>ms. Some (ms_lastIndex ms)), st_term = ms_Term, st_entries = ms_Entries\<rparr>"

definition disk_storage :: "('d pebble \<times> 'd peerStorage) storage" where
  "disk_storage = \<lparr>st_first = (\<lambda>(P, s). FirstIndex s), st_last = (\<lambda>(P, s). Some (LastIndex s)),
     st_term = (\<lambda>i (P, s). Term P i s), st_entries = (\<lambda>lo hi m (P, s). Entries P lo hi m s)\<rparr>"

definition memory_inv :: "MemoryStorage \<Rightarrow> bool" where
  "memory_inv ms \<longleftrightarrow> ms_ok ms \<and> log_sizes (msEnts ms)"

definition disk_inv :: "'d pebble \<times> 'd peerStorage \<Rightarrow> bool" where
  "disk_inv Ps = (case Ps of (P, s) \<Rightarrow> log_ok P s \<and> log_sizes (peer_ents P s))"

lemma noLimit_nat: "unat noLimit = 2 ^ 64 - 1"
  by (simp add: noLimit_def unsigned_minus_1_eq_mask mask_eq_exp_minus_1)

text \<open>The window of a log, whichever provider holds it.\<close>

lemma sum_sizes_window: "sum_list (map Entry_Size (take m (drop n es))) \<le> sum_list (map Entry_Size es)"
proof -
  have "sum_list (map Entry_Size (take k xs)) \<le> sum_list (map Entry_Size xs)" for k xs
    by (metis append_take_drop_id le_add1 map_append sum_list_append)
  moreover have "sum_list (map Entry_Size (drop k xs)) \<le> sum_list (map Entry_Size xs)" for k xs
    by (metis append_take_drop_id le_add2 map_append sum_list_append)
  ultimately show ?thesis by (meson order_trans)
qed

lemma window_facts:
  assumes ok: "log_ok P s" and b: "trunc s + 1 \<le> lo" "lo < hi" "hi \<le> LastIndex s + 1"
  shows "trunc s < lo" "length (window P lo hi s) = unat hi - unat lo"
    "consecutive lo (window P lo hi s)"
    "j < unat hi - unat lo \<Longrightarrow> Term P (lo + word_of_nat j) s = Some (Inr (eTerm (window P lo hi s ! j)))"
proof -
  have t1: "unat (trunc s + 1) = Suc (unat (trunc s))" "unat (LastIndex s + 1) = Suc (unat (LastIndex s))"
    using log_ok_last [OF ok] by (simp_all add: unat_add_small [of _ 1, simplified])
  show lt: "trunc s < lo" using b(1) t1 by (simp add: word_le_nat_alt word_less_nat_alt)
  show len: "length (window P lo hi s) = unat hi - unat lo"
    using b by (intro length_window [OF ok lt]) auto
  let ?k = "unat lo - unat (trunc s)"
  have le: "lo \<le> LastIndex s" using b t1 by (simp add: word_le_nat_alt word_less_nat_alt)
  have k: "lo = trunc s + word_of_nat ?k" "?k < Suc (log_size s)"
    using log_index [OF ok _ le] lt by auto
  show "consecutive lo (window P lo hi s)"
    unfolding window_def
    using consecutive_take [OF consecutive_drop [OF peer_ents_consecutive [OF ok], of ?k]] k by simp
  show "Term P (lo + word_of_nat j) s = Some (Inr (eTerm (window P lo hi s ! j)))"
    if j: "j < unat hi - unat lo"
  proof -
    have u: "unat (lo + word_of_nat j) = unat lo + j"
      using j unsigned_less [of hi, where 'a = nat] by (intro unat_add_small) simp
    then have r: "trunc s \<le> lo + word_of_nat j" "lo + word_of_nat j \<le> LastIndex s"
      using j b t1 lt by (simp_all add: word_le_nat_alt word_less_nat_alt)
    let ?ms = "NewMemoryStorage\<lparr>msEnts := peer_ents P s\<rparr>"
    have ref: "refines P s ?ms" using ok by (simp add: refines_def)
    have "unat (lo + word_of_nat j) - unat (trunc s) = ?k + j"
      using u lt by (simp add: word_less_nat_alt)
    then show ?thesis
      using Term_refines [OF ref r] ms_Term_refines [OF ref r] j k(2) len
      by (simp add: window_def)
  qed
qed

interpretation disk: raft_storage "disk_storage :: ('d pebble \<times> 'd peerStorage) storage" disk_inv
proof
  fix Ps :: "'d pebble \<times> 'd peerStorage" and f l i lo hi
  assume "disk_inv Ps"
  then obtain P s where Ps: "Ps = (P, s)" and ok: "log_ok P s" and sz: "log_sizes (peer_ents P s)"
    by (auto simp: disk_inv_def)
  have st: "st_first disk_storage Ps = Some (trunc s + 1)" "st_last disk_storage Ps = Some (LastIndex s)"
    using ok by (simp_all add: disk_storage_def Ps FirstIndex_def)
  have t1: "unat (trunc s + 1) = Suc (unat (trunc s))"
    using log_ok_last [OF ok] by (simp add: unat_add_small [of _ 1, simplified])
  show "\<exists>f l. st_first disk_storage Ps = Some f \<and> st_last disk_storage Ps = Some l \<and>
      0 < f \<and> unat f \<le> Suc (unat l) \<and> Suc (unat l) < 2 ^ 64"
    using st t1 log_ok_last [OF ok] by (simp add: word_less_nat_alt)
  assume f: "st_first disk_storage Ps = Some f" and l: "st_last disk_storage Ps = Some l"
  then have fl: "f = trunc s + 1" "l = LastIndex s" using st by simp_all
  show "\<exists>t. st_term disk_storage i Ps = Some (Inr t)" if "f - 1 \<le> i" "i \<le> l"
  proof -
    let ?ms = "NewMemoryStorage\<lparr>msEnts := peer_ents P s\<rparr>"
    have ref: "refines P s ?ms" using ok by (simp add: refines_def)
    show ?thesis
      using that fl Term_refines [OF ref, of i] ms_Term_refines [OF ref, of i]
      by (simp add: disk_storage_def Ps)
  qed
  show "\<exists>es. st_entries disk_storage lo hi noLimit Ps = Some (Inr es) \<and>
      length es = unat hi - unat lo \<and> consecutive lo es \<and>
      sum_list (map Entry_Size es) \<le> unat noLimit \<and>
      (\<forall>j < length es. st_term disk_storage (lo + word_of_nat j) Ps = Some (Inr (eTerm (es ! j))))"
    if b: "f \<le> lo" "lo < hi" "hi \<le> l + 1"
  proof -
    note w = window_facts [OF ok b [unfolded fl]]
    have "unat hi - unat lo \<le> length (peer_ents P s)"
      using w(2) by (simp add: window_def)
    then have n: "unat hi - unat lo < 2 ^ 63" using sz by (simp add: log_sizes_def)
    have "Entries P lo hi noLimit s = Some (Inr (window P lo hi s))"
      using Entries_window [OF ok w(1) b(2) b(3) [unfolded fl] n] .
    moreover have "sum_list (map Entry_Size (window P lo hi s)) \<le> unat noLimit"
      using sz sum_sizes_window [of "unat hi - unat lo" "unat lo - unat (trunc s)" "peer_ents P s"]
      by (simp add: window_def log_sizes_def noLimit_nat)
    ultimately show ?thesis using w(2-4) by (simp add: disk_storage_def Ps)
  qed
qed

text \<open>The memory storage itself keeps the contract.\<close>

lemma ms_index:
  assumes "ms_ok ms" "ms_offset ms \<le> i" "i \<le> ms_lastIndex ms"
  shows "unat i - unat (ms_offset ms) < length (msEnts ms)"
    "unat (i - ms_offset ms) = unat i - unat (ms_offset ms)"
proof -
  obtain n where "length (msEnts ms) = Suc n"
    using assms(1) by (cases "msEnts ms") (auto simp: ms_ok_def)
  then show "unat i - unat (ms_offset ms) < length (msEnts ms)"
    using assms(3) ms_lastIndex_unat [OF assms(1)] by (simp add: word_le_nat_alt)
  show "unat (i - ms_offset ms) = unat i - unat (ms_offset ms)"
    using assms(2) by (rule word_sub_unat)
qed

lemma ms_Term_in_range:
  assumes "ms_ok ms" "ms_offset ms \<le> i" "i \<le> ms_lastIndex ms"
  shows "ms_Term i ms = Some (Inr (eTerm (msEnts ms ! (unat i - unat (ms_offset ms)))))"
  using ms_index [OF assms] sint_le_unat [of "i - ms_offset ms"] assms(2)
  by (simp add: ms_Term_def Let_def not_less)

interpretation memory: raft_storage memory_storage memory_inv
proof
  fix ms f l i lo hi
  assume "memory_inv ms"
  then have ok: "ms_ok ms" and sz: "log_sizes (msEnts ms)" by (simp_all add: memory_inv_def)
  let ?o = "ms_offset ms" and ?l = "ms_lastIndex ms"
  have st: "st_first memory_storage ms = Some (?o + 1)" "st_last memory_storage ms = Some ?l"
    by (simp_all add: memory_storage_def ms_firstIndex_def)
  obtain n where ne: "length (msEnts ms) = Suc n"
    using ok by (cases "msEnts ms") (auto simp: ms_ok_def)
  have lu: "unat ?l = unat ?o + (length (msEnts ms) - 1)" using ok by (rule ms_lastIndex_unat)
  have bl: "unat ?o + length (msEnts ms) < 2 ^ 64" using ok by (simp add: ms_ok_def)
  have t1: "unat (?o + 1) = Suc (unat ?o)" "unat (?l + 1) = Suc (unat ?l)"
    using bl ne lu by (simp_all add: unat_add_small [of _ 1, simplified])
  show "\<exists>f l. st_first memory_storage ms = Some f \<and> st_last memory_storage ms = Some l \<and>
      0 < f \<and> unat f \<le> Suc (unat l) \<and> Suc (unat l) < 2 ^ 64"
    using st t1 lu bl ne by (simp add: word_less_nat_alt)
  assume f: "st_first memory_storage ms = Some f" and l: "st_last memory_storage ms = Some l"
  then have fl: "f = ?o + 1" "l = ?l" using st by simp_all
  show "\<exists>t. st_term memory_storage i ms = Some (Inr t)" if "f - 1 \<le> i" "i \<le> l"
    using that fl ms_Term_in_range [OF ok, of i] by (simp add: memory_storage_def)
  show "\<exists>es. st_entries memory_storage lo hi noLimit ms = Some (Inr es) \<and>
      length es = unat hi - unat lo \<and> consecutive lo es \<and>
      sum_list (map Entry_Size es) \<le> unat noLimit \<and>
      (\<forall>j < length es. st_term memory_storage (lo + word_of_nat j) ms = Some (Inr (eTerm (es ! j))))"
    if b: "f \<le> lo" "lo < hi" "hi \<le> l + 1"
  proof -
    let ?k = "unat lo - unat ?o" and ?n = "unat hi - unat lo"
    let ?w = "take ?n (drop ?k (msEnts ms))"
    have n: "unat ?o < unat lo" "unat lo < unat hi" "unat hi \<le> Suc (unat ?l)"
      using b t1 by (simp_all add: fl word_le_nat_alt word_less_nat_alt)
    have u: "unat (lo - ?o) = ?k" "unat (hi - ?o) = unat hi - unat ?o"
      using n by (simp_all add: word_sub_unat word_le_nat_alt)
    have le: "unat hi - unat ?o \<le> length (msEnts ms)" "?k \<le> unat hi - unat ?o"
      "unat hi - unat ?o - ?k = ?n" using n lu ne by simp_all
    have sw: "sum_list (map Entry_Size ?w) \<le> unat noLimit"
      using sz sum_sizes_window [of ?n ?k "msEnts ms"] by (simp add: log_sizes_def noLimit_nat)
    have "\<not> lo \<le> ?o" "\<not> hi > ?l + 1" "length (msEnts ms) \<noteq> 1"
      using n b(3) fl lu ne by (auto simp: word_le_nat_alt word_less_nat_alt)
    then have e: "ms_Entries lo hi noLimit ms = Some (Inr ?w)"
      using le sw by (simp add: ms_Entries_def Let_def u limitSize_all)
    have len: "length ?w = ?n" using le n by simp
    have kl: "lo = ?o + word_of_nat ?k" using n by (simp add: of_nat_diff)
    have "consecutive lo ?w"
      using consecutive_take [OF consecutive_drop, of ?o "msEnts ms" ?k ?n] ok le kl
      by (simp add: ms_ok_def)
    moreover have "ms_Term (lo + word_of_nat j) ms = Some (Inr (eTerm (?w ! j)))" if "j < ?n" for j
    proof -
      have uj: "unat (lo + word_of_nat j) = unat lo + j"
        using that unsigned_less [of hi, where 'a = nat] by (intro unat_add_small) simp
      then have "?o \<le> lo + word_of_nat j" "lo + word_of_nat j \<le> ?l"
        using that n by (simp_all add: word_le_nat_alt)
      from ms_Term_in_range [OF ok this] show ?thesis
        using uj that n le by simp
    qed
    ultimately show ?thesis using e sw len by (auto simp: memory_storage_def)
  qed
qed

end
