(* ===== verification/Crash_Save.thy ===== *)
theory Crash_Save
  imports Ready_Save Raft_Log
begin

text \<open>
  A crash in the middle of a save. Every write of \<^verbatim>\<open>saveReadyState\<close> is synchronous, so a crash
  leaves the databases with a prefix of the save's writes. The writes are listed here in the
  code's order and shown to be what the code does; then every prefix is opened again. When the
  batch only extends the log, a crash keeps all of the batch or nothing of it. When it
  overwrites entries or brings a snapshot, it does not.
\<close>

section \<open>The writes of a save\<close>

datatype db_write = MetaWrite modify | KVWrite modify

fun do_write :: "'d pebble \<Rightarrow> db_write \<Rightarrow> 'd engines \<Rightarrow> 'd engines" where
  "do_write P (MetaWrite m) e = snd (WriteMeta P m e)"
| "do_write P (KVWrite m) e = snd (WriteKV P m e)"

abbreviation do_writes :: "'d pebble \<Rightarrow> db_write list \<Rightarrow> 'd engines \<Rightarrow> 'd engines" where
  "do_writes P ws e \<equiv> fold (do_write P) ws e"

definition entry_writes :: "Entry list \<Rightarrow> db_write list" where
  "entry_writes es =
     map (\<lambda>e. MetaWrite (PutMeta (RaftLogEntryKey (eIndex e)) marshal_Entry e True)) es"

definition delete_writes :: "Entry list \<Rightarrow> db_write list" where
  "delete_writes es = map (\<lambda>e. MetaWrite (DeleteMeta (RaftLogEntryKey (eIndex e)) True)) es"

definition append_writes :: "Entry list \<Rightarrow> 'd peerStorage \<Rightarrow> db_write list run" where
  "append_writes ents ps =
     (if ents = [] then Some []
      else do {
        firsti \<leftarrow> FirstIndex ps;
        trunc \<leftarrow> truncateIndex ps;
        if firsti > eIndex (last ents) then Some []
        else do {
          es \<leftarrow> drop_compacted firsti trunc ents;
          deleted \<leftarrow> (if LastIndex ps > eIndex (last ents)
                      then stale_entries (eIndex (last ents) + 1) (LastIndex ps) else Some []);
          Some (entry_writes es @ delete_writes deleted)
        }
      })"

definition snapshot_writes :: "bytes \<Rightarrow> Snapshot \<Rightarrow> db_write list run" where
  "snapshot_writes spare s =
     do {
       pairs \<leftarrow> Decode spare (slice (snData s));
       Some (MetaWrite (PutMeta RaftApplyStateKey marshal_ApplyState (snapshot_state s) True) #
             MetaWrite (PutMeta RaftConfStateKey marshal_ConfState (smConfState (snMetadata s)) True) #
             map (\<lambda>p. KVWrite (PutData (Key p) (Val p) True)) pairs)
     }"

definition local_write :: "RaftLocalState \<Rightarrow> db_write" where
  "local_write l = MetaWrite (PutMeta RaftLocalStateKey marshal_LocalState l True)"

definition save_writes :: "'d pebble \<Rightarrow> bytes \<Rightarrow> Ready \<Rightarrow> 'd peerStorage \<Rightarrow> db_write list run" where
  "save_writes P spare rd ps =
     do {
       ws1 \<leftarrow> (if \<not> IsEmptySnap (rdSnapshot rd) then snapshot_writes spare (rdSnapshot rd) else Some []);
       ps1 \<leftarrow> (if \<not> IsEmptySnap (rdSnapshot rd) then applySnapshot P spare (rdSnapshot rd) ps
               else Some ps);
       ws2 \<leftarrow> append_writes (rdEntries rd) ps1;
       (_, ps') \<leftarrow> saveReadyState P spare rd ps;
       Some (ws1 @ ws2 @ [local_write (localState ps')])
     }"

text \<open>What the code's loops leave in the databases is what the listed writes leave.\<close>

lemma engines_putMeta:
  "engines (snd (putMeta P key marshal msg ps)) =
     do_write P (MetaWrite (PutMeta key marshal msg True)) (engines ps)"
  by (simp add: putMeta_def split: prod.split)

lemma engines_deleteMeta:
  "engines (snd (deleteMeta P key ps)) = do_write P (MetaWrite (DeleteMeta key True)) (engines ps)"
  by (simp add: deleteMeta_def split: prod.split)

lemma engines_appendLogEntries:
  assumes "pebble_ok P" "healthy P"
  shows "engines (snd (appendLogEntries P es ps)) = do_writes P (entry_writes es) (engines ps)"
proof (induction es arbitrary: ps)
  case (Cons e es)
  obtain ps1 where p: "putMeta P (RaftLogEntryKey (eIndex e)) marshal_Entry e ps = (None, ps1)"
    using putMeta_effect(1) [OF assms] by (metis prod.collapse)
  then show ?case
    using Cons [of ps1] engines_putMeta [of P "RaftLogEntryKey (eIndex e)" marshal_Entry e ps]
    by (simp add: entry_writes_def)
qed (simp add: entry_writes_def)

lemma engines_deleteLogEntries:
  assumes "pebble_ok P" "healthy P"
  shows "engines (snd (deleteLogEntries P es ps)) = do_writes P (delete_writes es) (engines ps)"
proof (induction es arbitrary: ps)
  case (Cons e es)
  obtain ps1 where p: "deleteMeta P (RaftLogEntryKey (eIndex e)) ps = (None, ps1)"
    using deleteMeta_effect(1) [OF assms] by (metis prod.collapse)
  then show ?case
    using Cons [of ps1] engines_deleteMeta [of P "RaftLogEntryKey (eIndex e)" ps]
    by (simp add: delete_writes_def)
qed (simp add: delete_writes_def)

lemma engines_truncateAndAppend:
  assumes "pebble_ok P" "healthy P" "truncateAndAppend P ents ps = Some ps'"
  shows "\<exists>ws. append_writes ents ps = Some ws \<and> engines ps' = do_writes P ws (engines ps)"
proof (cases "ents = []")
  case True
  then show ?thesis using assms(3) by (simp add: truncateAndAppend_def append_writes_def)
next
  case False
  have L: "LastIndex (snd (appendLogEntries P es ps)) = LastIndex ps" for es
    using meta_only_fields(2) [of ps "snd (appendLogEntries P es ps)"] by (simp add: LastIndex_def)
  obtain f t where ft: "FirstIndex ps = Some f" "truncateIndex ps = Some t"
    using assms(3) False by (auto simp: truncateAndAppend_def bind_eq_Some_conv)
  show ?thesis
  proof (cases "f > eIndex (last ents)")
    case True
    then show ?thesis
      using assms(3) False ft by (simp add: truncateAndAppend_def append_writes_def)
  next
    case g: False
    then obtain es dl where d: "drop_compacted f t ents = Some es"
      "(if LastIndex ps > eIndex (last ents)
        then stale_entries (eIndex (last ents) + 1) (LastIndex ps) else Some []) = Some dl"
      using assms(3) False ft
      by (auto simp: truncateAndAppend_def L Let_def bind_eq_Some_conv cong: if_cong)
    have "engines ps' = do_writes P (entry_writes es @ delete_writes dl) (engines ps)"
      using assms(3) False ft g d
      by (cases "LastIndex ps > eIndex (last ents)")
        (auto simp: truncateAndAppend_def L Let_def delete_writes_def [of "[]"]
          engines_appendLogEntries [OF assms(1,2)] engines_deleteLogEntries [OF assms(1,2)])
    then show ?thesis using False ft g d by (simp add: append_writes_def)
  qed
qed

lemma engines_write_pairs:
  "write_pairs P pairs e = do_writes P (map (\<lambda>p. KVWrite (PutData (Key p) (Val p) True)) pairs) e"
  by (induction pairs arbitrary: e) simp_all

lemma engines_applySnapshot:
  assumes "applySnapshot P spare s ps = Some ps'"
  shows "\<exists>ws. snapshot_writes spare s = Some ws \<and> engines ps' = do_writes P ws (engines ps)"
  using assms
  by (auto simp: applySnapshot_def snapshot_writes_def Let_def bind_eq_Some_conv snapshot_state_def
      truncated_update writeApplyState_def writeConfState_def engines_putMeta engines_write_pairs)

text \<open>The listed writes are those of \<^verbatim>\<open>saveReadyState\<close>, all of them and in its order.\<close>

theorem save_writes_exact:
  assumes P: "pebble_ok P" "healthy P" and s: "saveReadyState P spare rd ps = Some (er, ps')"
  shows "\<exists>ws. save_writes P spare rd ps = Some ws \<and> engines ps' = do_writes P ws (engines ps)"
proof -
  obtain ps1 where a: "(if \<not> IsEmptySnap (rdSnapshot rd)
      then applySnapshot P spare (rdSnapshot rd) ps else Some ps) = Some ps1"
    using s by (auto simp: saveReadyState_def bind_eq_Some_conv)
  obtain ps2 where b: "truncateAndAppend P (rdEntries rd) ps1 = Some ps2"
    using s a by (auto simp: saveReadyState_def bind_eq_Some_conv)
  define ps3 where "ps3 = (if \<not> IsEmptyHardState (rdHardState rd)
    then ps2\<lparr>localState := (localState ps2)\<lparr>lsHardState := Some (rdHardState rd)\<rparr>\<rparr> else ps2)"
  have c: "ps' = snd (writeLocalState P (localState ps3) ps3)" "engines ps3 = engines ps2"
    using s a b by (simp_all add: saveReadyState_def Let_def ps3_def prod_eq_iff)
  obtain ws1 where w1: "(if \<not> IsEmptySnap (rdSnapshot rd)
      then snapshot_writes spare (rdSnapshot rd) else Some []) = Some ws1"
    "engines ps1 = do_writes P ws1 (engines ps)"
    using a engines_applySnapshot [of P spare "rdSnapshot rd" ps ps1] by (auto split: if_split_asm)
  obtain ws2 where w2: "append_writes (rdEntries rd) ps1 = Some ws2"
    "engines ps2 = do_writes P ws2 (engines ps1)"
    using engines_truncateAndAppend [OF P b] by blast
  have l: "localState ps' = localState ps3" by (simp add: c)
  have "engines ps' = do_write P (local_write (localState ps')) (engines ps2)"
    unfolding l by (simp add: c writeLocalState_def local_write_def engines_putMeta)
  with a w1 w2 s show ?thesis by (simp add: save_writes_def)
qed

text \<open>Each of them is synchronous, so a crash cannot lose one and keep a later one.\<close>

fun synced :: "db_write \<Rightarrow> bool" where
  "synced (MetaWrite m) = (toWriteOptions (modify_Sync m) = Pebble_Sync)"
| "synced (KVWrite m) = (toWriteOptions (modify_Sync m) = Pebble_Sync)"

lemma append_writes_shape:
  assumes "append_writes ents ps = Some ws"
  shows "\<exists>es dl. ws = entry_writes es @ delete_writes dl"
proof -
  have "ws = [] \<or> ?thesis"
    using assms by (auto simp: append_writes_def bind_eq_Some_conv split: if_split_asm)
  moreover have "[] = entry_writes [] @ delete_writes []"
    by (simp add: entry_writes_def delete_writes_def)
  ultimately show ?thesis by blast
qed

lemma save_writes_synced:
  assumes "save_writes P spare rd ps = Some ws"
  shows "list_all synced ws"
proof -
  obtain ws1 where w1: "(if \<not> IsEmptySnap (rdSnapshot rd)
      then snapshot_writes spare (rdSnapshot rd) else Some []) = Some ws1"
    using assms by (auto simp: save_writes_def bind_eq_Some_conv)
  obtain ps1 where p1: "(if \<not> IsEmptySnap (rdSnapshot rd)
      then applySnapshot P spare (rdSnapshot rd) ps else Some ps) = Some ps1"
    using assms by (auto simp: save_writes_def bind_eq_Some_conv)
  obtain ws2 where w2: "append_writes (rdEntries rd) ps1 = Some ws2"
    using assms w1 p1 by (auto simp: save_writes_def bind_eq_Some_conv)
  obtain l where l: "ws = ws1 @ ws2 @ [local_write l]"
    using assms w1 p1 w2 by (auto simp: save_writes_def bind_eq_Some_conv)
  obtain es dl where "ws2 = entry_writes es @ delete_writes dl"
    using append_writes_shape [OF w2] by blast
  with w1 l show ?thesis
    by (auto split: if_split_asm simp: list_all_iff entry_writes_def delete_writes_def local_write_def snapshot_writes_def
        bind_eq_Some_conv PutMeta_def DeleteMeta_def PutData_def toWriteOptions_def)
qed

section \<open>A log with part of a batch written over it\<close>

text \<open>\<open>es\<close> written over \<open>xs\<close> from position \<open>off\<close> on, as far as \<open>xs\<close> reaches.\<close>

definition torn_ents :: "nat \<Rightarrow> Entry list \<Rightarrow> Entry list \<Rightarrow> Entry list" where
  "torn_ents off es xs = take off xs @ take (length xs - off) es @ drop (off + length es) xs"

lemma length_torn_ents [simp]: "length (torn_ents off es xs) = length xs"
  by (auto simp: torn_ents_def min_def)

lemma torn_ents_nth:
  "j < length xs \<Longrightarrow> torn_ents off es xs ! j =
     (if off \<le> j \<and> j - off < length es then es ! (j - off) else xs ! j)"
  by (auto simp: torn_ents_def nth_append min_def)

lemma torn_ents_beyond [simp]: "length xs \<le> off \<Longrightarrow> torn_ents off es xs = xs"
  by (simp add: torn_ents_def)

text \<open>As long as the last entry is not touched, such a log is read back.\<close>

lemma torn_log:
  assumes ok: "log_ok P ps" and es: "consecutive i0 es" "unat i0 + length es < 2 ^ 64"
    and i0: "trunc ps < i0" "LastIndex ps < i0 \<or> unat i0 + length es \<le> unat (LastIndex ps)"
    and r: "applyState r = applyState ps" "localState r = localState ps"
    and le: "\<And>i. i \<le> LastIndex ps \<Longrightarrow> log_entry P r i =
      (if i0 \<le> i \<and> unat i - unat i0 < length es then Some (es ! (unat i - unat i0))
       else log_entry P ps i)"
  shows "log_ok P r \<and> peer_ents P r =
    torn_ents (unat i0 - unat (trunc ps)) es (peer_ents P ps)"
proof -
  let ?t = "unat (trunc ps)" and ?off = "unat i0 - unat (trunc ps)"
  let ?xs = "torn_ents ?off es (peer_ents P ps)"
  have tr: "trunc r = trunc ps" "dummy_entry r = dummy_entry ps" "LastIndex r = LastIndex ps"
    using trunc_cong [OF r(1)] r(2) by (simp_all add: dummy_entry_def LastIndex_def)
  have sz: "log_size r = log_size ps" by (simp add: log_size_def tr)
  have t0: "?t < unat i0" using i0(1) by (simp add: word_less_nat_alt)
  have far: "Suc (log_size ps) \<le> ?off \<or> ?off + length es \<le> log_size ps"
    using i0(2) t0 log_ok_last(1) [OF ok] by (auto simp: log_size_def word_less_nat_alt)
  have off: "i0 = trunc ps + word_of_nat ?off"
    using t0 by (simp add: word_unat_eq_iff unat_add_small)
  show ?thesis
  proof (rule log_okI)
    show "asTruncatedState (applyState r) \<noteq> None" "trunc r \<le> LastIndex r" "LastIndex r \<noteq> - 1"
      using ok by (simp_all add: tr r log_ok_def)
    show "length ?xs = Suc (log_size r)" by (simp add: sz)
    show "consecutive (trunc r) ?xs"
      unfolding consecutive_def
    proof (intro allI impI)
      fix j assume j: "j < length ?xs"
      have "eIndex (peer_ents P ps ! j) = trunc ps + word_of_nat j"
        using peer_ents_consecutive [OF ok] j by (simp add: consecutive_def)
      moreover have "eIndex (es ! (j - ?off)) = trunc ps + word_of_nat j"
        if "?off \<le> j" "j - ?off < length es"
      proof -
        have "eIndex (es ! (j - ?off)) = i0 + word_of_nat (j - ?off)"
          using es(1) that(2) by (simp add: consecutive_def)
        also have "\<dots> = trunc ps + (word_of_nat ?off + word_of_nat (j - ?off))"
          by (subst (1) off) (rule add.assoc)
        also have "word_of_nat ?off + word_of_nat (j - ?off) = (word_of_nat j :: u64)"
          using that(1) by (simp only: le_add_diff_inverse flip: of_nat_add)
        finally show ?thesis .
      qed
      ultimately show "eIndex (?xs ! j) = trunc r + word_of_nat j"
        using j by (simp add: torn_ents_nth tr)
    qed
    show "?xs ! 0 = dummy_entry r"
      using t0 by (simp add: torn_ents_nth tr peer_ents_nth)
    have "?xs \<noteq> []" by (metis length_torn_ents length_0_conv peer_ents_nonempty)
    then have "last ?xs = ?xs ! log_size ps" by (simp add: last_conv_nth)
    also have "\<dots> = peer_ents P ps ! log_size ps" using far by (auto simp: torn_ents_nth)
    also have "\<dots> = last (peer_ents P ps)" by (simp add: last_conv_nth)
    finally have "last ?xs = last (peer_ents P ps)" .
    then show "eTerm (last ?xs) = lsLastTerm (localState r)"
      using ok by (simp add: log_ok_def r)
    fix j assume "j < log_size r"
    then have j: "j < log_size ps" by (simp only: sz)
    let ?i = "trunc ps + word_of_nat (Suc j)"
    have u: "unat ?i = ?t + Suc j"
      using j log_ok_last [OF ok] by (intro unat_add_small) (simp add: log_size_def)
    then have "trunc ps < ?i" "?i \<le> LastIndex ps"
      using j log_ok_last [OF ok]
      by (auto simp: log_size_def word_less_nat_alt word_le_nat_alt simp del: of_nat_Suc)
    then have "log_entry P ps ?i = Some (peer_ents P ps ! Suc j)"
      using log_entry_stored [OF ok, of ?i] u by (auto simp del: of_nat_Suc)
    moreover have "i0 \<le> ?i \<longleftrightarrow> ?off \<le> Suc j" "?i - i0 = ?i - i0"
      using u t0 by (auto simp: word_le_nat_alt simp del: of_nat_Suc)
    moreover have "unat ?i - unat i0 = Suc j - ?off" using u t0 by simp
    ultimately show "log_entry P r (trunc r + word_of_nat (Suc j)) = Some (?xs ! Suc j)"
      using j \<open>?i \<le> LastIndex ps\<close>
      by (simp add: le tr torn_ents_nth del: of_nat_Suc)
  qed
qed

section \<open>Opening the databases after a crash\<close>

text \<open>When the states on disk are untouched, a start finds them, and whatever log there is.\<close>

definition reopened_on :: "'d engines \<Rightarrow> 'd peerStorage \<Rightarrow> 'd peerStorage" where
  "reopened_on e ps = (reopened ps)\<lparr>engines := e\<rparr>"

lemma reopened_on_fields [simp]:
  "engines (reopened_on e ps) = e" "localState (reopened_on e ps) = localState ps"
  "applyState (reopened_on e ps) = applyState ps" "confState (reopened_on e ps) = confState ps"
  "LastIndex (reopened_on e ps) = LastIndex ps" "AppliedIndex (reopened_on e ps) = AppliedIndex ps"
  by (simp_all add: reopened_on_def reopened_def LastIndex_def AppliedIndex_def)

lemma newPeerStorage_same_states:
  assumes "healthy P" "persisted P ps"
    "\<And>key. key \<in> {RaftLocalStateKey, RaftApplyStateKey, RaftConfStateKey} \<Longrightarrow>
      meta_map P e key = meta_map P (engines ps) key"
  shows "newPeerStorage P e = Some (reopened_on e ps)" "persisted P (reopened_on e ps)"
proof -
  have k: "meta_map P e RaftLocalStateKey = meta_map P (engines ps) RaftLocalStateKey"
    "meta_map P e RaftApplyStateKey = meta_map P (engines ps) RaftApplyStateKey"
    "meta_map P e RaftConfStateKey = meta_map P (engines ps) RaftConfStateKey"
    using assms(3) by simp_all
  have "InitRaftLocalState P e = Some (localState ps)" "InitRaftApplyState P e = Some (applyState ps)"
    "InitRaftConfState P e = Some (confState ps)"
    using assms(2) Init_cong(1) [OF assms(1) k(1)] Init_cong(2) [OF assms(1) k(2)]
      Init_cong(3) [OF assms(1) k(3)]
    by (simp_all add: persisted_def)
  then show "newPeerStorage P e = Some (reopened_on e ps)" "persisted P (reopened_on e ps)"
    by (simp_all add: newPeerStorage_def reopened_on_def reopened_def persisted_def)
qed

lemma log_entry_engines: "log_entry P (reopened_on (engines s) ps) = log_entry P s"
  by (rule ext) (simp add: log_entry_def)

lemma reopened_on_own [simp]: "reopened_on (engines ps) ps = reopened ps"
  by (simp add: reopened_on_def reopened_def)

lemma engines_reopened [simp]: "engines (reopened ps) = engines ps"
  by (simp add: reopened_def)

text \<open>The writes of a batch without a snapshot whose entries start behind the truncated index.\<close>

lemma plain_save_writes:
  assumes P: "pebble_ok P" "healthy P" and ok: "log_ok P ps"
    and rd: "IsEmptySnap (rdSnapshot rd)" "ready_ents (rdEntries rd) ps" "rdEntries rd \<noteq> []"
      "trunc ps < eIndex (hd (rdEntries rd))"
    and ws: "save_writes P spare rd ps = Some ws"
  shows "\<exists>dl l. ws = entry_writes (rdEntries rd) @ delete_writes dl @ [local_write l] \<and>
    eIndex ` set dl = (if LastIndex ps > eIndex (last (rdEntries rd))
      then {eIndex (last (rdEntries rd)) + 1..LastIndex ps} else {}) \<and>
    (LastIndex ps > eIndex (last (rdEntries rd)) \<longrightarrow>
      dl \<noteq> [] \<and> eIndex (hd dl) = eIndex (last (rdEntries rd)) + 1)"
proof -
  let ?es = "rdEntries rd"
  have L: "LastIndex ps \<noteq> - 1" using ok by (simp add: log_ok_def)
  have "trunc ps \<noteq> - 1" using log_ok_last [OF ok]
    by (auto simp: unsigned_minus_1_eq_mask mask_eq_exp_minus_1)
  then have t: "\<not> trunc ps + 1 > eIndex (hd ?es)"
    using rd(4) unat_minus_one_less [of "trunc ps"]
    by (simp add: word_less_nat_alt unat_add_small [of _ 1, simplified])
  have "0 < length ?es" using rd(3) by simp
  then have "eIndex (hd ?es) \<le> eIndex (last ?es)"
    using ready_ents_last [OF rd(2,3)] by (simp add: word_le_nat_alt del: length_greater_0_conv)
  then have f: "\<not> trunc ps + 1 > eIndex (last ?es)" using t by simp
  obtain dl where dl: "(if LastIndex ps > eIndex (last ?es)
      then stale_entries (eIndex (last ?es) + 1) (LastIndex ps) else Some []) = Some dl"
    "eIndex ` set dl = (if LastIndex ps > eIndex (last ?es)
      then {eIndex (last ?es) + 1..LastIndex ps} else {})"
    using stale_entries_returns [OF L, of "eIndex (last ?es) + 1"]
    by (cases "LastIndex ps > eIndex (last ?es)") auto
  have "append_writes ?es ps = Some (entry_writes ?es @ delete_writes dl)"
    using rd(3) ok t f dl(1) by (simp add: append_writes_def FirstIndex_def drop_compacted_def)
  then obtain l where "ws = entry_writes ?es @ delete_writes dl @ [local_write l]"
    using ws rd(1) by (auto simp: save_writes_def bind_eq_Some_conv)
  moreover have "dl \<noteq> [] \<and> eIndex (hd dl) = eIndex (last ?es) + 1" if "LastIndex ps > eIndex (last ?es)"
    using dl(1) that inc_le [OF that] by (subst (asm) stale_entries.simps) (auto simp: bind_eq_Some_conv)
  ultimately show ?thesis using dl(2) by blast
qed

lemma take_entry_writes:
  "k \<le> length es \<Longrightarrow> take k (entry_writes es @ ws) = entry_writes (take k es)"
  by (simp add: entry_writes_def take_map)

text \<open>A crash among the entries of such a batch: the log that a start finds.\<close>

lemma torn_batch_reopens:
  assumes P: "pebble_ok P" "healthy P" and s: "refines P ps ms" "persisted P ps"
    and rd: "IsEmptySnap (rdSnapshot rd)" "ready_ents (rdEntries rd) ps" "rdEntries rd \<noteq> []"
      "trunc ps < eIndex (hd (rdEntries rd))"
    and ws: "save_writes P spare rd ps = Some ws"
    and k: "k \<le> length (rdEntries rd)" "LastIndex ps < eIndex (hd (rdEntries rd)) \<or>
      unat (eIndex (hd (rdEntries rd))) + k \<le> unat (LastIndex ps)"
  shows "\<exists>r. r = reopened_on (do_writes P (take k ws) (engines ps)) ps \<and>
    newPeerStorage P (do_writes P (take k ws) (engines ps)) = Some r \<and> persisted P r \<and>
    kv_map P (engines r) = kv_map P (engines ps) \<and>
    refines P r (ms\<lparr>msEnts := torn_ents (unat (eIndex (hd (rdEntries rd))) - unat (trunc ps))
      (take k (rdEntries rd)) (msEnts ms)\<rparr>)"
proof -
  let ?es = "rdEntries rd" and ?i0 = "eIndex (hd (rdEntries rd))"
  let ?s = "snd (appendLogEntries P (take k ?es) ps)"
  have ok: "log_ok P ps" "msEnts ms = peer_ents P ps" using s(1) by (simp_all add: refines_def)
  have c: "consecutive ?i0 (take k ?es)" "list_all Entry_fits (take k ?es)"
    "unat ?i0 + length (take k ?es) < 2 ^ 64"
    using rd(2,3) by (auto simp: ready_batch_def consecutive_take list_all_iff dest: in_set_takeD)
  have e: "do_writes P (take k ws) (engines ps) = engines ?s"
  proof -
    obtain ws' where "ws = entry_writes ?es @ ws'"
      using plain_save_writes [OF P ok(1) rd ws] by blast
    then show ?thesis using k(1) by (simp only: take_entry_writes engines_appendLogEntries [OF P])
  qed
  let ?r = "reopened_on (engines ?s) ps"
  have key: "meta_map P (engines ?s) key = meta_map P (engines ps) key"
    if "\<And>i. key \<noteq> RaftLogEntryKey i" for key
  proof -
    have "map_of (rev (map (\<lambda>e. (RaftLogEntryKey (eIndex e), marshal_Entry e)) (take k ?es))) key = None"
      using that [symmetric] by (force simp: map_of_eq_None_iff)
    then show ?thesis
      using appendLogEntries_map [OF P, of "take k ?es" ps] by (simp add: map_add_def)
  qed
  have n: "newPeerStorage P (engines ?s) = Some ?r" "persisted P ?r"
    by (rule newPeerStorage_same_states [OF P(2) s(2)], rule key, auto)+
  have "log_ok P ?r \<and> peer_ents P ?r =
      torn_ents (unat ?i0 - unat (trunc ps)) (take k ?es) (peer_ents P ps)"
  proof (rule torn_log [OF ok(1) c(1,3) rd(4)])
    show "LastIndex ps < ?i0 \<or> unat ?i0 + length (take k ?es) \<le> unat (LastIndex ps)"
      using k by auto
  qed (simp_all only: reopened_on_fields log_entry_engines log_entry_append [OF P c(1-3)])
  moreover have "kv (engines ?s) = kv (engines ps)"
    by (rule meta_only_fields) simp
  ultimately show ?thesis using n ok(2) e by (simp add: refines_def)
qed

section \<open>A batch that extends the log is saved or not\<close>

definition extends_log :: "Ready \<Rightarrow> 'd peerStorage \<Rightarrow> bool" where
  "extends_log rd ps \<longleftrightarrow> IsEmptySnap (rdSnapshot rd) \<and>
     (rdEntries rd = [] \<or> eIndex (hd (rdEntries rd)) = LastIndex ps + 1)"

lemma extension_crash:
  assumes P: "pebble_ok P" "healthy P" and s: "refines P ps ms" "persisted P ps"
    and rd: "ready_ents (rdEntries rd) ps" "extends_log rd ps"
    and ws: "save_writes P spare rd ps = Some ws" and k: "k < length ws"
  shows "\<exists>r. r = reopened_on (do_writes P (take k ws) (engines ps)) ps \<and>
    newPeerStorage P (do_writes P (take k ws) (engines ps)) = Some r \<and> persisted P r \<and>
    kv_map P (engines r) = kv_map P (engines ps) \<and> refines P r ms"
proof (cases "rdEntries rd = []")
  case True
  then have "length ws = 1"
    using ws rd(2) by (auto simp: save_writes_def append_writes_def extends_log_def bind_eq_Some_conv)
  then show ?thesis
    using k s newPeerStorage_persisted [OF s(2)] reopened_refines [OF s(1)] by simp
next
  case False
  have ok: "log_ok P ps" "msEnts ms = peer_ents P ps" using s(1) by (simp_all add: refines_def)
  have h: "eIndex (hd (rdEntries rd)) = LastIndex ps + 1" "IsEmptySnap (rdSnapshot rd)"
    using rd(2) False by (simp_all add: extends_log_def)
  have u: "unat (LastIndex ps + 1) = Suc (unat (LastIndex ps))"
    using log_ok_last(2) [OF ok(1)] by (simp add: unat_add_small [of _ 1, simplified])
  then have lt: "LastIndex ps < eIndex (hd (rdEntries rd))" "trunc ps < eIndex (hd (rdEntries rd))"
    using log_ok_last(1) [OF ok(1)] by (simp_all add: h word_less_nat_alt)
  have "0 < length (rdEntries rd)" using False by simp
  then have "\<not> eIndex (last (rdEntries rd)) < LastIndex ps"
    using ready_ents_last [OF rd(1) False] u
    by (simp add: h word_less_nat_alt del: length_greater_0_conv)
  then have "k \<le> length (rdEntries rd)"
    using plain_save_writes [OF P ok(1) h(2) rd(1) False lt(2) ws] k
    by (auto simp: entry_writes_def delete_writes_def)
  moreover have "torn_ents (unat (LastIndex ps + 1) - unat (trunc ps)) es (msEnts ms) = msEnts ms" for es
    using u log_ok_last(1) [OF ok(1)] by (intro torn_ents_beyond) (simp add: ok(2) log_size_def Suc_diff_le)
  ultimately show ?thesis
    using torn_batch_reopens [OF P s h(2) rd(1) False lt(2) ws, of k] lt(1) by (simp add: h(1))
qed

text \<open>C5: A batch that only extends the log is saved as a whole or not at all: its writes are the
  listed ones, all of them synchronous, and after a crash behind any number of them the storage that is opened next has the
  log and the hard state from before the batch, or, when every write was made, those of the memory
  storage after it. The applied index and the map are the same either way.\<close>

theorem save_crash_atomic:
  assumes P: "pebble_ok P" "healthy P" and s: "refines P ps ms" "persisted P ps"
    "lsHardState (localState ps) = Some (msHardState ms)"
    and rd: "ready_ok spare rd ps ms" "extends_log rd ps"
  shows "\<exists>ws ps' ms'. saveReadyState P spare rd ps = Some (None, ps') \<and>
    save_writes P spare rd ps = Some ws \<and> engines ps' = do_writes P ws (engines ps) \<and> list_all synced ws \<and>
    ms_save rd ms = Some ms' \<and>
    (\<forall>k. \<exists>r. newPeerStorage P (do_writes P (take k ws) (engines ps)) = Some r \<and>
      refines P r (if k < length ws then ms else ms') \<and>
      lsHardState (localState r) = Some (msHardState (if k < length ws then ms else ms')) \<and>
      applyState r = applyState ps \<and> kv_map P (engines r) = kv_map P (engines ps))"
proof -
  have e: "IsEmptySnap (rdSnapshot rd)" "ready_ents (rdEntries rd) ps"
    using rd by (simp_all add: extends_log_def ready_ok_def)
  have oth: "others_persisted P ps" using s(2) by (simp add: persisted_def others_persisted_def)
  obtain ps' ms' where s': "saveReadyState P spare rd ps = Some (None, ps')" "ms_save rd ms = Some ms'"
    "refines P ps' ms'" "lsHardState (localState ps') = Some (msHardState ms')" "persisted P ps'"
    "kv_map P (engines ps') = kv_map P (engines ps)" "applyState ps' = applyState ps"
    using saveReadyState_refines [OF P s(1) rd(1) oth s(3)] e(1)
    by (auto simp: batch_map_def batch_state_def)
  obtain ws where ws: "save_writes P spare rd ps = Some ws" "engines ps' = do_writes P ws (engines ps)"
    using save_writes_exact [OF P s'(1)] by blast
  have "\<exists>r. newPeerStorage P (do_writes P (take k ws) (engines ps)) = Some r \<and>
      refines P r (if k < length ws then ms else ms') \<and>
      lsHardState (localState r) = Some (msHardState (if k < length ws then ms else ms')) \<and>
      applyState r = applyState ps \<and> kv_map P (engines r) = kv_map P (engines ps)" for k
  proof (cases "k < length ws")
    case True
    obtain r where r: "r = reopened_on (do_writes P (take k ws) (engines ps)) ps"
      "newPeerStorage P (do_writes P (take k ws) (engines ps)) = Some r" "refines P r ms"
      "kv_map P (engines r) = kv_map P (engines ps)"
      using extension_crash [OF P s(1,2) e(2) rd(2) ws(1) True] by blast
    have "localState r = localState ps" "applyState r = applyState ps" by (simp_all add: r(1))
    then show ?thesis using r(2-4) s(3) True by simp
  next
    case False
    then show ?thesis
      using newPeerStorage_persisted [OF s'(5)] reopened_refines [OF s'(3)] s'(4,6,7) ws(2)
      by (simp add: reopened_def)
  qed
  with ws s'(1,2) save_writes_synced [OF ws(1)] show ?thesis by blast
qed

section \<open>Batches that do more\<close>

text \<open>The keys that a write touches.\<close>

fun touches :: "bytes \<Rightarrow> db_write \<Rightarrow> bool" where
  "touches key (MetaWrite (Put k _ _)) = (k = key)"
| "touches key (MetaWrite (Delete k _)) = (k = key)"
| "touches _ _ = False"

lemma do_writes_meta:
  assumes "pebble_ok P" "healthy P" "\<And>w. w \<in> set ws \<Longrightarrow> \<not> touches key w"
  shows "meta_map P (do_writes P ws e) key = meta_map P e key"
  using assms(3)
proof (induction ws arbitrary: e)
  case (Cons w ws)
  have "meta_map P (do_write P w e) key = meta_map P e key"
  proof (cases w)
    case (MetaWrite m)
    then show ?thesis using Cons.prems [of w] assms(1,2)
      by (cases m) (simp_all add: WriteMeta_def [of P OtherData])
  qed simp
  then show ?case using Cons.IH [of "do_write P w e"] Cons.prems by simp
qed simp

lemma do_writes_kv: "(\<And>w. w \<in> set ws \<Longrightarrow> \<exists>m. w = MetaWrite m) \<Longrightarrow> kv (do_writes P ws e) = kv e"
proof (induction ws arbitrary: e)
  case (Cons w ws)
  obtain m where "w = MetaWrite m" using Cons.prems [of w] by auto
  then show ?case using Cons by simp
qed simp

lemma log_writes_touch:
  "w \<in> set (entry_writes es @ delete_writes dl) \<Longrightarrow> (\<exists>m. w = MetaWrite m) \<and>
     \<not> touches RaftLocalStateKey w \<and> \<not> touches RaftApplyStateKey w \<and> \<not> touches RaftConfStateKey w"
  by (auto simp: entry_writes_def delete_writes_def PutMeta_def DeleteMeta_def)

subsection \<open>Entries written over the end of the log\<close>

text \<open>Behind any of its entries and deletions a start finds the states from before the batch.\<close>

lemma log_prefix_reopens:
  assumes P: "pebble_ok P" "healthy P" and "persisted P ps"
    and s: "s = snd (deleteLogEntries P dl (snd (appendLogEntries P es ps)))"
  shows "newPeerStorage P (engines s) = Some (reopened_on (engines s) ps)"
proof -
  have e: "engines s = do_writes P (entry_writes es @ delete_writes dl) (engines ps)"
    by (simp add: s engines_appendLogEntries [OF P] engines_deleteLogEntries [OF P])
  show ?thesis
    unfolding e using log_writes_touch [of _ es dl]
    by (intro newPeerStorage_same_states [OF P(2) assms(3)] do_writes_meta [OF P]) auto
qed

text \<open>An index of the log can be asked for, and what is stored there is returned.\<close>

lemma Entries_one:
  assumes "healthy P" "log_ok P ps" "trunc ps < i" "i \<le> LastIndex ps"
  shows "log_entry P s i = Some ent \<Longrightarrow> eIndex ent = i \<Longrightarrow>
      Entries P i (i + 1) noLimit (reopened_on (engines s) ps) = Some (Inr [ent])"
    and "meta_map P (engines s) (RaftLogEntryKey i) = None \<Longrightarrow>
      Entries P i (i + 1) noLimit (reopened_on (engines s) ps) = Some (Inl ErrNotFound)"
proof -
  let ?r = "reopened_on (engines s) ps"
  have l: "unat i < 2 ^ 64 - 1"
    using log_ok_last(2) [OF assms(2)] assms(4) by (simp add: word_le_nat_alt)
  then have u: "unat (i + 1) = Suc (unat i)" by (simp add: unat_add_small [of _ 1, simplified])
  have "truncateIndex ?r = Some (trunc ps)" using assms(2) by (simp add: truncateIndex_def log_ok_state)
  moreover have "i + 1 \<le> LastIndex ps + 1"
    using u assms(4) log_ok_last(2) [OF assms(2)]
    by (simp add: word_le_nat_alt unat_add_small [of _ 1, simplified])
  ultimately have c: "checkRange i (i + 1) ?r = Some None"
    using u assms(3) by (simp add: checkRange_def word_less_nat_alt word_le_nat_alt flip: LastIndex_def)
  have i: "i < i + 1" using u by (simp add: word_less_nat_alt)
  show "Entries P i (i + 1) noLimit ?r = Some (Inl ErrNotFound)"
    if "meta_map P (engines s) (RaftLogEntryKey i) = None"
  proof -
    have "read_entries P (engines s) i (i + 1) = Inl ErrNotFound"
      using that i by (subst read_entries.simps) (simp add: read_entry_def ReadMeta_healthy [OF assms(1)])
    then show ?thesis using c i by (simp add: Entries_def)
  qed
  show "Entries P i (i + 1) noLimit ?r = Some (Inr [ent])"
    if e: "log_entry P s i = Some ent" "eIndex ent = i"
  proof -
    have "read_entry P (engines s) i = Inr ent"
      using e(1) by (auto simp: read_entry_def log_entry_def ReadMeta_present split: option.split_asm)
    then have "read_entries P (engines s) i (i + 1) = Inr [ent]"
      using e(2) i by (subst read_entries.simps) (simp add: read_entries.simps [of P _ "i + 1"])
    then show ?thesis using c i by (simp add: Entries_def)
  qed
qed

text \<open>The deletions of a batch that ends before the log does: behind any of them the last index on
  disk is still the old one and the entry behind the batch is gone; just before the local state is
  written the last entry is.\<close>

lemma shrinking_crash:
  assumes P: "pebble_ok P" "healthy P" and s: "log_ok P ps" "persisted P ps"
    and rd: "IsEmptySnap (rdSnapshot rd)" "ready_ents (rdEntries rd) ps" "rdEntries rd \<noteq> []"
      "trunc ps < eIndex (hd (rdEntries rd))" "eIndex (last (rdEntries rd)) < LastIndex ps"
    and ws: "save_writes P spare rd ps = Some ws" and k: "length (rdEntries rd) < k" "k < length ws"
  shows "\<exists>r. newPeerStorage P (do_writes P (take k ws) (engines ps)) = Some r \<and>
    LastIndex r = LastIndex ps \<and>
    Entries P (eIndex (last (rdEntries rd)) + 1) (eIndex (last (rdEntries rd)) + 2) noLimit r =
      Some (Inl ErrNotFound) \<and>
    (Suc k = length ws \<longrightarrow> Entries P (LastIndex r) (LastIndex r + 1) noLimit r = Some (Inl ErrNotFound))"
proof -
  let ?es = "rdEntries rd" and ?l = "eIndex (last (rdEntries rd))"
  obtain dl l where w: "ws = entry_writes ?es @ delete_writes dl @ [local_write l]"
    "eIndex ` set dl = {?l + 1..LastIndex ps}" "eIndex (hd dl) = ?l + 1" "dl \<noteq> []"
    using plain_save_writes [OF P s(1) rd(1-4) ws] rd(5) by auto
  define j where "j = k - length ?es"
  have j: "0 < j" "j \<le> length dl" "k = length ?es + j"
    using k by (auto simp: j_def w(1) entry_writes_def delete_writes_def)
  let ?s = "snd (deleteLogEntries P (take j dl) (snd (appendLogEntries P ?es ps)))"
  have t: "take k ws = entry_writes ?es @ delete_writes (take j dl)"
    using j by (simp add: w(1) entry_writes_def delete_writes_def take_map)
  then have e: "do_writes P (take k ws) (engines ps) = engines ?s"
    by (simp add: engines_appendLogEntries [OF P] engines_deleteLogEntries [OF P])
  let ?r = "reopened_on (engines ?s) ps"
  have n: "newPeerStorage P (engines ?s) = Some ?r" by (rule log_prefix_reopens [OF P s(2) refl])
  have gone: "Entries P i (i + 1) noLimit ?r = Some (Inl ErrNotFound)" if "i \<in> eIndex ` set (take j dl)" for i
  proof (rule Entries_one(2) [OF P(2) s(1)])
    have "i \<in> eIndex ` set dl" using that by (auto dest: in_set_takeD)
    then have i: "?l + 1 \<le> i" "i \<le> LastIndex ps" by (simp_all add: w(2))
    then show "i \<le> LastIndex ps" by simp
    have "0 < length ?es" using rd(3) by simp
    then have "trunc ps < ?l"
      using rd(4) ready_ents_last [OF rd(2,3)]
      by (simp add: word_less_nat_alt del: length_greater_0_conv)
    then show "trunc ps < i"
      using i(1) unat_Suc_word [OF rd(5)] by (simp add: word_less_nat_alt word_le_nat_alt)
    show "meta_map P (engines ?s) (RaftLogEntryKey i) = None"
      using that deleteLogEntries_map [OF P] by (auto simp: restrict_map_def)
  qed
  have "?l + 1 \<in> eIndex ` set (take j dl)"
    using j(1) w(3,4) by (cases dl; cases j) auto
  from gone [OF this] have g1: "Entries P (?l + 1) (?l + 2) noLimit ?r = Some (Inl ErrNotFound)"
    by (simp add: add.assoc)
  have g2: "Entries P (LastIndex ps) (LastIndex ps + 1) noLimit ?r = Some (Inl ErrNotFound)" if "Suc k = length ws"
  proof (rule gone)
    have "j = length dl" using that j by (simp add: w(1) entry_writes_def delete_writes_def)
    moreover have "LastIndex ps \<in> eIndex ` set dl"
      using rd(5) unat_Suc_word [OF rd(5)] by (simp add: w(2) word_le_nat_alt word_less_nat_alt)
    ultimately show "LastIndex ps \<in> eIndex ` set (take j dl)" by simp
  qed
  show ?thesis
    unfolding e using n g1 g2 by (intro exI [of _ ?r]) simp
qed

text \<open>The entries of a batch that reach the last entry of the old log: a start finds the new entry at the
  last index, and the term of the old one for it.\<close>

lemma last_entry_crash:
  assumes P: "pebble_ok P" "healthy P" and s: "log_ok P ps" "persisted P ps"
    and rd: "IsEmptySnap (rdSnapshot rd)" "ready_ents (rdEntries rd) ps" "rdEntries rd \<noteq> []"
      "trunc ps < eIndex (hd (rdEntries rd))"
    and ws: "save_writes P spare rd ps = Some ws"
    and k: "k \<le> length (rdEntries rd)" "eIndex (hd (rdEntries rd)) \<le> LastIndex ps"
      "unat (LastIndex ps) < unat (eIndex (hd (rdEntries rd))) + k"
  shows "\<exists>r. newPeerStorage P (do_writes P (take k ws) (engines ps)) = Some r \<and>
    LastIndex r = LastIndex ps \<and> Term P (LastIndex r) r = Some (Inr (lsLastTerm (localState ps))) \<and>
    Entries P (LastIndex r) (LastIndex r + 1) noLimit r =
      Some (Inr [rdEntries rd ! (unat (LastIndex ps) - unat (eIndex (hd (rdEntries rd))))])"
proof -
  let ?es = "rdEntries rd" and ?i0 = "eIndex (hd (rdEntries rd))"
  let ?s = "snd (appendLogEntries P (take k ?es) ps)" and ?j = "unat (LastIndex ps) - unat (eIndex (hd (rdEntries rd)))"
  have c: "consecutive ?i0 (take k ?es)" "list_all Entry_fits (take k ?es)"
    "unat ?i0 + length (take k ?es) < 2 ^ 64"
    using rd(2,3) by (auto simp: ready_batch_def consecutive_take list_all_iff dest: in_set_takeD)
  obtain ws' where "ws = entry_writes ?es @ ws'" using plain_save_writes [OF P s(1) rd(1-4) ws] by blast
  then have e: "do_writes P (take k ws) (engines ps) = engines ?s"
    using k(1) by (simp only: take_entry_writes engines_appendLogEntries [OF P])
  let ?r = "reopened_on (engines ?s) ps"
  have n: "newPeerStorage P (engines ?s) = Some ?r"
    by (rule log_prefix_reopens [OF P s(2), where dl = "[]"]) simp
  have le: "unat ?i0 \<le> unat (LastIndex ps)" using k(2) by (simp add: word_le_nat_alt)
  then have j: "?j < k" using k(3) by simp
  have tl: "trunc ps < LastIndex ps" using rd(4) k(2) by (rule less_le_trans)
  have "log_entry P ?s (LastIndex ps) = Some (?es ! ?j)"
    using k(1,2) j by (simp add: log_entry_append [OF P c])
  moreover have "eIndex (?es ! ?j) = LastIndex ps"
  proof -
    have "eIndex (?es ! ?j) = ?i0 + word_of_nat ?j"
      using c(1) j k(1) by (simp add: consecutive_def)
    also have "\<dots> = LastIndex ps"
      using le by (simp add: of_nat_diff)
    finally show ?thesis .
  qed
  ultimately have "Entries P (LastIndex ps) (LastIndex ps + 1) noLimit ?r = Some (Inr [?es ! ?j])"
    using Entries_one(1) [OF P(2) s(1) tl] by blast
  moreover have "Term P (LastIndex ps) ?r = Some (Inr (lsLastTerm (localState ps)))"
  proof -
    have u: "unat (LastIndex ps + 1) = Suc (unat (LastIndex ps))"
      using log_ok_last(2) [OF s(1)] by (simp add: unat_add_small [of _ 1, simplified])
    have t: "truncateIndex ?r = Some (trunc ps)" using s(1) by (simp add: truncateIndex_def log_ok_state)
    then have "checkRange (LastIndex ps) (LastIndex ps + 1) ?r = Some None"
      using u tl by (simp add: checkRange_def word_less_nat_alt word_le_nat_alt flip: LastIndex_def)
    then show ?thesis using t tl by (auto simp: Term_def simp flip: LastIndex_def)
  qed
  ultimately show ?thesis unfolding e using n by (intro exI [of _ ?r]) simp
qed

text \<open>C13: A batch that overwrites entries is not saved atomically, whatever write the crash comes behind
  but the last. Behind the first entries it leaves a log that is neither the old nor the new one: the
  old log with these entries written over its middle and the old entries behind them. Once they
  reach the last entry of the old log, the entry at the last index is new and the term that the
  storage answers for it is the old one's. When the batch ends before the old log does, a crash among
  the deletions leaves the old last index and no entry behind the batch, and one before the last
  write no entry at the last index: reading there fails.\<close>

theorem overwrite_crash:
  assumes P: "pebble_ok P" "healthy P" and s: "refines P ps ms" "persisted P ps"
    and rd: "IsEmptySnap (rdSnapshot rd)" "ready_ok spare rd ps ms" "rdEntries rd \<noteq> []"
      "trunc ps < eIndex (hd (rdEntries rd))"
    and ws: "save_writes P spare rd ps = Some ws"
  shows "(\<forall>k. k \<le> length (rdEntries rd) \<and>
        unat (eIndex (hd (rdEntries rd))) + k \<le> unat (LastIndex ps) \<longrightarrow>
      (\<exists>r. newPeerStorage P (do_writes P (take k ws) (engines ps)) = Some r \<and>
        refines P r (ms\<lparr>msEnts := torn_ents (unat (eIndex (hd (rdEntries rd))) - unat (trunc ps))
          (take k (rdEntries rd)) (msEnts ms)\<rparr>))) \<and>
    (\<forall>k. k \<le> length (rdEntries rd) \<and> eIndex (hd (rdEntries rd)) \<le> LastIndex ps \<and>
        unat (LastIndex ps) < unat (eIndex (hd (rdEntries rd))) + k \<longrightarrow>
      (\<exists>r. newPeerStorage P (do_writes P (take k ws) (engines ps)) = Some r \<and>
        LastIndex r = LastIndex ps \<and> Term P (LastIndex r) r = Some (Inr (lsLastTerm (localState ps))) \<and>
        Entries P (LastIndex r) (LastIndex r + 1) noLimit r =
          Some (Inr [rdEntries rd ! (unat (LastIndex ps) - unat (eIndex (hd (rdEntries rd))))]))) \<and>
    (eIndex (last (rdEntries rd)) < LastIndex ps \<longrightarrow>
      (\<forall>k. length (rdEntries rd) < k \<and> k < length ws \<longrightarrow>
        (\<exists>r. newPeerStorage P (do_writes P (take k ws) (engines ps)) = Some r \<and>
          LastIndex r = LastIndex ps \<and>
          Entries P (eIndex (last (rdEntries rd)) + 1) (eIndex (last (rdEntries rd)) + 2) noLimit r =
            Some (Inl ErrNotFound))) \<and>
      (\<exists>r. newPeerStorage P (do_writes P (butlast ws) (engines ps)) = Some r \<and>
        LastIndex r = LastIndex ps \<and>
        Entries P (LastIndex r) (LastIndex r + 1) noLimit r = Some (Inl ErrNotFound)))"
proof -
  have e: "ready_ents (rdEntries rd) ps" "log_ok P ps"
    using rd(1,2) s(1) by (simp_all add: ready_ok_def refines_def)
  note shrink = shrinking_crash [OF P e(2) s(2) rd(1) e(1) rd(3,4) _ ws]
  have "\<exists>r. newPeerStorage P (do_writes P (butlast ws) (engines ps)) = Some r \<and>
      LastIndex r = LastIndex ps \<and>
      Entries P (LastIndex r) (LastIndex r + 1) noLimit r = Some (Inl ErrNotFound)"
    if "eIndex (last (rdEntries rd)) < LastIndex ps"
  proof -
    obtain dl l where "ws = entry_writes (rdEntries rd) @ delete_writes dl @ [local_write l]" "dl \<noteq> []"
      using plain_save_writes [OF P e(2) rd(1) e(1) rd(3,4) ws] \<open>eIndex (last (rdEntries rd)) < LastIndex ps\<close> by auto
    then have "length (rdEntries rd) < length ws - 1" "length ws - 1 < length ws" "Suc (length ws - 1) = length ws"
      by (simp_all add: entry_writes_def delete_writes_def)
    from shrink [OF that this(1,2)] this(3) show ?thesis by (auto simp: butlast_conv_take)
  qed
  moreover note torn_batch_reopens [OF P s rd(1) e(1) rd(3,4) ws]
    last_entry_crash [OF P e(2) s(2) rd(1) e(1) rd(3,4) ws]
  ultimately show ?thesis using shrink by (intro conjI allI impI) blast+
qed

subsection \<open>A received snapshot\<close>

text \<open>Its apply state is written first and the local state last: a crash between the two leaves an
  applied index that the pairs and the last index do not belong to, and raft does not start on
  such a storage when the hard state on disk is older than the snapshot, as it always is.\<close>

lemma snapshot_crash_states:
  assumes P: "pebble_ok P" "healthy P" and s: "persisted P ps"
    and sn: "Decode spare (slice (snData sn)) = Some pairs" "snapshot_writes spare sn = Some ws1"
    and ws2: "\<And>w. w \<in> set ws2 \<Longrightarrow> w \<in> set (entry_writes es @ delete_writes dl)"
    and k: "0 < k" and e: "e = do_writes P (take k (ws1 @ ws2)) (engines ps)"
  shows "InitRaftLocalState P e = Some (localState ps)" "InitRaftApplyState P e = Some (snapshot_state sn)"
    "\<exists>c. InitRaftConfState P e = Some c"
    "kv_map P e = kv_map P (engines ps) ++ pair_map (take (k - 2) pairs)"
proof -
  let ?A = "MetaWrite (PutMeta RaftApplyStateKey marshal_ApplyState (snapshot_state sn) True)"
    and ?C = "MetaWrite (PutMeta RaftConfStateKey marshal_ConfState (smConfState (snMetadata sn)) True)"
  let ?K = "map (\<lambda>p. KVWrite (PutData (Key p) (Val p) True)) :: Pair list \<Rightarrow> db_write list"
  have w1: "ws1 = ?A # ?C # ?K pairs" using sn by (simp add: snapshot_writes_def)
  obtain j where j: "k = Suc j" using k by (cases k) auto
  have l2: "(\<exists>m. w = MetaWrite m) \<and> \<not> touches RaftLocalStateKey w \<and>
      \<not> touches RaftApplyStateKey w \<and> \<not> touches RaftConfStateKey w" if "w \<in> set ws2" for w
    using log_writes_touch ws2 [OF that] .
  let ?e1 = "do_write P ?A (engines ps)" and ?rest = "take j (?C # ?K pairs @ ws2)"
  have e1: "e = do_writes P ?rest ?e1" by (simp add: e w1 j)
  have m1: "meta_map P ?e1 = (meta_map P (engines ps))(RaftApplyStateKey \<mapsto> marshal_ApplyState (snapshot_state sn))"
    by (simp add: PutMeta_def P)
  have rest: "\<not> touches RaftLocalStateKey w \<and> \<not> touches RaftApplyStateKey w" if "w \<in> set ?rest" for w
    using in_set_takeD [OF that] l2 by (auto simp: PutMeta_def PutData_def)
  have keys: "meta_map P e RaftLocalStateKey = meta_map P (engines ps) RaftLocalStateKey"
    "meta_map P e RaftApplyStateKey = Some (marshal_ApplyState (snapshot_state sn))"
    by (simp_all only: e1 do_writes_meta [OF P, of ?rest] rest m1 not_False_eq_True)
      (simp_all add: m1 del: do_write.simps)
  show "InitRaftLocalState P e = Some (localState ps)"
    using Init_cong(1) [OF P(2) keys(1)] s by (simp add: persisted_def)
  show "InitRaftApplyState P e = Some (snapshot_state sn)"
    by (rule apply_state_written) (rule keys(2))
  show "\<exists>c. InitRaftConfState P e = Some c"
  proof (cases j)
    case 0
    then have "meta_map P e RaftConfStateKey = meta_map P (engines ps) RaftConfStateKey"
      by (simp add: e1 m1 del: do_write.simps)
    from Init_cong(3) [OF P(2) this] s show ?thesis by (simp add: persisted_def)
  next
    case (Suc i)
    have "\<not> touches RaftConfStateKey w" if "w \<in> set (take i (?K pairs @ ws2))" for w
      using in_set_takeD [OF that] l2 by (auto simp: PutData_def)
    then have "meta_map P e RaftConfStateKey = Some (marshal_ConfState (smConfState (snMetadata sn)))"
      using do_writes_meta [OF P, of "take i (?K pairs @ ws2)" RaftConfStateKey "do_write P ?C ?e1"]
      by (simp add: e1 Suc PutMeta_def P del: take_append)
    then show ?thesis using conf_state_written by blast
  qed
  show "kv_map P e = kv_map P (engines ps) ++ pair_map (take (k - 2) pairs)"
  proof (cases j)
    case 0
    then show ?thesis by (simp add: e1 j pair_map_def)
  next
    case (Suc i)
    let ?e2 = "do_write P ?C ?e1"
    have "kv e = kv (do_writes P (take (i - length pairs) ws2) (do_writes P (?K (take i pairs)) ?e2))"
      by (simp add: e1 Suc take_map)
    also have "\<dots> = kv (do_writes P (?K (take i pairs)) ?e2)"
      by (rule do_writes_kv) (use l2 in \<open>blast dest: in_set_takeD\<close>)
    finally show ?thesis
      using write_pairs_kv [OF P, of "take i pairs" ?e2] by (simp add: engines_write_pairs j Suc)
  qed
qed

text \<open>C8: Installing a snapshot is not atomic either, and a crash in it is fatal: behind any of its
  writes but the last, the storage that is opened next has the snapshot's applied index, the old last
  index, and only those pairs that were written by then; raft, which is started on it with the old
  hard state, panics because the commit index is behind the log's first.\<close>

theorem snapshot_crash:
  assumes P: "pebble_ok P" "healthy P" and s: "refines P ps ms" "persisted P ps"
    "lsHardState (localState ps) = Some hs"
    and sn: "\<not> IsEmptySnap (rdSnapshot rd)" "Decode spare (slice (snData (rdSnapshot rd))) = Some pairs"
      "\<not> IsEmptyHardState hs" "hsCommit hs < smIndex (snMetadata (rdSnapshot rd))"
    and ws: "save_writes P spare rd ps = Some ws" and k: "0 < k" "k < length ws"
  shows "\<exists>r. newPeerStorage P (do_writes P (take k ws) (engines ps)) = Some r \<and>
    AppliedIndex r = smIndex (snMetadata (rdSnapshot rd)) \<and> localState r = localState ps \<and>
    kv_map P (engines r) = kv_map P (engines ps) ++ pair_map (take (k - 2) pairs) \<and>
    newRaft_log disk_storage (P, r) hs (AppliedIndex r) = panic"
proof -
  obtain ws1 ps1 where w1: "snapshot_writes spare (rdSnapshot rd) = Some ws1"
    "applySnapshot P spare (rdSnapshot rd) ps = Some ps1"
    using ws sn(1) by (auto simp: save_writes_def bind_eq_Some_conv)
  obtain ws2 where w2: "append_writes (rdEntries rd) ps1 = Some ws2"
    using ws sn(1) w1 by (auto simp: save_writes_def bind_eq_Some_conv)
  obtain l where w3: "ws = ws1 @ ws2 @ [local_write l]"
    using ws sn(1) w1 w2 by (auto simp: save_writes_def bind_eq_Some_conv)
  note w = w1(1) w2 w3
  obtain es dl where d: "ws2 = entry_writes es @ delete_writes dl"
    using append_writes_shape [OF w(2)] by blast
  let ?e = "do_writes P (take k ws) (engines ps)"
  have "?e = do_writes P (take k (ws1 @ ws2)) (engines ps)" using k(2) by (simp add: w(3))
  from snapshot_crash_states [OF P s(2) sn(2) w(1) _ k(1) this, of es dl] d
  have i: "InitRaftLocalState P ?e = Some (localState ps)"
    "InitRaftApplyState P ?e = Some (snapshot_state (rdSnapshot rd))"
    "\<exists>c. InitRaftConfState P ?e = Some c"
    "kv_map P ?e = kv_map P (engines ps) ++ pair_map (take (k - 2) pairs)"
    by simp_all
  then obtain r where r: "newPeerStorage P ?e = Some r" "engines r = ?e" "localState r = localState ps"
    "applyState r = snapshot_state (rdSnapshot rd)"
    by (auto simp: newPeerStorage_def)
  have "newRaft_log disk_storage (P, r) hs (AppliedIndex r) = panic"
    using r(4) sn(3,4)
    by (simp add: newRaft_log_def newLog_def loadState_def disk_storage_def FirstIndex_def
        truncateIndex_def snapshot_state_def rl_lastIndex_def maybeLastIndex_def)
  then show ?thesis using r i(4) by (simp add: AppliedIndex_def snapshot_state_def)
qed

end
