(* ===== verification/Peer_Runs.thy ===== *)
theory Peer_Runs
  imports Read_Path Crash_Save Snapshot_Gen
begin

text \<open>
  Runs of a peer: a step relation over all the operations of a peer's goroutines, with restarts
  and crashes between them, and the invariant of its reachable states. Beside the peer the
  relation carries the specification's state: a memory storage, and the map that the batches
  stand for.
\<close>

section \<open>Starting\<close>

lemma confState_written:
  assumes "pebble_ok P" "healthy P" "refines P s ms" "persisted P s"
  shows "refines P (snd (writeConfState P c (s\<lparr>confState := c\<rparr>))) ms"
    "persisted P (snd (writeConfState P c (s\<lparr>confState := c\<rparr>)))"
proof -
  let ?s = "snd (writeConfState P c (s\<lparr>confState := c\<rparr>))"
  have m: "meta_map P (engines ?s) =
      (meta_map P (engines s))(RaftConfStateKey \<mapsto> marshal_ConfState c)"
    by (simp add: writeState_effect [OF assms(1,2)])
  have e: "log_entry P ?s = log_entry P s" by (rule ext) (simp add: log_entry_def m)
  have f: "applyState ?s = applyState s" "localState ?s = localState s" by simp_all
  have ok: "log_ok P s" using assms(3) by (simp add: refines_def)
  then have "asTruncatedState (applyState ?s) \<noteq> None" by (simp add: log_ok_def)
  from log_same [OF e trunc_cong [OF f(1)] f(2) this ok] assms(3)
  show "refines P ?s ms" by (simp add: refines_def)
  have "InitRaftLocalState P (engines ?s) = InitRaftLocalState P (engines s)"
    "InitRaftApplyState P (engines ?s) = InitRaftApplyState P (engines s)"
    by (rule Init_cong [OF assms(2)], simp add: m)+
  moreover have "InitRaftConfState P (engines ?s) = Some c"
    by (rule conf_state_written) (simp add: m)
  ultimately show "persisted P ?s"
    using assms(4) by (simp add: persisted_def)
qed

text \<open>A peer started on the databases of a persisted storage: the log, the states and the map
  are the ones that were there.\<close>

lemma newPeer_reopens:
  assumes P: "pebble_ok P" "healthy P" and s: "refines P s ms" "persisted P s"
    "lsHardState (localState s) = Some (msHardState ms)"
  shows "\<exists>pr. newPeer P N start restart i (engines s) w = Some pr \<and> peer_ok P pr ms \<and>
    kv (engines (ps pr)) = kv (engines s) \<and> applyState (ps pr) = applyState s \<and>
    localState (ps pr) = localState s \<and>
    (if bootstrap s
     then raftGroup pr = start (reopened s) (AppliedIndex s) loadRaftPeers \<and>
       confState (ps pr) = nd_conf N (raftGroup pr)
     else raftGroup pr = restart (reopened s) (AppliedIndex s) \<and> ps pr = reopened s)"
proof -
  let ?s = "reopened s"
  have n: "newPeerStorage P (engines s) = Some ?s" using s(2) by (rule newPeerStorage_persisted)
  have r: "refines P ?s ms" "persisted P ?s" using s by (simp_all add: reopened_refines)
  have f: "applyState ?s = applyState s" "localState ?s = localState s" "confState ?s = confState s"
    "engines ?s = engines s" by (simp_all add: reopened_def)
  have t: "truncateIndex ?s = Some (trunc ?s)" using r(1) log_ok_trunc(1) [of P ?s] by (simp only: refines_def)
  have a: "AppliedIndex ?s = AppliedIndex s" "bootstrap ?s = bootstrap s"
    using f by (simp_all add: AppliedIndex_def bootstrap_def)
  let ?c = "nd_conf N (start ?s (AppliedIndex s) loadRaftPeers)"
  have "refines P (snd (writeConfState P ?c (?s\<lparr>confState := ?c\<rparr>))) ms"
    "persisted P (snd (writeConfState P ?c (?s\<lparr>confState := ?c\<rparr>)))"
    using confState_written [OF P r, of ?c] by auto
  then show ?thesis
    using r s(3) f a
    by (auto simp: newPeer_def n t Let_def peer_ok_def gc_bounded_def)
qed

section \<open>Steps\<close>

text \<open>The state of a run: the peer, the memory storage and the map it is compared with.\<close>

type_synonym ('d, 'n, 'w) config =
  "('d, 'n, 'w) peer \<times> MemoryStorage \<times> (bytes \<Rightarrow> bytes option)"

text \<open>What raft promises of a batch: it can be handled, and what is applied is in the log.\<close>

definition batch_allowed ::
    "bytes \<Rightarrow> Ready \<Rightarrow> command list \<Rightarrow> 'd peerStorage \<Rightarrow> MemoryStorage \<Rightarrow> bool" where
  "batch_allowed spare rd cs s ms \<longleftrightarrow>
     batch_ok spare rd cs s ms \<and>
     (case ms_batch rd cs ms of
        None \<Rightarrow> False
      | Some ms' \<Rightarrow> batch_applied rd (AppliedIndex s) \<le> ms_lastIndex ms')"

text \<open>
  A crash loses everything but the databases. It can come between two of the operations, in the
  middle of a batch, when it is saved and not applied yet, or behind any write of a save that only
  extends the log; each is followed by a start. A crash in the middle of a save that overwrites
  entries or installs a snapshot is no step: it leaves a log that is no memory storage's after any
  batches. \<open>Crash_Save\<close> says what it leaves, and the runs of \<open>Interleaving\<close>, which are about the map
  and not the log, have it.
\<close>

inductive peer_step ::
    "'d pebble \<Rightarrow> 'n raft_node \<Rightarrow> 'w grpc \<Rightarrow> ('d, 'n, 'w) config \<Rightarrow> ('d, 'n, 'w) config \<Rightarrow> bool"
  for P N G where
  Batch: "batch_allowed spare rd cs (ps pr) ms \<Longrightarrow>
    handleReady P N G spare rd pr = Some pr' \<Longrightarrow> ms_batch rd cs ms = Some ms' \<Longrightarrow>
    peer_step P N G (pr, ms, m) (pr', ms', map_batch spare rd cs m)"
| Tick: "tick P N pr = Some pr' \<Longrightarrow> peer_step P N G (pr, ms, m) (pr', ms, m)"
| Messages: "peer_step P N G (pr, ms, m) (handleRaftMsgs N pr, ms, m)"
| Collect: "run_gc_task P k pr = Some pr' \<Longrightarrow> peer_step P N G (pr, ms, m) (pr', ms, m)"
| Propose: "peer_step P N G (pr, ms, m) (snd (propose N cmd pr), ms, m)"
| Read: "can_linearizableRead pr \<Longrightarrow> linearizableRead N now key pr = Some (n, pr') \<Longrightarrow>
    peer_step P N G (pr, ms, m) (pr', ms, m)"
| Match: "can_handleReadState pr \<Longrightarrow> handleReadState clock pr = Some pr' \<Longrightarrow>
    peer_step P N G (pr, ms, m) (pr', ms, m)"
| Serve: "can_readApplied k pr \<Longrightarrow> readApplied P k pr = Some pr' \<Longrightarrow>
    peer_step P N G (pr, ms, m) (pr', ms, m)"
| Restart: "newPeer P N' start restart i (engines (ps pr)) w = Some pr' \<Longrightarrow>
    peer_step P N G (pr, ms, m) (pr', ms, m)"
| Crash: "batch_allowed spare rd cs (ps pr) ms \<Longrightarrow>
    handleReady_save P spare rd pr = Some pr1 \<Longrightarrow> ms_save rd ms = Some ms1 \<Longrightarrow>
    asApplyIndex (batch_state rd (applyState (ps pr))) \<le> ms_lastIndex ms1 \<Longrightarrow>
    newPeer P N' start restart i (engines (ps pr1)) w = Some pr' \<Longrightarrow>
    peer_step P N G (pr, ms, m) (pr', ms1, m ++ batch_map spare rd)"
| Ask: "Snapshot_op (ps pr) = Some (x, er, s') \<Longrightarrow> peer_step P N G (pr, ms, m) (pr\<lparr>ps := s'\<rparr>, ms, m)"
| Generate: "n \<in> fst ` set (generating (ps pr)) \<Longrightarrow> SchedSnapGen P n (ps pr) = Some s' \<Longrightarrow>
    peer_step P N G (pr, ms, m) (pr\<lparr>ps := s'\<rparr>, ms, m)"
| CrashInSave: "batch_allowed spare rd cs (ps pr) ms \<Longrightarrow> extends_log rd (ps pr) \<Longrightarrow>
    save_writes P spare rd (ps pr) = Some ws \<Longrightarrow> k < length ws \<Longrightarrow>
    newPeer P N' start restart i (do_writes P (take k ws) (engines (ps pr))) w = Some pr' \<Longrightarrow>
    peer_step P N G (pr, ms, m) (pr', ms, m)"

definition run_ok :: "'d pebble \<Rightarrow> ('d, 'n, 'w) config \<Rightarrow> bool" where
  "run_ok P c \<longleftrightarrow>
     (case c of (pr, ms, m) \<Rightarrow>
       peer_ok P pr ms \<and> kv_map P (engines (ps pr)) = m \<and> AppliedIndex (ps pr) \<le> LastIndex (ps pr))"

text \<open>Steps that leave the storage alone.\<close>

lemma propose_quiet: "ps (snd (propose N cmd pr)) = ps pr" "gc_tasks (snd (propose N cmd pr)) = gc_tasks pr"
  by (simp_all add: propose_def split: prod.split)

lemma onLogGCTask_quiet:
  "onLogGCTask P N pr = Some pr' \<Longrightarrow> ps pr' = ps pr \<and> gc_tasks pr' = gc_tasks pr"
  by (auto simp: onLogGCTask_def Let_def propose_quiet split: if_split_asm sum.split_asm)
    (metis propose_quiet sum.exhaust)+

lemma quiet_steps:
  "tick P N pr = Some pr' \<Longrightarrow> ps pr' = ps pr \<and> gc_tasks pr' = gc_tasks pr"
  "ps (handleRaftMsgs N pr) = ps pr \<and> gc_tasks (handleRaftMsgs N pr) = gc_tasks pr"
  "ps (snd (propose N cmd pr)) = ps pr \<and> gc_tasks (snd (propose N cmd pr)) = gc_tasks pr"
  "linearizableRead N now key pr = Some (n, pr') \<Longrightarrow> ps pr' = ps pr \<and> gc_tasks pr' = gc_tasks pr"
  "handleReadState clock pr = Some pr' \<Longrightarrow> ps pr' = ps pr \<and> gc_tasks pr' = gc_tasks pr"
  "readApplied P k pr = Some pr' \<Longrightarrow> ps pr' = ps pr \<and> gc_tasks pr' = gc_tasks pr"
proof -
  show "tick P N pr = Some pr' \<Longrightarrow> ps pr' = ps pr \<and> gc_tasks pr' = gc_tasks pr"
    by (auto simp: tick_def tickLogGC_def Let_def split: if_split_asm dest: onLogGCTask_quiet)
  show "ps (handleRaftMsgs N pr) = ps pr \<and> gc_tasks (handleRaftMsgs N pr) = gc_tasks pr"
    by (simp add: handleRaftMsgs_def)
  show "ps (snd (propose N cmd pr)) = ps pr \<and> gc_tasks (snd (propose N cmd pr)) = gc_tasks pr"
    by (simp add: propose_quiet)
  show "linearizableRead N now key pr = Some (n, pr') \<Longrightarrow> ps pr' = ps pr \<and> gc_tasks pr' = gc_tasks pr"
    by (auto simp: linearizableRead_def Let_def split: prod.split_asm option.split_asm)
  show "handleReadState clock pr = Some pr' \<Longrightarrow> ps pr' = ps pr \<and> gc_tasks pr' = gc_tasks pr"
    by (cases "drain clock (readStateTable pr) (length (readc pr)) (readc pr) None")
      (auto simp: handleReadState_def split: option.split_asm)
  show "readApplied P k pr = Some pr' \<Longrightarrow> ps pr' = ps pr \<and> gc_tasks pr' = gc_tasks pr"
    by (cases "read_tasks pr ! k") (auto simp: readApplied_def)
qed

lemma run_ok_quiet:
  "run_ok P (pr, ms, m) \<Longrightarrow> ps pr' = ps pr \<and> gc_tasks pr' = gc_tasks pr \<Longrightarrow> run_ok P (pr', ms, m)"
  by (simp add: run_ok_def peer_ok_def gc_bounded_def)

text \<open>Steps that change the bookkeeping of snapshots only.\<close>

lemma run_ok_snap:
  assumes "run_ok P (pr, ms, m)" "s' = with_snap (ps pr) s'"
  shows "run_ok P (pr\<lparr>ps := s'\<rparr>, ms, m)"
  using assms(1) by (subst assms(2)) (simp add: run_ok_def peer_ok_def gc_bounded_def)

lemma run_ok_start:
  assumes P: "pebble_ok P" "healthy P" and s: "refines P s ms" "persisted P s"
    "lsHardState (localState s) = Some (msHardState ms)" "AppliedIndex s \<le> LastIndex s"
    and n: "newPeer P N start restart i (engines s) w = Some pr"
  shows "run_ok P (pr, ms, kv_map P (engines s))"
proof -
  obtain pr' where p: "newPeer P N start restart i (engines s) w = Some pr'" "peer_ok P pr' ms"
    "kv (engines (ps pr')) = kv (engines s)" "applyState (ps pr') = applyState s"
    "localState (ps pr') = localState s"
    using newPeer_reopens [OF P s(1-3), of N start restart i w] by auto
  with n s(4) show ?thesis by (simp add: run_ok_def AppliedIndex_def LastIndex_def)
qed

lemma run_ok_batch:
  assumes P: "pebble_ok P" "healthy P" and ok: "run_ok P (pr, ms, m)"
    and b: "batch_allowed spare rd cs (ps pr) ms"
    and h: "handleReady P N G spare rd pr = Some pr'" "ms_batch rd cs ms = Some ms'"
  shows "run_ok P (pr', ms', map_batch spare rd cs m)"
proof -
  have bo: "batch_ok spare rd cs (ps pr) ms"
    "batch_applied rd (AppliedIndex (ps pr)) \<le> ms_lastIndex ms'"
    using b h(2) by (auto simp: batch_allowed_def)
  have po: "peer_ok P pr ms" "kv_map P (engines (ps pr)) = m" using ok by (auto simp: run_ok_def)
  from handleReady_refines [OF P po(1) bo(1), of N G] h
  have "peer_ok P pr' ms'" "kv_map P (engines (ps pr')) = map_batch spare rd cs m"
    "AppliedIndex (ps pr') = batch_applied rd (AppliedIndex (ps pr))"
    by (auto simp: po(2))
  moreover have "LastIndex (ps pr') = ms_lastIndex ms'"
    using \<open>peer_ok P pr' ms'\<close> refines_lastIndex [of P "ps pr'" ms'] by (simp add: peer_ok_def)
  ultimately show ?thesis using bo(2) by (simp add: run_ok_def)
qed

text \<open>A crash after the save: what a start finds is the saved batch.\<close>

lemma run_ok_crash:
  assumes P: "pebble_ok P" "healthy P" and ok: "run_ok P (pr, ms, m)"
    and b: "batch_ok spare rd cs (ps pr) ms"
    and h: "handleReady_save P spare rd pr = Some pr1" "ms_save rd ms = Some ms1"
      "asApplyIndex (batch_state rd (applyState (ps pr))) \<le> ms_lastIndex ms1"
      "newPeer P N start restart i (engines (ps pr1)) w = Some pr'"
  shows "run_ok P (pr', ms1, m ++ batch_map spare rd)"
proof -
  have i: "refines P (ps pr) ms" "lsHardState (localState (ps pr)) = Some (msHardState ms)"
    "others_persisted P (ps pr)" "kv_map P (engines (ps pr)) = m"
    using ok by (auto simp: run_ok_def peer_ok_def ready_to_batch)
  have r: "ready_ok spare rd (ps pr) ms" using b by (simp add: batch_ok_def)
  obtain s1 where s: "saveReadyState P spare rd (ps pr) = Some (None, s1)"
    "refines P s1 ms1" "lsHardState (localState s1) = Some (msHardState ms1)"
    "persisted P s1" "kv_map P (engines s1) = m ++ batch_map spare rd"
    "applyState s1 = batch_state rd (applyState (ps pr))"
    using saveReadyState_refines [OF P i(1) r i(3,2)] h(2) i(4) by auto
  have e: "ps pr1 = s1" using h(1) s(1) by (auto simp: handleReady_save_def)
  have "AppliedIndex s1 \<le> LastIndex s1"
    using h(3) s(6) refines_lastIndex [OF s(2)] by (simp add: AppliedIndex_def)
  from run_ok_start [OF P s(2,4,3) this h(4) [unfolded e]] show ?thesis by (simp add: s(5))
qed

text \<open>A crash in a save that extends the log: what a start finds is the state from before the batch.\<close>

lemma run_ok_crash_in_save:
  assumes P: "pebble_ok P" "healthy P" and ok: "run_ok P (pr, ms, m)"
    and b: "batch_ok spare rd cs (ps pr) ms" "extends_log rd (ps pr)"
    and h: "save_writes P spare rd (ps pr) = Some ws" "k < length ws"
      "newPeer P N start restart i (do_writes P (take k ws) (engines (ps pr))) w = Some pr'"
  shows "run_ok P (pr', ms, m)"
proof -
  let ?e = "do_writes P (take k ws) (engines (ps pr))"
  have i: "refines P (ps pr) ms" "lsHardState (localState (ps pr)) = Some (msHardState ms)"
    "persisted P (ps pr)" "kv_map P (engines (ps pr)) = m" "AppliedIndex (ps pr) \<le> LastIndex (ps pr)"
    using ok by (auto simp: run_ok_def peer_ok_def)
  have "ready_ents (rdEntries rd) (ps pr)"
    using b by (simp add: batch_ok_def ready_ok_def extends_log_def)
  from extension_crash [OF P i(1,3) this b(2) h(1,2)] obtain r where
    r: "r = reopened_on ?e (ps pr)" "persisted P r" "kv_map P (engines r) = m" "refines P r ms"
    using i(4) by blast
  from run_ok_start [OF P r(4,2), of N start restart i w pr'] show ?thesis
    using h(3) i(2,5) r(3) by (simp add: r(1))
qed

theorem peer_step_ok:
  assumes P: "pebble_ok P" "healthy P" and st: "peer_step P N G c c'" and ok: "run_ok P c"
  shows "run_ok P c'"
  using st ok
proof cases
  case (Batch spare rd cs pr ms pr' ms' m)
  then show ?thesis using ok run_ok_batch [OF P] by blast
next
  case (Collect k pr pr' ms m)
  have "asTruncatedState (applyState (ps pr)) \<noteq> None" "gc_bounded pr"
    using ok Collect by (auto simp: run_ok_def peer_ok_def refines_def log_ok_def)
  from run_gc_task_noop [OF this, of P k] show ?thesis
    using ok Collect by (auto simp: run_ok_def peer_ok_def)
next
  case (Restart N' start restart i pr w pr' ms m)
  then show ?thesis
    using ok run_ok_start [OF P, of "ps pr" ms N' start restart i w pr']
    by (auto simp: run_ok_def peer_ok_def)
next
  case (Crash spare rd cs pr ms pr1 ms1 N' start restart i w pr' m)
  then show ?thesis using ok run_ok_crash [OF P] by (auto simp: batch_allowed_def)
next
  case (CrashInSave spare rd cs pr ms ws k N' start restart i w pr' m)
  then have "batch_ok spare rd cs (ps pr) ms" by (simp add: batch_allowed_def)
  from run_ok_crash_in_save [OF P _ this CrashInSave(4-7)] show ?thesis
    using ok CrashInSave(1,2) by blast
next
  case (Ask pr x er s' ms m)
  then show ?thesis using ok run_ok_snap Snapshot_op_with_snap by blast
next
  case (Generate n pr s' ms m)
  then show ?thesis using ok run_ok_snap SchedSnapGen_with_snap by blast
next
  case (Tick pr pr' ms m)
  then show ?thesis using ok run_ok_quiet quiet_steps(1) by blast
next
  case (Messages pr ms m)
  then show ?thesis using ok run_ok_quiet quiet_steps(2) by blast
next
  case (Propose pr ms m cmd)
  then show ?thesis using ok run_ok_quiet quiet_steps(3) by blast
next
  case (Read pr now key n pr' ms m)
  then show ?thesis using ok run_ok_quiet quiet_steps(4) by blast
next
  case (Match pr clock pr' ms m)
  then show ?thesis using ok run_ok_quiet quiet_steps(5) by blast
next
  case (Serve k pr pr' ms m)
  then show ?thesis using ok run_ok_quiet quiet_steps(6) by blast
qed

theorem peer_run_ok:
  assumes "pebble_ok P" "healthy P" "(peer_step P N G)\<^sup>*\<^sup>* c c'" "run_ok P c"
  shows "run_ok P c'"
  using assms(3,4) by (induction rule: rtranclp_induct) (auto intro: peer_step_ok [OF assms(1,2)])

text \<open>The first start, on empty databases.\<close>

lemma first_start:
  assumes "pebble_ok P" "healthy P" "meta_map P e = Map.empty"
    and "newPeer P N start restart i e w = Some pr"
  shows "run_ok P (pr, NewMemoryStorage, kv_map P e)"
proof -
  obtain s where s: "newPeerStorage P e = Some s" "engines s = e" "persisted P s"
    "refines P s NewMemoryStorage" "lsHardState (localState s) = Some zero_HardState"
    "AppliedIndex s = 0"
    using newPeerStorage_empty [OF assms(2,3)] by auto
  then show ?thesis
    using run_ok_start [OF assms(1,2) s(4,3), of N start restart i w pr] assms(4)
    by (simp add: NewMemoryStorage_def)
qed

section \<open>A crash in the middle of an entry\<close>

text \<open>Between the two halves of \<^verbatim>\<open>process\<close> the applied index is on disk and the command is
  not: a start then finds the entry counted as applied and the map without its effect.\<close>

lemma crash_after_mark:
  assumes P: "pebble_ok P" "healthy P" and s: "persisted P s"
  shows "\<exists>r. newPeerStorage P (engines (mark_applied P ent s)) = Some r \<and>
    AppliedIndex r = eIndex ent \<and> kv_map P (engines r) = kv_map P (engines s)"
proof -
  let ?s = "mark_applied P ent s"
  note e = mark_applied_effect [OF P, of ent s]
  have "InitRaftLocalState P (engines ?s) = InitRaftLocalState P (engines s)"
    "InitRaftConfState P (engines ?s) = InitRaftConfState P (engines s)"
    by (rule Init_cong [OF P(2)], simp add: e)+
  moreover have "InitRaftApplyState P (engines ?s) = Some (applyState ?s)"
    by (rule apply_state_written) (simp add: e)
  ultimately have "persisted P ?s" using s by (simp add: persisted_def e)
  from newPeerStorage_persisted [OF this] show ?thesis
    by (simp add: e reopened_def AppliedIndex_def)
qed

section \<open>Progress\<close>

text \<open>In every reachable state the peer's own steps return.\<close>

lemma run_progress:
  assumes P: "pebble_ok P" "healthy P" and ok: "run_ok P (pr, ms, m)"
  shows "tick P N pr \<noteq> panic" "run_gc_task P k pr \<noteq> panic"
    "batch_allowed spare rd cs (ps pr) ms \<Longrightarrow> handleReady P N G spare rd pr \<noteq> panic"
    "newPeer P N start restart i (engines (ps pr)) w \<noteq> panic"
    "Snapshot_op (ps pr) \<noteq> panic" "SchedSnapGen P n (ps pr) \<noteq> panic"
proof -
  have o: "log_ok P (ps pr)" "AppliedIndex (ps pr) \<le> LastIndex (ps pr)" "peer_ok P pr ms"
    "gc_bounded pr"
    using ok by (auto simp: run_ok_def peer_ok_def refines_def)
  show "tick P N pr \<noteq> panic"
    using onLogGCTask_returns [of P "pr\<lparr>raftGroup := nd_tick N (raftGroup pr), compactionElapse := 0\<rparr>" N] o
    by (simp add: tick_def tickLogGC_def Let_def)
  show "run_gc_task P k pr \<noteq> panic"
    using run_gc_task_noop [of pr P k] o by (auto simp: log_ok_def)
  show "handleReady P N G spare rd pr \<noteq> panic" if "batch_allowed spare rd cs (ps pr) ms"
    using handleReady_refines [OF P o(3), of spare rd cs N G] that by (auto simp: batch_allowed_def)
  show "newPeer P N start restart i (engines (ps pr)) w \<noteq> panic"
    using newPeer_reopens [OF P, of "ps pr" ms N start restart i w] o(3) by (auto simp: peer_ok_def)
  have t: "asTruncatedState (applyState (ps pr)) \<noteq> None"
    using o(1) by (simp add: log_ok_state)
  show "Snapshot_op (ps pr) \<noteq> panic" "SchedSnapGen P n (ps pr) \<noteq> panic"
    by (rule snapshot_returns [OF t])+
qed

end
