(* ===== verification/Examples.thy ===== *)
theory Examples
  imports Store_Api Snapshot_Gen Raft_Log Peer_Runs
begin

text \<open>
  Concrete states for the witnesses of the properties: Pebble is \<open>mem_pebble\<close>, the raft node and
  the network have one state and accept everything, the peer is one that has just started, or
  one that has saved three entries.
\<close>

definition ex_engines :: "(bytes \<times> bytes) list engines" where
  "ex_engines = \<lparr>kv = [], kvPath = ''/kv'', meta = [], metaPath = ''/meta''\<rparr>"

definition ex_node :: "unit raft_node" where
  "ex_node = \<lparr>nd_propose = (\<lambda>d n. (None, n)), nd_readIndex = (\<lambda>c n. (None, n)),
     nd_step = (\<lambda>m n. n), nd_tick = (\<lambda>n. n), nd_advance = (\<lambda>n. n), nd_lead = (\<lambda>n. 1),
     nd_term = (\<lambda>n. 1), nd_conf = (\<lambda>n. zero_ConfState\<lparr>csVoters := [1, 2, 3]\<rparr>)\<rparr>"

definition ex_grpc :: "unit grpc" where
  "ex_grpc = \<lparr>gr_dial = (\<lambda>a w. (Inr 0, w)), gr_send = (\<lambda>c m w. (None, w)), gr_cancel = (\<lambda>c w. w)\<rparr>"

text \<open>A database on which every write fails.\<close>

definition ex_broken :: "(bytes \<times> bytes) list pebble" where
  "ex_broken = mem_pebble\<lparr>pb_set := (\<lambda>k v b d. (Some (PebbleErr 0), d))\<rparr>"

definition ex_msg :: Message where
  "ex_msg = \<lparr>mType = 0, mTo = 1, mFrom = 2, mTerm = 1, mLogTerm = 0, mIndex = 0, mEntries = [],
     mCommit = 0, mSnapshot = zero_Snapshot, mReject = False, mRejectHint = 0, mContext = None\<rparr>"

section \<open>A fresh storage\<close>

definition ex_storage :: "(bytes \<times> bytes) list peerStorage" where
  "ex_storage = \<lparr>engines = ex_engines, localState = default_LocalState,
     applyState = default_ApplyState, confState = zero_ConfState,
     snapState = \<lparr>StateType = SnapshotRelaxed, Receiver = None\<rparr>, snapTriedCnt = 0,
     chans = [], generating = []\<rparr>"

lemma ex_meta_empty: "meta_map mem_pebble ex_engines = Map.empty"
  by (rule ext) (simp add: contents_mem_pebble ex_engines_def)

lemma ex_get_state: "get_state mem_pebble key u d ex_engines = Inr d"
  by (rule get_state_missing) (simp_all add: contents_mem_pebble ex_engines_def)

lemma ex_storage_new: "newPeerStorage mem_pebble ex_engines = Some ex_storage"
  by (simp add: newPeerStorage_def state_loads ex_get_state ex_storage_def)

lemma ex_storage_facts:
  "refines mem_pebble ex_storage NewMemoryStorage" "persisted mem_pebble ex_storage"
  "lsHardState (localState ex_storage) = Some zero_HardState"
  using newPeerStorage_empty [OF mem_pebble_healthy ex_meta_empty] ex_storage_new by auto

lemma ex_storage_log [simp]: "log_ok mem_pebble ex_storage"
  using ex_storage_facts(1) by (simp add: refines_def)

lemma ex_storage_fields [simp]:
  "LastIndex ex_storage = 0" "AppliedIndex ex_storage = 0" "trunc ex_storage = 0"
  "asTruncatedState (applyState ex_storage) = Some zero_TruncatedState"
  by (simp_all add: ex_storage_def LastIndex_def AppliedIndex_def default_LocalState_def
      default_ApplyState_def zero_LocalState_def zero_ApplyState_def trunc_state_def
      zero_TruncatedState_def)

lemma ex_storage_disk: "disk_inv (mem_pebble, ex_storage)"
proof -
  have "Entry_Size (dummy_entry ex_storage) \<le> 33"
    using length_put_int [of 1 0] length_put_int [of 2 "tsTerm (trunc_state ex_storage)"]
      length_put_int [of 3 0]
    by (simp add: Entry_Size_def marshal_Entry_def Entry_fields_def dummy_entry_def zero_Entry_def)
  then show ?thesis
    by (simp add: disk_inv_def peer_ents_def log_size_def log_sizes_def)
qed

section \<open>A storage with three entries\<close>

definition ex_put :: "bytes \<Rightarrow> bytes \<Rightarrow> u64 \<Rightarrow> Entry" where
  "ex_put k v i = \<lparr>eTerm = 1, eIndex = i, eType = EntryNormal,
     eData = Some (marshal_RaftCmd (NewPutCmdRequest k v))\<rparr>"

definition ex_entries :: "Entry list" where
  "ex_entries = [zero_Entry\<lparr>eTerm := 1, eIndex := 1\<rparr>, zero_Entry\<lparr>eTerm := 1, eIndex := 2\<rparr>,
     zero_Entry\<lparr>eTerm := 2, eIndex := 3\<rparr>]"

definition ex_memory :: MemoryStorage where
  "ex_memory = NewMemoryStorage\<lparr>msEnts := zero_Entry # ex_entries\<rparr>"

definition ex_logged :: "(bytes \<times> bytes) list peerStorage" where
  "ex_logged = the (truncateAndAppend mem_pebble ex_entries ex_storage)"

lemma ex_entries_ready: "ready_batch ex_entries 0"
  by (simp add: ready_batch_def ex_entries_def consecutive_Cons zero_Entry_def Entry_fits_def)

lemma ex_append: "ms_Append ex_entries NewMemoryStorage = Some ex_memory"
  by (simp add: ms_Append_def ex_entries_def ex_memory_def NewMemoryStorage_def ms_firstIndex_def
      ms_offset_def zero_Entry_def Let_def)

lemma ex_logged_facts:
  "truncateAndAppend mem_pebble ex_entries ex_storage = Some ex_logged"
  "refines mem_pebble ex_logged ex_memory"
  "applyState ex_logged = applyState ex_storage" "kv (engines ex_logged) = kv (engines ex_storage)"
proof -
  obtain s ms t l where s: "truncateAndAppend mem_pebble ex_entries ex_storage = Some s"
    "ms_Append ex_entries NewMemoryStorage = Some ms" "refines mem_pebble s ms"
    and m: "meta_only (ex_storage\<lparr>localState := (localState ex_storage)\<lparr>lsLastTerm := t,
      lsLastIndex := l\<rparr>\<rparr>) s"
    using truncateAndAppend_refines [OF mem_pebble_ok mem_pebble_healthy ex_storage_facts(1)]
      ex_entries_ready by fastforce
  then have "s = ex_logged" "ms = ex_memory" by (simp_all add: ex_logged_def ex_append)
  then show "truncateAndAppend mem_pebble ex_entries ex_storage = Some ex_logged"
    "refines mem_pebble ex_logged ex_memory" "applyState ex_logged = applyState ex_storage"
    "kv (engines ex_logged) = kv (engines ex_storage)"
    using s meta_only_fields(1,3) [OF m] by simp_all
qed

lemma ex_logged_log [simp]: "log_ok mem_pebble ex_logged"
  "peer_ents mem_pebble ex_logged = zero_Entry # ex_entries"
  using ex_logged_facts(2) by (simp_all add: refines_def ex_memory_def)

lemma ex_logged_fields [simp]: "LastIndex ex_logged = 3" "trunc ex_logged = 0"
  "asTruncatedState (applyState ex_logged) = Some zero_TruncatedState"
  "kv (engines ex_logged) = []"
proof -
  show "LastIndex ex_logged = 3"
    using refines_lastIndex [OF ex_logged_facts(2)]
    by (simp add: ms_lastIndex_def ms_offset_def ex_memory_def ex_entries_def zero_Entry_def)
  show "trunc ex_logged = 0" "asTruncatedState (applyState ex_logged) = Some zero_TruncatedState"
    using ex_storage_fields(3,4) ex_logged_facts(3) by (simp_all add: trunc_state_def)
  show "kv (engines ex_logged) = []"
    using ex_logged_facts(4) by (simp add: ex_storage_def ex_engines_def)
qed

lemma ex_logged_applied [simp]: "AppliedIndex ex_logged = 0"
  using ex_storage_fields(2) ex_logged_facts(3) by (simp add: AppliedIndex_def)

text \<open>The same storage when the first two entries are applied.\<close>

definition ex_applied :: "(bytes \<times> bytes) list peerStorage" where
  "ex_applied = ex_logged\<lparr>applyState := (applyState ex_logged)\<lparr>asApplyIndex := 2\<rparr>\<rparr>"

lemma ex_applied_fields [simp]: "AppliedIndex ex_applied = 2" "LastIndex ex_applied = 3"
  "trunc ex_applied = 0" "kv (engines ex_applied) = []" "confState ex_applied = confState ex_logged"
  "asTruncatedState (applyState ex_applied) = Some zero_TruncatedState"
  "snapState ex_applied = snapState ex_logged" "snapTriedCnt ex_applied = snapTriedCnt ex_logged"
  using ex_logged_fields
  by (simp_all add: ex_applied_def AppliedIndex_def LastIndex_def trunc_state_def)

lemma ex_applied_log [simp]: "log_ok mem_pebble ex_applied"
  "peer_ents mem_pebble ex_applied = zero_Entry # ex_entries"
proof -
  have e: "log_entry mem_pebble ex_applied = log_entry mem_pebble ex_logged"
    by (rule ext) (simp add: log_entry_def ex_applied_def)
  have "trunc_state ex_applied = trunc_state ex_logged" "localState ex_applied = localState ex_logged"
    by (simp_all add: trunc_state_def ex_applied_def)
  from log_same [OF e this] show "log_ok mem_pebble ex_applied"
    "peer_ents mem_pebble ex_applied = zero_Entry # ex_entries" by simp_all
qed

lemma ex_applied_snap: "snap_inv ex_applied" "StateType (snapState ex_applied) = SnapshotRelaxed"
  "snapTriedCnt ex_applied = 0"
proof -
  have f: "snap_frame ex_storage ex_applied"
    using truncateAndAppend_snap [OF ex_logged_facts(1)] by (simp add: snap_frame_def ex_applied_def)
  show "snap_inv ex_applied" by (rule snap_frame_inv [OF snap_inv_new [OF ex_storage_new] f])
  obtain t l where "meta_only (ex_storage\<lparr>localState := (localState ex_storage)\<lparr>lsLastTerm := t,
      lsLastIndex := l\<rparr>\<rparr>) ex_logged"
    using truncateAndAppend_refines [OF mem_pebble_ok mem_pebble_healthy ex_storage_facts(1)]
      ex_entries_ready ex_logged_facts(1) by fastforce
  from meta_only_fields [OF this]
  show "StateType (snapState ex_applied) = SnapshotRelaxed" "snapTriedCnt ex_applied = 0"
    by (simp_all add: ex_applied_def ex_storage_def)
qed

lemma ex_fresh_map: "kv_map mem_pebble (engines ex_storage) = Map.empty"
  by (rule ext) (simp add: contents_mem_pebble ex_storage_def ex_engines_def)

section \<open>A fresh peer\<close>

definition ex_peer :: "((bytes \<times> bytes) list, unit, unit) peer" where
  "ex_peer = \<lparr>prId = 1, raftGroup = (), ps = ex_storage, readc = [], readStateTable = Map.empty,
     readStateComing = 0, recvc = [], compactionElapse = 0, compactionTimeout = 100,
     lastCompactedIdx = 0, gc_tasks = [], read_tasks = [], callbacks = [], committing = None,
     router = newRouter ()\<rparr>"

lemma ex_peer_ok: "peer_ok mem_pebble ex_peer NewMemoryStorage"
  using ex_storage_facts
  by (simp add: peer_ok_def ex_peer_def gc_bounded_def NewMemoryStorage_def)

text \<open>A batch with one entry, a put, that is committed at once.\<close>

definition ex_ready :: Ready where
  "ex_ready = \<lparr>rdHardState = \<lparr>hsTerm = 1, hsVote = 1, hsCommit = 1\<rparr>, rdReadStates = [],
     rdEntries = [ex_put [1] [2] 1], rdSnapshot = zero_Snapshot,
     rdCommittedEntries = [ex_put [1] [2] 1], rdMessages = []\<rparr>"

lemma ex_put_command: "length k + length v < 2 ^ 62 \<Longrightarrow> entry_command (ex_put k v i) = Some (CPut k v)"
  using entry_command_proposed [OF RaftCmd_fits_Put, of k v
      "\<lparr>eTerm = 1, eIndex = i, eType = EntryNormal, eData = None\<rparr>"]
  by (simp add: ex_put_def)

definition ex_compact :: "u64 \<Rightarrow> u64 \<Rightarrow> u64 \<Rightarrow> Entry" where
  "ex_compact k t i = \<lparr>eTerm = 1, eIndex = i, eType = EntryNormal,
     eData = Some (marshal_RaftCmd (NewCompactCmdRequest k t))\<rparr>"

lemma ex_compact_command: "entry_command (ex_compact k t i) = Some (CCompact k t)"
  using entry_command_proposed [OF RaftCmd_fits_Compact, of k t
      "\<lparr>eTerm = 1, eIndex = i, eType = EntryNormal, eData = None\<rparr>"]
  by (simp add: ex_compact_def)

lemma ex_put_fits: "length k + length v < 2 ^ 62 \<Longrightarrow> Entry_fits (ex_put k v i)"
  using RaftCmd_fits_Put [of k v] by (simp add: ex_put_def Entry_fits_def RaftCmd_fits_def)

lemma ex_ready_saved:
  "ms_save ex_ready NewMemoryStorage = Some (NewMemoryStorage\<lparr>msHardState := rdHardState ex_ready,
     msEnts := [zero_Entry, ex_put [1] [2] 1]\<rparr>)"
proof -
  have "IsEmptySnap (rdSnapshot ex_ready)" "\<not> IsEmptyHardState (rdHardState ex_ready)"
    by (simp_all add: ex_ready_def IsEmptySnap_def zero_Snapshot_def IsEmptyHardState_iff
        zero_HardState_def)
  moreover have "ms_Append (rdEntries ex_ready) NewMemoryStorage =
      Some (NewMemoryStorage\<lparr>msEnts := [zero_Entry, ex_put [1] [2] 1]\<rparr>)"
    by (simp add: ex_ready_def ms_Append_def NewMemoryStorage_def ms_firstIndex_def ms_offset_def
        zero_Entry_def ex_put_def Let_def)
  ultimately show ?thesis by (simp add: ms_save_def Let_def ms_SetHardState_def)
qed

lemma ex_ready_ok:
  assumes "LastIndex s = 0"
  shows "batch_ok [] ex_ready [CPut [1] [2]] s NewMemoryStorage"
proof -
  have e: "IsEmptySnap (rdSnapshot ex_ready)"
    by (simp add: ex_ready_def IsEmptySnap_def zero_Snapshot_def)
  have "ready_ok [] ex_ready s NewMemoryStorage"
    using ex_put_fits [of "[1]" "[2]" 1] e assms
    by (simp add: ready_ok_def ready_batch_def ex_ready_def consecutive_Cons)
      (simp add: ex_put_def)
  then show ?thesis
    using e ex_put_command [of "[1]" "[2]" 1]
    by (simp add: batch_ok_def command_ok_def ms_command_def ex_ready_saved)
      (simp add: ex_ready_def)
qed

lemma ex_ready_allowed:
  assumes "LastIndex s = 0"
  shows "batch_allowed [] ex_ready [CPut [1] [2]] s NewMemoryStorage"
    "ms_batch ex_ready [CPut [1] [2]] NewMemoryStorage = Some (NewMemoryStorage\<lparr>msHardState :=
      rdHardState ex_ready, msEnts := [zero_Entry, ex_put [1] [2] 1]\<rparr>)"
    "map_batch [] ex_ready [CPut [1] [2]] Map.empty = [[1] \<mapsto> [2]]"
proof -
  show m: "ms_batch ex_ready [CPut [1] [2]] NewMemoryStorage = Some (NewMemoryStorage\<lparr>msHardState :=
      rdHardState ex_ready, msEnts := [zero_Entry, ex_put [1] [2] 1]\<rparr>)"
    by (simp add: ms_batch_def ex_ready_saved ms_command_def)
  show "batch_allowed [] ex_ready [CPut [1] [2]] s NewMemoryStorage"
    using ex_ready_ok [OF assms]
    by (simp add: batch_allowed_def m batch_applied_def ms_lastIndex_def ms_offset_def zero_Entry_def)
      (simp add: ex_ready_def ex_put_def)
  show "map_batch [] ex_ready [CPut [1] [2]] Map.empty = [[1] \<mapsto> [2]]"
    by (simp add: map_batch_def batch_map_def ex_ready_def IsEmptySnap_def zero_Snapshot_def)
qed

text \<open>A byte string that is no command: its one varint has no end.\<close>

lemma ex_corrupt: "entry_command (zero_Entry\<lparr>eData := Some [0x80]\<rparr>) = None"
proof -
  have "scan_tag Golang [0x80] = None" by (simp add: scan_tag_def varint.simps Let_def)
  then have "scan_field Golang sch [0x80] = None" for sch by (simp add: scan_field_def)
  then have "scan Golang sch [0x80] = None" for sch by (subst scan.simps) simp
  then show ?thesis
    by (simp add: entry_command_def unmarshal_RaftCmd_def unmarshal_into_def)
qed

text \<open>A read, and the peer with the read to serve.\<close>

definition ex_read :: "u64 \<Rightarrow> bytes \<Rightarrow> read" where
  "ex_read now key = \<lparr>ctx = buildReadCtx now key, cb = 0\<rparr>"

definition ex_reading :: "((bytes \<times> bytes) list, unit, unit) peer" where
  "ex_reading = ex_peer\<lparr>callbacks := [NewCallback], read_tasks := [(zero_ReadState, ex_read 0 [1])]\<rparr>"

section \<open>A run\<close>

abbreviation ex_started :: "(bytes \<times> bytes) list engines \<Rightarrow>
    ((bytes \<times> bytes) list, unit, unit) peer run" where
  "ex_started e \<equiv> newPeer mem_pebble ex_node (\<lambda>s a ids. ()) (\<lambda>s a. ()) 1 e ()"

abbreviation ex_step ::
    "((bytes \<times> bytes) list, unit, unit) config \<Rightarrow> ((bytes \<times> bytes) list, unit, unit) config \<Rightarrow> bool"
  where "ex_step \<equiv> peer_step mem_pebble ex_node ex_grpc"

lemma ex_start:
  "\<exists>pr. ex_started ex_engines = Some pr \<and> peer_ok mem_pebble pr NewMemoryStorage \<and>
     kv_map mem_pebble (engines (ps pr)) = Map.empty \<and> LastIndex (ps pr) = 0"
proof -
  have e: "engines ex_storage = ex_engines" by (simp add: ex_storage_def)
  have h: "lsHardState (localState ex_storage) = Some (msHardState NewMemoryStorage)"
    using ex_storage_facts(3) by (simp add: NewMemoryStorage_def)
  obtain pr where pr: "ex_started ex_engines = Some pr" "peer_ok mem_pebble pr NewMemoryStorage"
    "kv (engines (ps pr)) = kv ex_engines" "localState (ps pr) = localState ex_storage"
    using newPeer_reopens [OF mem_pebble_ok mem_pebble_healthy ex_storage_facts(1,2) h,
        of ex_node "\<lambda>s a ids. ()" "\<lambda>s a. ()" 1 "()"] unfolding e by blast
  moreover have "LastIndex (ps pr) = 0" using pr(4) ex_storage_fields(1) by (simp add: LastIndex_def)
  ultimately show ?thesis using ex_fresh_map e by auto
qed

text \<open>A first start and one batch.\<close>

lemma ex_run:
  "\<exists>pr0 pr ms. ex_started ex_engines = Some pr0 \<and>
     ex_step\<^sup>*\<^sup>* (pr0, NewMemoryStorage, kv_map mem_pebble ex_engines) (pr, ms, [[1] \<mapsto> [2]])"
proof -
  obtain pr0 where p: "ex_started ex_engines = Some pr0" "peer_ok mem_pebble pr0 NewMemoryStorage"
    "LastIndex (ps pr0) = 0" using ex_start by blast
  have m: "kv_map mem_pebble ex_engines = Map.empty"
    using ex_fresh_map by (simp add: ex_storage_def)
  obtain pr where "handleReady mem_pebble ex_node ex_grpc [] ex_ready pr0 = Some pr"
    using handleReady_refines [OF mem_pebble_ok mem_pebble_healthy p(2) ex_ready_ok [OF p(3)],
        of ex_node ex_grpc] by blast
  from peer_step.Batch [OF ex_ready_allowed(1) [OF p(3)] this ex_ready_allowed(2) [OF p(3)],
      of "Map.empty"]
  show ?thesis using p(1) unfolding m ex_ready_allowed(3) [OF p(3)] by blast
qed

end
