(* ===== verification/Storage_Theorems.thy ===== *)
theory Storage_Theorems
  imports Examples
begin

text \<open>
  The properties of the storage: the log on disk, its codecs, and snapshots. Each is stated over
  the model's own definitions and followed by its use at a concrete state.
\<close>

section \<open>The log\<close>

text \<open>C14: Saving the entries of a batch does to the log on disk what the raft library's memory
  storage does to its own: it returns, old entries from the first new index on are replaced, and
  the log read back is the memory storage's. Only the meta database and the two last-entry fields
  of the local state change; the user's data do not.\<close>

theorem truncateAndAppend_memory:
  assumes "pebble_ok P" "healthy P" "refines P s ms" "ready_batch ents (LastIndex s)"
  shows "\<exists>s' ms'. truncateAndAppend P ents s = Some s' \<and> ms_Append ents ms = Some ms' \<and>
    peer_ents P s' = msEnts ms' \<and> log_ok P s' \<and> LastIndex s' = ms_lastIndex ms' \<and>
    kv_map P (engines s') = kv_map P (engines s) \<and> applyState s' = applyState s \<and>
    lsHardState (localState s') = lsHardState (localState s)"
proof -
  obtain s' ms' t l where s': "truncateAndAppend P ents s = Some s'" "ms_Append ents ms = Some ms'"
    "refines P s' ms'"
    and m: "meta_only (s\<lparr>localState := (localState s)\<lparr>lsLastTerm := t, lsLastIndex := l\<rparr>\<rparr>) s'"
    using truncateAndAppend_refines [OF assms] by blast
  then show ?thesis
    using meta_only_fields(1-3) [OF m] refines_lastIndex [OF s'(3)] by (auto simp: refines_def)
qed

lemma truncateAndAppend_memory_witness:
  "\<exists>s'. truncateAndAppend mem_pebble ex_entries ex_storage = Some s' \<and> LastIndex s' = 3 \<and>
     peer_ents mem_pebble s' = zero_Entry # ex_entries"
  using truncateAndAppend_memory [OF mem_pebble_ok mem_pebble_healthy ex_storage_facts(1), of ex_entries]
    ex_entries_ready ex_logged_fields(1) ex_logged_facts(1) ex_append
  by (auto simp: ex_memory_def)

text \<open>C22: \<^verbatim>\<open>Term\<close> on a well-formed log answers for every index, and never panics: below the
  truncated index with \<^verbatim>\<open>ErrCompacted\<close>, from the truncated to the last index with the term of
  the entry there (as the memory storage does), beyond with an out-of-range error.\<close>

theorem Term_answers:
  assumes "refines P s ms"
  shows "Term P i s = Some (
      if i < trunc s then Inl ErrCompacted
      else if i \<le> LastIndex s then Inr (eTerm (peer_ents P s ! (unat i - unat (trunc s))))
      else Inl (if i = - 1 then ErrRangeLow (- 1) 0 else ErrRangeHigh (i + 1))) \<and>
    (trunc s \<le> i \<and> i \<le> LastIndex s) = (\<exists>t. ms_Term i ms = Some (Inr t)) \<and>
    (\<forall>t. ms_Term i ms = Some (Inr t) \<longrightarrow> Term P i s = Some (Inr t))"
proof -
  have ok: "log_ok P s" using assms by (simp add: refines_def)
  have "(trunc s \<le> i \<and> i \<le> LastIndex s) = (\<exists>t. ms_Term i ms = Some (Inr t))"
    using ms_Term_refines [OF assms, of i] ms_Term_range [OF assms, of i] by auto
  then show ?thesis
    using Term_compacted [OF ok] Term_beyond [OF ok] Term_refines [OF assms] ms_Term_refines [OF assms]
    by (auto simp: not_less not_le)
qed

lemma Term_answers_witness:
  "Term mem_pebble 3 ex_logged = Some (Inr 2) \<and> Term mem_pebble 4 ex_logged = Some (Inl (ErrRangeHigh 5))"
  using Term_answers [OF ex_logged_facts(2), of 3] Term_answers [OF ex_logged_facts(2), of 4]
  by (simp add: ex_entries_def)

text \<open>C24: \<^verbatim>\<open>Entries\<close> returns the entries of any range within the log, each under its own index,
  whatever the size limit: the memory storage returns a prefix of the same entries, cut at the
  limit that the peer's storage ignores.\<close>

theorem Entries_answers:
  assumes "refines P s ms" "trunc s < lo" "lo < hi" "hi \<le> LastIndex s + 1" "unat hi - unat lo < 2 ^ 63"
  shows "\<exists>es. (\<forall>maxSize. Entries P lo hi maxSize s = Some (Inr es) \<and>
      ms_Entries lo hi maxSize ms = Some (Inr (limitSize es (unat maxSize)))) \<and>
    length es = unat hi - unat lo \<and> consecutive lo es"
proof -
  have ok: "log_ok P s" using assms(1) by (simp add: refines_def)
  have "unat (trunc s + 1) = Suc (unat (trunc s))"
    using log_ok_last [OF ok] by (simp add: unat_add_small [of _ 1, simplified])
  then have lo: "trunc s + 1 \<le> lo" using assms(2) by (simp add: word_le_nat_alt word_less_nat_alt)
  show ?thesis
    using Entries_window [OF ok assms(2-5)] ms_Entries_window [OF assms(1-4)]
      window_facts(2,3) [OF ok lo assms(3,4)] by blast
qed

lemma Entries_answers_witness:
  "\<exists>es. Entries mem_pebble 1 3 1 ex_logged = Some (Inr es) \<and> length es = 2 \<and> consecutive 1 es"
  using Entries_answers [OF ex_logged_facts(2), of 1 3] by (auto simp: word_less_nat_alt word_le_nat_alt)

text \<open>C23: What \<^verbatim>\<open>Entries\<close> returns on a well-formed log, for every range of a size that a Go
  slice can have: an inverted range, a range beyond the last entry and a range that reaches into
  the compacted part each give their own error, in this order; an empty range gives no entries
  and any other range the entries of the log. It never panics.\<close>

theorem Entries_total:
  assumes "log_ok P s" "unat hi - unat lo < 2 ^ 63"
  shows "Entries P lo hi maxSize s = Some (
      if lo > hi then Inl (ErrRangeLow lo hi)
      else if hi > LastIndex s + 1 then Inl (ErrRangeHigh hi)
      else if lo \<le> trunc s then Inl ErrCompacted
      else Inr (take (unat hi - unat lo) (drop (unat lo - unat (trunc s)) (peer_ents P s))))"
proof -
  consider "lo > hi \<or> hi > LastIndex s + 1 \<or> lo \<le> trunc s" | "trunc s < lo" "lo = hi" "hi \<le> LastIndex s + 1"
    | "trunc s < lo" "lo < hi" "hi \<le> LastIndex s + 1" by fastforce
  then show ?thesis
  proof cases
    case 1
    then show ?thesis using checkRange_log_ok [OF assms(1), of lo hi] by (auto simp: Entries_def)
  next
    case 2
    then show ?thesis using checkRange_log_ok [OF assms(1), of lo hi] by (auto simp: Entries_def)
  next
    case 3
    then show ?thesis using Entries_window [OF assms(1) 3 assms(2)] by (auto simp: window_def)
  qed
qed

lemma Entries_total_witness:
  "Entries mem_pebble 2 1 0 ex_logged = Some (Inl (ErrRangeLow 2 1)) \<and>
   Entries mem_pebble 1 5 0 ex_logged = Some (Inl (ErrRangeHigh 5)) \<and>
   Entries mem_pebble 0 2 0 ex_logged = Some (Inl ErrCompacted) \<and>
   Entries mem_pebble 1 3 0 ex_logged = Some (Inr (take 2 ex_entries))"
  using Entries_total [OF ex_logged_log(1), of 1 2] Entries_total [OF ex_logged_log(1), of 5 1]
    Entries_total [OF ex_logged_log(1), of 2 0] Entries_total [OF ex_logged_log(1), of 3 1]
  by simp

text \<open>C20: The raft library's log, opened over the peer's storage, works: opening it does not
  panic, its committed and applied marks are the truncated index, and its terms, its answers to
  vote and append requests and its slices come without an error. Raft starts on it with every saved
  hard state whose commit index lies in the log and covers the applied index.\<close>

theorem raftLog_on_disk:
  fixes P :: "'d pebble"
  assumes "disk_inv (P, s)"
  shows "\<exists>l. newLog disk_storage (P, s) = Some l \<and> rlCommitted l = trunc s \<and>
    (\<forall>i. \<exists>t. rl_term disk_storage l (P, s) i = Some (Inr t)) \<and>
    (\<forall>i t. rl_isUpToDate disk_storage l (P, s) i t \<noteq> panic) \<and>
    (\<forall>i t. rl_matchTerm disk_storage l (P, s) i t \<noteq> panic) \<and>
    (\<forall>lo hi. trunc s < lo \<and> lo \<le> hi \<and> hi \<le> LastIndex s + 1 \<longrightarrow>
      (\<exists>es. rl_slice disk_storage l (P, s) lo hi noLimit = Some (Inr es) \<and>
        length es = unat hi - unat lo \<and> consecutive lo es)) \<and>
    (\<forall>hs applied. \<not> IsEmptyHardState hs \<and> trunc s \<le> applied \<and> applied \<le> hsCommit hs \<and>
        hsCommit hs \<le> LastIndex s \<longrightarrow>
      newRaft_log disk_storage (P, s) hs applied = Some (l\<lparr>rlCommitted := hsCommit hs, rlApplied := applied\<rparr>))"
proof -
  have ok: "log_ok P s" using assms by (simp add: disk_inv_def)
  have st: "st_first disk_storage (P, s) = Some (trunc s + 1)"
    "st_last disk_storage (P, s) = Some (LastIndex s)"
    using ok by (simp_all add: disk_storage_def FirstIndex_def)
  obtain l where l: "newLog disk_storage (P, s) = Some l" "rlCommitted l = trunc s"
    using disk.newLog_opens [OF assms] st by auto
  have u: "unat (trunc s + 1) = Suc (unat (trunc s))"
    using log_ok_last [OF ok] by (simp add: unat_add_small [of _ 1, simplified])
  have "trunc s + 1 \<le> lo" if "trunc s < lo" for lo
    using that u by (simp add: word_le_nat_alt word_less_nat_alt)
  moreover have "newRaft_log disk_storage (P, s) hs applied =
      Some (l\<lparr>rlCommitted := hsCommit hs, rlApplied := applied\<rparr>)"
    if "\<not> IsEmptyHardState hs \<and> trunc s \<le> applied \<and> applied \<le> hsCommit hs \<and> hsCommit hs \<le> LastIndex s"
    for hs applied
    using disk.newRaft_log_starts [OF assms st _ _ _ _ _ l(1), of hs applied] that by (auto intro: order_trans)
  ultimately show ?thesis
    using l disk.opened_term [OF assms l(1)] disk.opened_answers [OF assms l(1)]
      disk.opened_slice [OF assms l(1) st] by blast
qed

lemma raftLog_on_disk_witness:
  "\<exists>l. newLog disk_storage (mem_pebble, ex_storage) = Some l \<and> rlCommitted l = 0 \<and>
     newRaft_log disk_storage (mem_pebble, ex_storage) \<lparr>hsTerm = 1, hsVote = 0, hsCommit = 0\<rparr> 0 = Some l"
proof -
  have "\<not> IsEmptyHardState \<lparr>hsTerm = 1, hsVote = 0, hsCommit = 0\<rparr>"
    by (simp add: IsEmptyHardState_iff zero_HardState_def)
  moreover obtain l where l: "newLog disk_storage (mem_pebble, ex_storage) = Some l" "rlCommitted l = 0"
    "\<And>hs applied. \<not> IsEmptyHardState hs \<and> trunc ex_storage \<le> applied \<and> applied \<le> hsCommit hs \<and>
      hsCommit hs \<le> LastIndex ex_storage \<Longrightarrow> newRaft_log disk_storage (mem_pebble, ex_storage) hs applied =
        Some (l\<lparr>rlCommitted := hsCommit hs, rlApplied := applied\<rparr>)"
    using raftLog_on_disk [OF ex_storage_disk] by auto
  moreover have "rlApplied l = 0"
    using l(1) by (auto simp: newLog_def disk_storage_def FirstIndex_def truncateIndex_def zero_TruncatedState_def)
  ultimately show ?thesis by (intro exI [of _ l]) simp
qed

text \<open>The raft library, over the peer's storage, grants a vote by the linear order of logs: a
  candidate whose last term and index are not below those in the peer's local state, the term
  first, is up to date.\<close>

theorem votes_by_log_order:
  fixes P :: "'d pebble"
  assumes "disk_inv (P, s)"
  shows "\<exists>l. newLog disk_storage (P, s) = Some l \<and>
    (\<forall>i t. rl_isUpToDate disk_storage l (P, s) i t =
      Some (LogPos (lsLastTerm (localState s)) (LastIndex s) \<le> LogPos t i))"
proof -
  have ok: "log_ok P s" using assms by (simp add: disk_inv_def)
  let ?ms = "NewMemoryStorage\<lparr>msEnts := peer_ents P s\<rparr>"
  have r: "refines P s ?ms" using ok by (simp add: refines_def)
  have le: "trunc s \<le> LastIndex s" using ok by (simp add: log_ok_def)
  have "Term P (LastIndex s) s = Some (Inr (lsLastTerm (localState s)))"
    using Term_refines [OF r le] ms_Term_refines [OF r le] ok last_conv_nth [of "peer_ents P s"]
    by (simp add: log_ok_def log_size_def)
  then have st: "st_last disk_storage (P, s) = Some (LastIndex s)"
    "st_term disk_storage (LastIndex s) (P, s) = Some (Inr (lsLastTerm (localState s)))"
    by (simp_all add: disk_storage_def)
  obtain l where "newLog disk_storage (P, s) = Some l"
    using disk.newLog_opens [OF assms] by auto
  then show ?thesis using disk.opened_isUpToDate [OF assms _ st] by auto
qed

lemma votes_by_log_order_witness:
  "\<exists>l. newLog disk_storage (mem_pebble, ex_storage) = Some l \<and>
     rl_isUpToDate disk_storage l (mem_pebble, ex_storage) 0 1 = Some True"
  using votes_by_log_order [OF ex_storage_disk]
  by (auto simp: less_eq_log_pos_def ex_storage_def default_LocalState_def zero_LocalState_def)

section \<open>Codecs\<close>

text \<open>C25: The decoder of the snapshot data accepts exactly the encodings of lists of pairs
  whose size fits 32 bits, and returns the list that was encoded; it never reads a byte string
  in two ways and never returns pairs that were not encoded. What capacity lies behind an encoded
  slice makes no difference to its decoding.\<close>

theorem Decode_exact:
  "(Decode [] bs = Some pairs) = (bs = Encode pairs \<and> list_all pair_fits pairs) \<and>
   (list_all pair_fits pairs \<longrightarrow> Decode spare (Encode pairs) = Some pairs)"
  using Decode_Encode Encode_Decode by blast

lemma Decode_exact_witness:
  "Decode [7, 8] (Encode [\<lparr>Key = [1], Val = [2, 3]\<rparr>]) = Some [\<lparr>Key = [1], Val = [2, 3]\<rparr>]"
  using Decode_exact [of _ "[\<lparr>Key = [1], Val = [2, 3]\<rparr>]" "[7, 8]"] by (simp add: pair_fits_def)

text \<open>A pair of 4 GiB or a few bytes more is written with a size that has wrapped around,
  and decoding what was written panics.\<close>

theorem oversized_pair_panics:
  assumes "length (Key p) + length (Val p) + 8 = 2 ^ 32 + n" "n < 8"
  shows "Decode spare (Encode [p]) = panic"
  using oversized_not_read_back [OF assms] by simp

lemma oversized_pair_panics_witness:
  "Decode [] (Encode [\<lparr>Key = [], Val = replicate (2 ^ 32 - 8) 0\<rparr>]) = panic"
  by (rule oversized_pair_panics [of _ 0]) simp_all

text \<open>C30: Every message that the store writes is read back as it was written: the log entries,
  the three state records, and the commands, for all payloads of a size that a Go slice can have.\<close>

theorem messages_read_back:
  "unmarshal_LocalState (marshal_LocalState ls) = Some ls \<and>
   unmarshal_ApplyState (marshal_ApplyState as) = Some as \<and>
   unmarshal_ConfState (marshal_ConfState cs) = Some cs \<and>
   (Entry_fits ent \<longrightarrow> unmarshal_Entry (marshal_Entry ent) = Some ent) \<and>
   (RaftCmd_fits cmd \<longrightarrow> unmarshal_RaftCmd (marshal_RaftCmd cmd) = Some cmd)"
  by (simp add: unmarshal_marshal_LocalState unmarshal_marshal_ApplyState unmarshal_marshal_ConfState
      unmarshal_marshal_Entry unmarshal_marshal_RaftCmd)

lemma messages_read_back_witness:
  "unmarshal_Entry (marshal_Entry (ex_put [1] [2] 7)) = Some (ex_put [1] [2] 7) \<and>
   unmarshal_RaftCmd (marshal_RaftCmd (NewPutCmdRequest [1] [2])) = Some (NewPutCmdRequest [1] [2])"
  using messages_read_back [where ent = "ex_put [1] [2] 7" and cmd = "NewPutCmdRequest [1] [2]"]
    ex_put_fits [of "[1]" "[2]"] RaftCmd_fits_Put [of "[1]" "[2]"] by simp

section \<open>Snapshots\<close>

text \<open>C21: A snapshot made on one peer while nothing else happens there and installed on another: the follower's log starts at the
  sender's applied index and term, its configuration is the sender's, and its map takes over every
  key of the sender. A key that the sender does not have keeps the follower's old value: nothing is
  removed.\<close>

theorem snapshot_transfer:
  assumes P: "pebble_ok P" "healthy P" "pebble_ok Q" "healthy Q"
    and s: "log_ok P s" "trunc s \<le> AppliedIndex s" "AppliedIndex s \<le> LastIndex s"
      "kv_fits (kv_map P (engines s))"
    and f: "asTruncatedState (applyState f) \<noteq> None"
  shows "\<exists>x f'. make_snapshot P s s s = Some x \<and> applySnapshot Q spare x f = Some f' \<and>
    kv_map Q (engines f') = kv_map Q (engines f) ++ kv_map P (engines s) \<and>
    LastIndex f' = AppliedIndex s \<and> AppliedIndex f' = AppliedIndex s \<and> trunc f' = AppliedIndex s \<and>
    lsLastTerm (localState f') = eTerm (peer_ents P s ! (unat (AppliedIndex s) - unat (trunc s))) \<and>
    confState f' = confState s"
proof -
  obtain x pairs where x: "make_snapshot P s s s = Some x" "smIndex (snMetadata x) = AppliedIndex s"
    "smTerm (snMetadata x) = eTerm (peer_ents P s ! (unat (AppliedIndex s) - unat (trunc s)))"
    "smConfState (snMetadata x) = confState s" "Decode spare (slice (snData x)) = Some pairs"
    "pair_map pairs = kv_map P (engines s)"
    using make_snapshot_contents [OF P(1) s] by blast
  obtain f' where "applySnapshot Q spare x f = Some f'"
    "localState f' = (localState f)\<lparr>lsLastIndex := smIndex (snMetadata x),
      lsLastTerm := smTerm (snMetadata x)\<rparr>"
    "applyState f' = snapshot_state x" "confState f' = smConfState (snMetadata x)"
    "kv_map Q (engines f') = kv_map Q (engines f) ++ pair_map pairs"
    using applySnapshot_effect [OF P(3,4) f x(5)] by blast
  with x show ?thesis
    by (simp add: LastIndex_def AppliedIndex_def trunc_state_def snapshot_state_def)
qed

lemma snapshot_transfer_witness:
  "\<exists>x f'. make_snapshot mem_pebble ex_logged ex_logged ex_logged = Some x \<and>
     applySnapshot mem_pebble [] x ex_storage = Some f' \<and> LastIndex f' = 0 \<and>
     confState f' = confState ex_logged"
  using snapshot_transfer [OF mem_pebble_ok mem_pebble_healthy mem_pebble_ok mem_pebble_healthy
      ex_logged_log(1), of ex_storage "[]"] ex_logged_applied by (auto simp: kv_fits_def contents_mem_pebble)

text \<open>C27: The bookkeeping of snapshot generation, over every sequence of requests by raft, steps of
  the generating goroutines and writes of saves from the start on: at most five attempts are counted,
  a generating state has a channel, every pending goroutine, wherever it is, has a channel of its own
  that is still empty, and no channel ever holds more than the one snapshot of its buffer, so no
  goroutine blocks.\<close>

theorem snapshot_protocol:
  assumes "newPeerStorage P e = Some s0" "(snap_step P)\<^sup>*\<^sup>* s0 s"
  shows "0 \<le> snapTriedCnt s \<and> snapTriedCnt s \<le> 5 \<and> distinct (map fst (generating s)) \<and>
    (StateType (snapState s) = SnapshotGenerating \<longrightarrow>
      (\<exists>n. Receiver (snapState s) = Some n \<and> n < length (chans s))) \<and>
    (\<forall>(n, g) \<in> set (generating s). n < length (chans s) \<and> chans s ! n = []) \<and>
    (\<forall>c \<in> set (chans s). length c \<le> 1)"
  using snap_run_inv [OF assms(2) snap_inv_new [OF assms(1)]]
  by (auto simp: snap_inv_def list_all_iff defaultSnapTriedCnt_def split: option.splits)

lemma snapshot_protocol_witness:
  "\<exists>s. (snap_step mem_pebble)\<^sup>*\<^sup>* ex_storage s \<and> generating s = [(0, GenTerm)] \<and> chans s ! 0 = []"
proof -
  have "snap_step mem_pebble ex_storage (snd (snd (schedule_snapshot zero_Snapshot ex_storage)))"
    by (rule snap_step.Ask [where x = zero_Snapshot and er = "Some ErrSnapshotTemporarilyUnavailable"])
      (simp add: Snapshot_op_def schedule_snapshot_def ex_storage_def defaultSnapTriedCnt_def Let_def)
  then have r: "(snap_step mem_pebble)\<^sup>*\<^sup>* ex_storage
      (snd (snd (schedule_snapshot zero_Snapshot ex_storage)))" by blast
  moreover have "generating (snd (snd (schedule_snapshot zero_Snapshot ex_storage))) = [(0, GenTerm)]"
    by (simp add: schedule_snapshot_def ex_storage_def defaultSnapTriedCnt_def Let_def)
  ultimately show ?thesis using snapshot_protocol [OF ex_storage_new r] by auto
qed



text \<open>When five attempts have been used up, the next request gives up: the error it returns
  says 0 attempts, whatever the count was, and the count starts anew.\<close>

theorem snapshot_give_up:
  assumes "Snapshot_op s = Some (x, Some (ErrSnapTried n), s')"
  shows "n = 0 \<and> snapTriedCnt s' = 0 \<and> 5 \<le> snapTriedCnt s"
  using assms
  by (auto simp: Snapshot_op_def schedule_snapshot_def Let_def defaultSnapTriedCnt_def
      split: if_splits option.splits prod.splits)

lemma snapshot_give_up_witness:
  "\<exists>s' n. Snapshot_op (ex_storage\<lparr>snapTriedCnt := 5\<rparr>) = Some (zero_Snapshot, Some (ErrSnapTried n), s') \<and>
     n = 0 \<and> snapTriedCnt s' = 0"
proof -
  have "\<exists>s' n. Snapshot_op (ex_storage\<lparr>snapTriedCnt := 5\<rparr>) =
      Some (zero_Snapshot, Some (ErrSnapTried n), s')"
    by (simp add: Snapshot_op_def schedule_snapshot_def ex_storage_def defaultSnapTriedCnt_def Let_def)
  then show ?thesis using snapshot_give_up by blast
qed

section \<open>Outside the invariant\<close>

text \<open>With the greatest index as the last one, a batch that replaces a tail of the log does
  not return: the loop over the stale indexes never passes its bound.\<close>

theorem stale_removal_diverges:
  assumes "ents \<noteq> []" "LastIndex s = - 1" "eIndex (last ents) \<noteq> - 1"
    and "truncateIndex s = Some t" "t + 1 \<le> eIndex (last ents)"
  shows "truncateAndAppend P ents s = None \<and> (\<forall>i. stale_entries i (LastIndex s) = None)"
  using truncateAndAppend_diverges [OF assms] stale_entries_diverges assms(2) by simp

lemma stale_removal_diverges_witness:
  "truncateAndAppend mem_pebble ex_entries
     (ex_storage\<lparr>localState := (localState ex_storage)\<lparr>lsLastIndex := - 1\<rparr>\<rparr>) = None"
  using stale_removal_diverges [of ex_entries
      "ex_storage\<lparr>localState := (localState ex_storage)\<lparr>lsLastIndex := - 1\<rparr>\<rparr>" 0 mem_pebble]
    ex_storage_fields(4)
  by (simp add: ex_entries_def LastIndex_def truncateIndex_def zero_TruncatedState_def)

text \<open>Errors of the database are dropped when a batch is saved: if no write succeeds, saving
  an entry still returns, nothing is stored, and yet the last index and term are the entry's. The
  last index is then not in the log, and \<^verbatim>\<open>Entries\<close> fails on it.\<close>

theorem write_errors_dropped:
  assumes "\<And>k v b d. pb_set P k v b d = (Some er, d)"
    and "truncateIndex s = Some t" "t < eIndex ent" "LastIndex s \<le> eIndex ent" "eIndex ent \<noteq> - 1"
    and "read_entry P (engines s) (eIndex ent) = Inl er'"
  shows "\<exists>s'. truncateAndAppend P [ent] s = Some s' \<and> engines s' = engines s \<and>
    LastIndex s' = eIndex ent \<and> Term P (eIndex ent) s' = Some (Inr (eTerm ent)) \<and>
    Entries P (eIndex ent) (eIndex ent + 1) maxSize s' = Some (Inl er')"
proof -
  let ?i = "eIndex ent"
  let ?s = "s\<lparr>localState := (localState s)\<lparr>lsLastTerm := eTerm ent, lsLastIndex := ?i\<rparr>\<rparr>"
  have le: "t + 1 \<le> ?i" using assms(3) by (rule inc_le)
  have lt: "?i < ?i + 1" using unat_minus_one_less [OF assms(5)]
    by (simp add: word_less_nat_alt unat_add_small [of _ 1, simplified])
  have t: "truncateIndex ?s = Some t" using assms(2) by (simp add: truncateIndex_def)
  have c: "checkRange ?i (?i + 1) ?s = Some None"
    using lt assms(3) by (simp add: checkRange_def t leD not_le less_not_sym)
  have "Term P ?i ?s = Some (Inr (eTerm ent))"
    using less_imp_neq [OF assms(3)] c by (auto simp: Term_def t)
  moreover have "Entries P ?i (?i + 1) maxSize ?s = Some (Inl er')"
    using c lt assms(6) by (simp add: Entries_def Let_def read_entries.simps [of P _ ?i])
  ultimately show ?thesis
    using truncateAndAppend_drops_errors [OF assms(1,2) le assms(4)]
    by (intro exI [of _ ?s]) (simp add: LastIndex_def)
qed

lemma write_errors_dropped_witness:
  "\<exists>s'. truncateAndAppend ex_broken [ex_put [1] [2] 1] ex_storage = Some s' \<and> LastIndex s' = 1 \<and>
     Entries ex_broken 1 2 0 s' = Some (Inl ErrNotFound)"
proof -
  have r: "read_entry ex_broken (engines ex_storage) 1 = Inl ErrNotFound"
    by (simp add: read_entry_def ReadMeta_def storage_get_def ex_broken_def ex_storage_def
        ex_engines_def mem_pebble_def)
  have t: "truncateIndex ex_storage = Some 0"
    by (simp add: truncateIndex_def zero_TruncatedState_def)
  have e: "eIndex (ex_put [1] [2] 1) = 1" by (simp add: ex_put_def)
  from write_errors_dropped [of ex_broken "PebbleErr 0" ex_storage 0 "ex_put [1] [2] 1"] r t show ?thesis
    unfolding e by (fastforce simp: ex_broken_def)
qed

end
