(* ===== verification/Peer_Theorems.thy ===== *)
theory Peer_Theorems
  imports Examples
begin

text \<open>
  The properties of a peer: applying committed entries, compaction, and linearizable reads.
\<close>

section \<open>Applying entries\<close>

text \<open>C15: Applying a committed entry: the user's map changes by the entry's command and by
  nothing else, the applied index becomes the entry's, in memory and on disk, and the local state
  and the configuration stay. Only a compaction that is not behind the truncated index changes
  the truncated state, and only that starts a collector.\<close>

theorem process_effect:
  assumes "pebble_ok P" "healthy P" "asTruncatedState (applyState (ps pr)) \<noteq> None"
    and "entry_command ent = Some c"
  shows "\<exists>pr'. process P ent pr = Some pr' \<and>
    kv_map P (engines (ps pr')) = apply_command c (kv_map P (engines (ps pr))) \<and>
    AppliedIndex (ps pr') = eIndex ent \<and>
    InitRaftApplyState P (engines (ps pr')) = Some (applyState (ps pr')) \<and>
    localState (ps pr') = localState (ps pr) \<and> confState (ps pr') = confState (ps pr) \<and>
    trunc_state (ps pr') =
      (case c of
         CCompact i t \<Rightarrow> if i \<ge> trunc (ps pr) then \<lparr>tsIndex = i, tsTerm = t\<rparr> else trunc_state (ps pr)
       | _ \<Rightarrow> trunc_state (ps pr)) \<and>
    gc_tasks pr' = gc_tasks pr @
      (case c of
         CCompact i t \<Rightarrow> if i \<ge> trunc (ps pr) then [(lastCompactedIdx pr + 1, i + 1)] else []
       | _ \<Rightarrow> [])"
proof -
  obtain pr' where p: "process P ent pr = Some pr'" "applied P ent c (ps pr) (ps pr')"
    "gc_tasks pr' = gc_tasks pr \<or> (\<exists>i t. c = CCompact i t \<and> trunc (ps pr) \<le> i)"
    using process_applied [OF assms(1,2,4,3)] by blast
  have "InitRaftApplyState P (engines (ps pr')) = Some (applyState (ps pr'))"
    using p(2) by (intro apply_state_written) (simp add: applied_def Let_def)
  moreover have "trunc_state (ps pr') =
      (case c of
         CCompact i t \<Rightarrow> if i \<ge> trunc (ps pr) then \<lparr>tsIndex = i, tsTerm = t\<rparr> else trunc_state (ps pr)
       | _ \<Rightarrow> trunc_state (ps pr))"
    using p(2) assms(3) by (cases c) (auto simp: applied_def Let_def trunc_state_def compact_state_def)
  moreover have "gc_tasks pr' = gc_tasks pr @
      (case c of
         CCompact i t \<Rightarrow> if i \<ge> trunc (ps pr) then [(lastCompactedIdx pr + 1, i + 1)] else []
       | _ \<Rightarrow> [])"
    using p(3) assms(4) process_collects [OF _ p(1) assms(3)] by (cases c) auto
  ultimately show ?thesis
    using p applied_index [OF p(2)] by (intro exI [of _ pr']) (auto simp: applied_def Let_def)
qed

lemma process_effect_witness:
  "\<exists>pr'. process mem_pebble (ex_put [1] [2] 1) ex_peer = Some pr' \<and>
     kv_map mem_pebble (engines (ps pr')) [1] = Some [2] \<and> AppliedIndex (ps pr') = 1"
proof -
  have "ps ex_peer = ex_storage" "eIndex (ex_put [1] [2] 1) = 1"
    by (simp_all add: ex_peer_def ex_put_def)
  then show ?thesis
    using process_effect [OF mem_pebble_ok mem_pebble_healthy _ ex_put_command, of ex_peer "[1]" "[2]" 1]
    by auto
qed

text \<open>An entry that does not decode to a command takes the peer down, and nothing else does:
  \<^verbatim>\<open>process\<close> panics exactly on such entries.\<close>

theorem process_panics_iff:
  assumes "pebble_ok P" "healthy P" "asTruncatedState (applyState (ps pr)) \<noteq> None"
  shows "process P ent pr = panic \<longleftrightarrow> entry_command ent = None"
proof (cases "entry_command ent")
  case None
  then show ?thesis by (simp add: process_panics)
next
  case (Some c)
  then show ?thesis using process_applied [OF assms(1,2) Some assms(3)] by auto
qed

lemma process_panics_iff_witness:
  "process mem_pebble (zero_Entry\<lparr>eData := Some [0x80]\<rparr>) ex_peer = panic"
  using process_panics_iff [OF mem_pebble_ok mem_pebble_healthy, of ex_peer] ex_corrupt
  by (simp add: ex_peer_def)

text \<open>The entries that the raft library itself puts in the log are no commands and change
  nothing but the applied index: the empty entry of a new leader, and the configuration changes of a
  first start, whose bytes the command decoder skips field by field.\<close>

theorem library_entries_are_no_commands:
  "entry_command (ent\<lparr>eData := None\<rparr>) = Some CNone \<and> entry_command (ent\<lparr>eData := Some []\<rparr>) = Some CNone \<and>
   map entry_command (bootstrap_entries loadRaftPeers) = replicate 3 (Some CNone)"
  by (simp add: bootstrap_entries_command entry_command_empty loadRaftPeers_def map_replicate_trivial
      numeral_3_eq_3)

text \<open>C26: Applying a compaction that raft agreed on does to the log what \<^verbatim>\<open>Compact\<close> does to the
  memory storage: the log read back is the memory storage's, with the dummy entry at the new
  truncated index; one that is behind the truncated index changes nothing.\<close>

theorem compaction_is_Compact:
  assumes P: "pebble_ok P" "healthy P" and r: "refines P (ps pr) ms"
    and c: "entry_command ent = Some (CCompact i t)"
      "i < trunc (ps pr) \<or> ms_Term i ms = Some (Inr t)"
  shows "\<exists>pr' er ms'. process P ent pr = Some pr' \<and> ms_Compact i ms = Some (er, ms') \<and>
    refines P (ps pr') ms' \<and> trunc (ps pr') = max i (trunc (ps pr)) \<and>
    kv_map P (engines (ps pr')) = kv_map P (engines (ps pr))"
proof -
  have ts: "asTruncatedState (applyState (ps pr)) \<noteq> None"
    using r by (simp add: refines_def log_ok_def)
  obtain pr' where p: "process P ent pr = Some pr'" "applied P ent (CCompact i t) (ps pr) (ps pr')"
    using process_applied [OF P c(1) ts] by blast
  have "command_ok (CCompact i t) ms"
    using c(2) by (simp add: command_ok_def refines_offset [OF r])
  from applied_refines [OF r this p(2)] obtain er ms' where
    "ms_Compact i ms = Some (er, ms')" "refines P (ps pr') ms'" by (auto simp: ms_command_def)
  moreover have "trunc (ps pr') = max i (trunc (ps pr))"
    using p(2) ts by (auto simp: applied_def Let_def trunc_state_def compact_state_def max_def)
  ultimately show ?thesis using p by (auto simp: applied_def Let_def)
qed

lemma compaction_is_Compact_witness:
  "\<exists>pr' ms'. process mem_pebble (ex_compact 2 1 4) (ex_peer\<lparr>ps := ex_logged\<rparr>) = Some pr' \<and>
     ms_Compact 2 ex_memory = Some (None, ms') \<and> refines mem_pebble (ps pr') ms' \<and> trunc (ps pr') = 2"
proof -
  have "ms_Term 2 ex_memory = Some (Inr 1)"
    by (simp add: ms_Term_def ms_offset_def ex_memory_def ex_entries_def zero_Entry_def)
  moreover have "ms_Compact 2 ex_memory =
      Some (None, ex_memory\<lparr>msEnts := [zero_Entry\<lparr>eIndex := 2, eTerm := 1\<rparr>, ex_entries ! 2]\<rparr>)"
    by (simp add: ms_Compact_def ms_offset_def ms_lastIndex_def ex_memory_def ex_entries_def
        zero_Entry_def Let_def)
  ultimately show ?thesis
    using compaction_is_Compact [OF mem_pebble_ok mem_pebble_healthy _ ex_compact_command,
        of "ex_peer\<lparr>ps := ex_logged\<rparr>" ex_memory 2 1 4] ex_logged_facts(2)
    by (auto simp: max_def)
qed

section \<open>Garbage collection\<close>

text \<open>C29: The collector deletes nothing. A compaction raises the truncated index before it starts
  the collector, so whenever the collector runs its range lies in the compacted part of the log, the
  read of the entries to delete fails, and the database stays as it was: compacted entries stay on
  disk for ever.\<close>

theorem collector_deletes_nothing:
  assumes P: "pebble_ok P" "healthy P" and ts: "asTruncatedState (applyState (ps pr)) \<noteq> None"
    and c: "entry_command ent = Some (CCompact i t)" "trunc (ps pr) \<le> i" and n: "gc_tasks pr = []"
  shows "\<exists>pr1 pr2. process P ent pr = Some pr1 \<and> gc_tasks pr1 = [(lastCompactedIdx pr + 1, i + 1)] \<and>
    run_gc_task P 0 pr1 = Some pr2 \<and> gc_tasks pr2 = [] \<and> ps pr2 = ps pr1 \<and>
    (\<forall>j. log_entry P (ps pr2) j = log_entry P (ps pr) j)"
proof -
  obtain pr1 where p: "process P ent pr = Some pr1" "applied P ent (CCompact i t) (ps pr) (ps pr1)"
    using process_applied [OF P c(1) ts] by blast
  have g: "gc_tasks pr1 = [(lastCompactedIdx pr + 1, i + 1)]"
    using process_collects [OF c(1) p(1) ts c(2)] n by simp
  have t: "asTruncatedState (applyState (ps pr1)) = Some \<lparr>tsIndex = i, tsTerm = t\<rparr>"
    using p(2) ts c(2) by (auto simp: applied_def Let_def compact_state_def trunc_state_def)
  then have "gc_bounded pr1" by (simp add: gc_bounded_def g trunc_state_def)
  then obtain pr2 where r: "run_gc_task P 0 pr1 = Some pr2" "ps pr2 = ps pr1"
    using run_gc_task_noop [of pr1 P 0] t by auto
  then have "gc_tasks pr2 = []" using g by (auto simp: run_gc_task_def)
  moreover have "log_entry P (ps pr1) = log_entry P (ps pr)"
    using p(2) by (auto simp: applied_def Let_def intro: log_entry_apply_key)
  ultimately show ?thesis using p(1) g r by auto
qed

lemma collector_deletes_nothing_witness:
  "\<exists>pr1 pr2. process mem_pebble (ex_compact 2 1 4) (ex_peer\<lparr>ps := ex_logged\<rparr>) = Some pr1 \<and>
     run_gc_task mem_pebble 0 pr1 = Some pr2 \<and> gc_tasks pr2 = [] \<and> trunc (ps pr2) = trunc (ps pr1) \<and>
     log_entry mem_pebble (ps pr2) 1 = log_entry mem_pebble ex_logged 1"
  using collector_deletes_nothing [OF mem_pebble_ok mem_pebble_healthy _ ex_compact_command,
      of "ex_peer\<lparr>ps := ex_logged\<rparr>" 2 1 4] by (auto simp: ex_peer_def)

text \<open>The leader's compaction task returns in every state with a well-formed log. It proposes
  a compaction when at least 1000 entries past the first one are applied, and then of the last
  applied entry but one, with the term the log has there.\<close>

theorem compaction_proposed:
  assumes "log_ok P (ps pr)" "AppliedIndex (ps pr) \<le> LastIndex (ps pr)"
  shows "onLogGCTask P N pr = Some (
    if isLeader N pr \<and> AppliedIndex (ps pr) > trunc (ps pr) + 1 \<and>
       AppliedIndex (ps pr) - (trunc (ps pr) + 1) \<ge> 1000
    then (let i = AppliedIndex (ps pr) - 1 in
          snd (propose N (NewCompactCmdRequest i
            (eTerm (peer_ents P (ps pr) ! (unat i - unat (trunc (ps pr)))))) pr))
    else pr)"
  using onLogGCTask_returns [OF assms] by (simp add: defaultLogGCCountLimit_def)

lemma compaction_proposed_witness:
  "onLogGCTask mem_pebble ex_node (ex_peer\<lparr>ps := ex_applied\<rparr>) = Some (ex_peer\<lparr>ps := ex_applied\<rparr>)"
  using compaction_proposed [of mem_pebble "ex_peer\<lparr>ps := ex_applied\<rparr>" ex_node]
  by (simp add: word_le_nat_alt)

section \<open>Crashes\<close>

text \<open>C38: A crash between the two halves of \<^verbatim>\<open>process\<close> loses the command: the storage that is
  opened next says that the entry is applied, and its map is the old one. For a put of a new value
  the map then differs from the one that applying the entry gives.\<close>

theorem crash_loses_command:
  assumes P: "pebble_ok P" "healthy P" and s: "persisted P (ps pr)"
      "asTruncatedState (applyState (ps pr)) \<noteq> None"
    and c: "entry_command ent = Some (CPut k v)" "kv_map P (engines (ps pr)) k \<noteq> Some v"
  shows "\<exists>r pr'. newPeerStorage P (engines (mark_applied P ent (ps pr))) = Some r \<and>
    process P ent pr = Some pr' \<and> AppliedIndex r = AppliedIndex (ps pr') \<and>
    kv_map P (engines r) k \<noteq> kv_map P (engines (ps pr')) k"
proof -
  obtain pr' where p: "process P ent pr = Some pr'" "applied P ent (CPut k v) (ps pr) (ps pr')"
    using process_applied [OF P c(1) s(2)] by blast
  then show ?thesis
    using crash_after_mark [OF P s(1), of ent] applied_index [OF p(2)] c(2)
    by (auto simp: applied_def Let_def)
qed

lemma crash_loses_command_witness:
  "\<exists>r pr'. newPeerStorage mem_pebble (engines (mark_applied mem_pebble (ex_put [1] [2] 1) ex_storage)) =
       Some r \<and> process mem_pebble (ex_put [1] [2] 1) ex_peer = Some pr' \<and>
     AppliedIndex r = AppliedIndex (ps pr') \<and>
     kv_map mem_pebble (engines r) [1] \<noteq> kv_map mem_pebble (engines (ps pr')) [1]"
  using crash_loses_command [OF mem_pebble_ok mem_pebble_healthy _ _ ex_put_command,
      of ex_peer "[1]" "[2]" 1] ex_storage_facts(2) ex_fresh_map by (simp add: ex_peer_def)

text \<open>The three kinds of batches of \<open>Crash_Save\<close>, on small ones: one entry that is appended; an entry
  written over a log of three; a snapshot with one pair.\<close>

lemma save_crash_atomic_witness:
  "\<exists>ws r. save_writes mem_pebble [] ex_ready ex_storage = Some ws \<and>
     newPeerStorage mem_pebble (do_writes mem_pebble (take 1 ws) (engines ex_storage)) = Some r \<and>
     AppliedIndex r = 0 \<and> kv_map mem_pebble (engines r) = Map.empty"
proof -
  have "ready_ok [] ex_ready ex_storage NewMemoryStorage"
    using ex_ready_ok [of ex_storage] by (simp add: batch_ok_def)
  moreover have "extends_log ex_ready ex_storage"
    by (simp add: extends_log_def) (simp add: ex_ready_def IsEmptySnap_def zero_Snapshot_def ex_put_def)
  moreover have "lsHardState (localState ex_storage) = Some (msHardState NewMemoryStorage)"
    using ex_storage_facts(3) by (simp add: NewMemoryStorage_def)
  ultimately obtain ws where ws: "save_writes mem_pebble [] ex_ready ex_storage = Some ws"
    "\<And>k. \<exists>r. newPeerStorage mem_pebble (do_writes mem_pebble (take k ws) (engines ex_storage)) = Some r \<and>
      applyState r = applyState ex_storage \<and> kv_map mem_pebble (engines r) = kv_map mem_pebble (engines ex_storage)"
    using save_crash_atomic [OF mem_pebble_ok mem_pebble_healthy ex_storage_facts(1,2), of "[]" ex_ready] by blast
  from ws(2) [of 1] ws(1) show ?thesis
    using ex_storage_fields(2) by (auto simp: ex_fresh_map AppliedIndex_def)
qed

definition ex_ready3 :: Ready where
  "ex_ready3 = ex_ready\<lparr>rdEntries := ex_entries, rdCommittedEntries := []\<rparr>"

definition ex_over :: Ready where
  "ex_over = ex_ready3\<lparr>rdEntries := [zero_Entry\<lparr>eTerm := 3, eIndex := 2\<rparr>]\<rparr>"

definition ex_snap_ready :: Ready where
  "ex_snap_ready = ex_ready3\<lparr>rdEntries := [], rdSnapshot :=
     zero_Snapshot\<lparr>snData := Some (Encode [\<lparr>Key = [1], Val = [2]\<rparr>]),
       snMetadata := (snMetadata zero_Snapshot)\<lparr>smIndex := 9, smTerm := 3\<rparr>\<rparr>\<rparr>"

lemma ex_batches:
  "IsEmptySnap (rdSnapshot ex_ready3)" "rdEntries ex_ready3 = ex_entries"
  "\<not> IsEmptyHardState (rdHardState ex_ready3)"
  "IsEmptySnap (rdSnapshot ex_over)" "rdEntries ex_over = [zero_Entry\<lparr>eTerm := 3, eIndex := 2\<rparr>]"
  "\<not> IsEmptySnap (rdSnapshot ex_snap_ready)" "rdEntries ex_snap_ready = []"
  "slice (snData (rdSnapshot ex_snap_ready)) = Encode [\<lparr>Key = [1], Val = [2]\<rparr>]"
  "smIndex (snMetadata (rdSnapshot ex_snap_ready)) = 9"
  "rdHardState ex_ready3 = \<lparr>hsTerm = 1, hsVote = 1, hsCommit = 1\<rparr>"
  by (simp_all add: ex_ready3_def ex_over_def ex_snap_ready_def ex_ready_def IsEmptySnap_def
      zero_Snapshot_def slice_def IsEmptyHardState_iff zero_HardState_def)

text \<open>A storage in which three entries and a hard state have been saved.\<close>

lemma ex_saved:
  "\<exists>s. persisted mem_pebble s \<and> LastIndex s = 3 \<and> trunc s = 0 \<and>
     refines mem_pebble s (ex_memory\<lparr>msHardState := rdHardState ex_ready3\<rparr>) \<and>
     lsHardState (localState s) = Some (rdHardState ex_ready3)"
proof -
  have m: "ms_save ex_ready3 NewMemoryStorage = Some (ex_memory\<lparr>msHardState := rdHardState ex_ready3\<rparr>)"
    by (simp add: ms_save_def ex_batches(1-3) ex_append ms_SetHardState_def)
  have "ready_ok [] ex_ready3 ex_storage NewMemoryStorage"
    using ex_entries_ready by (simp add: ready_ok_def ex_batches)
  moreover have "others_persisted mem_pebble ex_storage"
    using ex_storage_facts(2) by (simp add: persisted_def others_persisted_def)
  moreover have "lsHardState (localState ex_storage) = Some (msHardState NewMemoryStorage)"
    using ex_storage_facts(3) by (simp add: NewMemoryStorage_def)
  ultimately obtain s where s: "refines mem_pebble s (ex_memory\<lparr>msHardState := rdHardState ex_ready3\<rparr>)"
    "lsHardState (localState s) = Some (rdHardState ex_ready3)" "persisted mem_pebble s"
    "applyState s = batch_state ex_ready3 (applyState ex_storage)"
    using saveReadyState_refines [OF mem_pebble_ok mem_pebble_healthy ex_storage_facts(1), of "[]" ex_ready3] m
    by auto
  moreover have "LastIndex s = 3"
    using refines_lastIndex [OF s(1)]
    by (simp add: ms_lastIndex_def ms_offset_def ex_memory_def ex_entries_def zero_Entry_def)
  moreover have "trunc s = 0"
    using s(4) ex_storage_fields(3) by (simp add: batch_state_def ex_batches trunc_state_def)
  ultimately show ?thesis by blast
qed

lemma overwrite_crash_witness:
  "\<exists>s ws r q. save_writes mem_pebble [] ex_over s = Some ws \<and>
     newPeerStorage mem_pebble (do_writes mem_pebble (take 1 ws) (engines s)) = Some r \<and>
     map eTerm (peer_ents mem_pebble s) = [0, 1, 1, 2] \<and>
     map eTerm (peer_ents mem_pebble r) = [0, 1, 3, 2] \<and>
     newPeerStorage mem_pebble (do_writes mem_pebble (butlast ws) (engines s)) = Some q \<and>
     Entries mem_pebble 3 4 noLimit q = Some (Inl ErrNotFound)"
proof -
  let ?ms = "ex_memory\<lparr>msHardState := rdHardState ex_ready3\<rparr>"
  obtain s where s: "persisted mem_pebble s" "LastIndex s = 3" "trunc s = 0"
    "refines mem_pebble s ?ms" "lsHardState (localState s) = Some (rdHardState ex_ready3)"
    using ex_saved by blast
  have rd: "ready_ok [] ex_over s ?ms"
    using s(2) by (simp add: ready_ok_def ready_batch_def ex_batches consecutive_Cons zero_Entry_def Entry_fits_def)
  have "others_persisted mem_pebble s" using s(1) by (simp add: persisted_def others_persisted_def)
  then obtain s' where "saveReadyState mem_pebble [] ex_over s = Some (None, s')"
    using saveReadyState_refines [OF mem_pebble_ok mem_pebble_healthy s(4) rd] s(5) by auto
  then obtain ws where ws: "save_writes mem_pebble [] ex_over s = Some ws"
    using save_writes_exact [OF mem_pebble_ok mem_pebble_healthy] by blast
  have h: "eIndex (hd (rdEntries ex_over)) = 2" "length (rdEntries ex_over) = 1" by (simp_all add: ex_batches)
  note c = overwrite_crash [OF mem_pebble_ok mem_pebble_healthy s(4,1) ex_batches(4) rd _ _ ws]
  obtain r where r: "newPeerStorage mem_pebble (do_writes mem_pebble (take 1 ws) (engines s)) = Some r"
    "refines mem_pebble r (?ms\<lparr>msEnts := torn_ents 2 (take 1 (rdEntries ex_over)) (msEnts ?ms)\<rparr>)"
    using c s(2,3) h by (auto simp: ex_batches(5))
  obtain q where q: "newPeerStorage mem_pebble (do_writes mem_pebble (butlast ws) (engines s)) = Some q"
    "LastIndex q = 3" "Entries mem_pebble (LastIndex q) (LastIndex q + 1) noLimit q = Some (Inl ErrNotFound)"
    using c s(2,3) by (auto simp: ex_batches(5))
  have "peer_ents mem_pebble s = zero_Entry # ex_entries"
    "peer_ents mem_pebble r = torn_ents 2 (rdEntries ex_over) (zero_Entry # ex_entries)"
    using s(4) r(2) by (simp_all add: refines_def ex_memory_def ex_batches(5))
  then have "map eTerm (peer_ents mem_pebble s) = [0, 1, 1, 2]"
    "map eTerm (peer_ents mem_pebble r) = [0, 1, 3, 2]"
    by (simp_all add: ex_batches(5) torn_ents_def ex_entries_def zero_Entry_def)
  moreover have "Entries mem_pebble 3 4 noLimit q = Some (Inl ErrNotFound)" using q(2,3) by simp
  ultimately show ?thesis using ws r(1) q(1)
    by (intro exI [of _ s] exI [of _ ws] exI [of _ r] exI [of _ q] conjI)
qed

lemma snapshot_crash_witness:
  "\<exists>s ws r. save_writes mem_pebble [] ex_snap_ready s = Some ws \<and>
     newPeerStorage mem_pebble (do_writes mem_pebble (take 2 ws) (engines s)) = Some r \<and>
     AppliedIndex r = 9 \<and> LastIndex r = 3 \<and>
     newRaft_log disk_storage (mem_pebble, r) \<lparr>hsTerm = 1, hsVote = 1, hsCommit = 1\<rparr> 9 = panic"
proof -
  let ?ms = "ex_memory\<lparr>msHardState := rdHardState ex_ready3\<rparr>"
  obtain s where s: "persisted mem_pebble s" "LastIndex s = 3" "trunc s = 0"
    "refines mem_pebble s ?ms" "lsHardState (localState s) = Some (rdHardState ex_ready3)"
    using ex_saved by blast
  have d: "Decode [] (slice (snData (rdSnapshot ex_snap_ready))) = Some [\<lparr>Key = [1], Val = [2]\<rparr>]"
    by (simp only: ex_batches(8)) (rule Decode_Encode, simp add: pair_fits_def)
  have rd: "ready_ok [] ex_snap_ready s ?ms"
    using d by (simp add: ready_ok_def ready_batch_def ex_batches)
      (simp add: ex_memory_def NewMemoryStorage_def zero_Snapshot_def)
  have "others_persisted mem_pebble s" using s(1) by (simp add: persisted_def others_persisted_def)
  then obtain s' where "saveReadyState mem_pebble [] ex_snap_ready s = Some (None, s')"
    using saveReadyState_refines [OF mem_pebble_ok mem_pebble_healthy s(4) rd] s(5) by auto
  then obtain ws where ws: "save_writes mem_pebble [] ex_snap_ready s = Some ws"
    using save_writes_exact [OF mem_pebble_ok mem_pebble_healthy] by blast
  then have "2 < length ws"
    using d by (auto simp: save_writes_def snapshot_writes_def bind_eq_Some_conv ex_batches(6))
  then obtain r where "newPeerStorage mem_pebble (do_writes mem_pebble (take 2 ws) (engines s)) = Some r"
    "AppliedIndex r = 9" "localState r = localState s"
    "newRaft_log disk_storage (mem_pebble, r) \<lparr>hsTerm = 1, hsVote = 1, hsCommit = 1\<rparr> 9 = panic"
    using snapshot_crash [OF mem_pebble_ok mem_pebble_healthy s(4,1,5) ex_batches(6) d ex_batches(3) _ ws, of 2]
    by (auto simp: ex_batches(9,10))
  moreover from this have "LastIndex r = 3" using s(2) by (simp add: LastIndex_def)
  ultimately show ?thesis using ws by blast
qed

section \<open>Linearizable reads\<close>

text \<open>A read that is served answers with what the applied map holds for its key then, and
  completes its callback with the answer: nil when the key is absent or its value is empty.\<close>

theorem read_served:
  assumes "healthy P" "k < length (read_tasks pr)" "read_tasks pr ! k = (st, r)"
    "ctx r = buildReadCtx now key" "cb r < length (callbacks pr)"
  shows "\<exists>pr'. readApplied P k pr = Some pr' \<and> ps pr' = ps pr \<and>
    length (read_tasks pr') = length (read_tasks pr) - 1 \<and>
    cbDone (callbacks pr' ! cb r) = Suc (cbDone (callbacks pr ! cb r)) \<and>
    cbResp (callbacks pr' ! cb r) = Some (NewGetCmdResponse
      (case kv_map P (engines (ps pr)) key of
         None \<Rightarrow> None | Some v \<Rightarrow> if v = [] then None else Some v))"
  using assms read_response_value [OF assms(1,4), of "ps pr"]
  by (auto simp: readApplied_def Done_def nil_if_empty_def split: option.split)

lemma read_served_witness:
  "\<exists>pr'. readApplied mem_pebble 0 ex_reading = Some pr' \<and>
     cbResp (callbacks pr' ! 0) = Some (NewGetCmdResponse None)"
  using read_served [OF mem_pebble_healthy, of 0 ex_reading zero_ReadState "ex_read 0 [1]" 0 "[1]"]
    ex_fresh_map by (auto simp: ex_reading_def ex_read_def ex_peer_def NewCallback_def)

text \<open>C36: A signal that raft has answered a read serves the first queued read that has an answer,
  under that answer, which is used once. Of the reads before it exactly those go back to the queue, in
  their order and behind the reads after it, that were registered less than 15 seconds before the
  moment they are looked at; the others are dropped.\<close>

theorem signal_serves_first_answered:
  assumes "readc pr = xs @ x # ys" "readStateTable pr (ctx x) = Some st"
    "\<forall>y \<in> set xs. readStateTable pr (ctx y) = None \<and> read_timestamp y \<noteq> None"
  shows "\<exists>pr'. handleReadState clock pr = Some pr' \<and>
    readc pr' = ys @ map snd (filter (\<lambda>(i, y). \<exists>ts. read_timestamp y = Some ts \<and>
      sint (clock (length (readc pr) - i) - ts) < 15 * 10 ^ 9) (enumerate 0 xs)) \<and>
    read_tasks pr' = read_tasks pr @ [(st, x)] \<and>
    readStateTable pr' = (readStateTable pr)(ctx x := None)"
proof -
  have "still_fresh clock n y = Some True \<longleftrightarrow> (\<exists>ts. read_timestamp y = Some ts \<and> sint (clock n - ts) < 15 * 10 ^ 9)"
    for n y by (simp add: still_fresh_def read_timeout_def)
  then show ?thesis
    using handleReadState_match [OF assms(1,2), of clock] assms(3) by (simp add: list_all_iff)
qed

lemma signal_serves_first_answered_witness:
  "\<exists>pr'. handleReadState (\<lambda>n. 16 * 10 ^ 9) (ex_peer\<lparr>readc := [ex_read (10 ^ 9) [1], ex_read (2 * 10 ^ 9) [3], ex_read 0 [2], ex_read 0 [4]],
       readStateTable := [buildReadCtx 0 [2] \<mapsto> \<lparr>rsIndex = 5, rsRequestCtx = []\<rparr>]\<rparr>) = Some pr' \<and>
     readc pr' = [ex_read 0 [4], ex_read (2 * 10 ^ 9) [3]] \<and>
     read_tasks pr' = [(\<lparr>rsIndex = 5, rsRequestCtx = []\<rparr>, ex_read 0 [2])]"
proof -
  let ?pr = "ex_peer\<lparr>readc := [ex_read (10 ^ 9) [1], ex_read (2 * 10 ^ 9) [3], ex_read 0 [2], ex_read 0 [4]],
    readStateTable := [buildReadCtx 0 [2] \<mapsto> \<lparr>rsIndex = 5, rsRequestCtx = []\<rparr>]\<rparr>"
  have c: "ctx (ex_read now key) = buildReadCtx now key" for now key by (simp add: ex_read_def)
  have n: "buildReadCtx (10 ^ 9) [1] \<noteq> buildReadCtx 0 [2]" "buildReadCtx (2 * 10 ^ 9) [3] \<noteq> buildReadCtx 0 [2]"
    by (simp_all add: buildReadCtx_def)
  show ?thesis
    using signal_serves_first_answered [of ?pr "[ex_read (10 ^ 9) [1], ex_read (2 * 10 ^ 9) [3]]" "ex_read 0 [2]"
        "[ex_read 0 [4]]" "\<lparr>rsIndex = 5, rsRequestCtx = []\<rparr>" "\<lambda>n. 16 * 10 ^ 9"] n
    by (auto simp: read_timestamp_ctx [OF c] c ex_peer_def)
qed

text \<open>C37: A signal when none of the queued reads has an answer (the answered one was dropped as too
  old) serves the last queued read all the same, under the zero state: it does not wait for any
  index, so it can be served however far the applied log is behind.\<close>

theorem unanswered_read_is_served:
  assumes "readc pr \<noteq> []" "\<forall>y \<in> set (readc pr). readStateTable pr (ctx y) = None \<and> read_timestamp y \<noteq> None"
    and "cb (last (readc pr)) < length (callbacks pr)" "can_Done (callbacks pr ! cb (last (readc pr)))"
  shows "\<exists>pr'. handleReadState clock pr = Some pr' \<and>
    read_tasks pr' = read_tasks pr @ [(zero_ReadState, last (readc pr))] \<and>
    can_readApplied (length (read_tasks pr)) pr'"
  using handleReadState_unmatched [OF assms(1), of clock] assms(2-4)
  by (auto simp: list_all_iff can_readApplied_def zero_ReadState_def)

lemma unanswered_read_is_served_witness:
  "\<exists>pr'. handleReadState (\<lambda>n. 0) (ex_peer\<lparr>readc := [ex_read 0 [1]], callbacks := [NewCallback]\<rparr>) = Some pr' \<and>
     can_readApplied 0 pr'"
  using unanswered_read_is_served [of "ex_peer\<lparr>readc := [ex_read 0 [1]], callbacks := [NewCallback]\<rparr>"
      "\<lambda>n. 0"]
  by (auto simp: ex_read_def ex_peer_def buildReadCtx_def read_timestamp_def can_Done_def NewCallback_def)

text \<open>A signal when the queue is empty dereferences a nil read: the peer goes down. A batch
  with two answers signals once, and the queue can be empty when an answer comes that its read has
  not waited for.\<close>

theorem signal_without_reads_panics:
  assumes "readc pr = []"
  shows "handleReadState clock pr = panic"
  using assms by (rule handleReadState_empty)

lemma signal_without_reads_panics_witness: "handleReadState (\<lambda>n. 0) ex_peer = panic"
  by (rule signal_without_reads_panics) (simp add: ex_peer_def)

end
