(* ===== verification/Interleaving.thy ===== *)
theory Interleaving
  imports Peer_Runs Save_Steps
begin

text \<open>
  The goroutines of a peer (\<^verbatim>\<open>run\<close> and \<^verbatim>\<open>onTick\<close> of \<^verbatim>\<open>raftstore/peer.go\<close>), interleaved. \<open>Peer_Runs\<close>
  handles a batch in one step; here the goroutine of \<^verbatim>\<open>onTick\<close> has a program counter. Every write it
  makes to a database, saving a batch, installing a snapshot or applying an entry, is a step, and
  between any two the message loop, the read loop, the collectors, the goroutines that make
  snapshots (each with its own program counter) and the reads that wait for an index may run, or
  the process end and start again. The committed entries are those of one log that all peers share,
  which is what raft promises; about the snapshots that a peer receives nothing is promised. What has
  happened to the map of a peer is noted in a history.
\<close>

section \<open>The goroutine of onTick\<close>

text \<open>The second half of \<^verbatim>\<open>process\<close>: the command is decoded and applied.\<close>

definition process_command :: "'d pebble \<Rightarrow> Entry \<Rightarrow> ('d, 'n, 'w) peer \<Rightarrow> ('d, 'n, 'w) peer run" where
  "process_command P ent pr =
     do {
       cmd \<leftarrow> unmarshal_RaftCmd (slice (eData ent));
       case rcRequest cmd of
         Some request \<Rightarrow> processRequest P request pr
       | None \<Rightarrow>
           (case rcAdminRequest cmd of
              Some request \<Rightarrow> processAdminRequest P request pr
            | None \<Rightarrow> Some pr)
     }"

lemma process_halves: "process P ent pr = process_command P ent (pr\<lparr>ps := mark_applied P ent (ps pr)\<rparr>)"
  by (simp add: process_def process_command_def Let_def)

text \<open>Applying a command leaves the reads alone.\<close>

definition reads_kept :: "('d, 'n, 'w) peer \<Rightarrow> ('d, 'n, 'w) peer \<Rightarrow> bool" where
  "reads_kept pr pr' \<longleftrightarrow>
     read_tasks pr' = read_tasks pr \<and> callbacks pr' = callbacks pr \<and> readc pr' = readc pr \<and>
     readStateTable pr' = readStateTable pr \<and> readStateComing pr' = readStateComing pr"

lemma processRequest_reads: "processRequest P r pr = Some pr' \<Longrightarrow> reads_kept pr pr'"
  by (cases "rqPut r"; cases "rqDelete r")
    (auto simp: processRequest_def Let_def reads_kept_def split: if_split_asm)

lemma processAdminRequest_reads: "processAdminRequest P a pr = Some pr' \<Longrightarrow> reads_kept pr pr'"
  by (auto simp: processAdminRequest_def Let_def reads_kept_def bind_eq_Some_conv split: if_split_asm)

lemma process_command_reads:
  assumes "process_command P ent pr = Some pr'"
  shows "reads_kept pr pr'"
proof -
  obtain cmd where u: "unmarshal_RaftCmd (slice (eData ent)) = Some cmd"
    using assms by (auto simp: process_command_def bind_eq_Some_conv)
  show ?thesis
  proof (cases "rcRequest cmd")
    case (Some r)
    then show ?thesis using assms u by (simp add: process_command_def processRequest_reads)
  next
    case None
    then show ?thesis using assms u
      by (cases "rcAdminRequest cmd") (auto simp: process_command_def reads_kept_def
          dest: processAdminRequest_reads [unfolded reads_kept_def])
  qed
qed

text \<open>
  Where the goroutine is: at its \<^verbatim>\<open>select\<close>; in the save of a batch; before the signal of a saved
  batch; before the next committed entry; or between the two halves of \<^verbatim>\<open>process\<close>, with the applied
  index written and the command not applied.
\<close>

datatype pc = Select | Saving bytes Ready save_pc | Saved Ready | Applying "Entry list" | Marked Entry "Entry list"

text \<open>The read states of a batch are noted once it is saved.\<close>

definition note_batch :: "Ready \<Rightarrow> ('d, 'n, 'w) peer \<Rightarrow> ('d, 'n, 'w) peer" where
  "note_batch rd pr =
     pr\<lparr>readStateTable := foldl (\<lambda>t st. t(rsRequestCtx st \<mapsto> st)) (readStateTable pr) (rdReadStates rd),
       committing := Some rd\<rparr>"

definition send_batch :: "'w grpc \<Rightarrow> Ready \<Rightarrow> ('d, 'n, 'w) peer \<Rightarrow> ('d, 'n, 'w) peer" where
  "send_batch G rd pr =
     (let pr0 = signal rd pr in pr0\<lparr>router := sendRaftMsgs G (rdMessages rd) (router pr0)\<rparr>)"

definition finish_batch :: "'n raft_node \<Rightarrow> ('d, 'n, 'w) peer \<Rightarrow> ('d, 'n, 'w) peer" where
  "finish_batch N pr = pr\<lparr>raftGroup := nd_advance N (raftGroup pr), committing := None\<rparr>"

text \<open>The steps of the goroutine with a batch, up to the next \<^verbatim>\<open>select\<close>.\<close>

inductive apply_step ::
    "'d pebble \<Rightarrow> 'n raft_node \<Rightarrow> 'w grpc \<Rightarrow> ('d, 'n, 'w) peer \<times> pc \<Rightarrow> ('d, 'n, 'w) peer \<times> pc \<Rightarrow> bool"
  for P N G where
  Write: "save_next P spare rd w (ps pr) = Some (s', w') \<Longrightarrow>
    apply_step P N G (pr, Saving spare rd w) (pr\<lparr>ps := s'\<rparr>, Saving spare rd w')"
| Note: "apply_step P N G (pr, Saving spare rd SaveDone) (note_batch rd pr, Saved rd)"
| Signal: "can_signal rd pr \<Longrightarrow>
    apply_step P N G (pr, Saved rd) (send_batch G rd pr, Applying (rdCommittedEntries rd))"
| Mark: "apply_step P N G (pr, Applying (ent # ents)) (pr\<lparr>ps := mark_applied P ent (ps pr)\<rparr>, Marked ent ents)"
| Apply: "process_command P ent pr = Some pr' \<Longrightarrow> apply_step P N G (pr, Marked ent ents) (pr', Applying ents)"
| Finish: "apply_step P N G (pr, Applying []) (finish_batch N pr, Select)"

text \<open>Undisturbed, the steps are the function \<open>handleReady\<close>.\<close>

lemma save_steps_run:
  "(save_step P spare rd)\<^sup>*\<^sup>* (ps pr, w) (s', w') \<Longrightarrow>
   (apply_step P N G)\<^sup>*\<^sup>* (pr, Saving spare rd w) (pr\<lparr>ps := s'\<rparr>, Saving spare rd w')"
proof (induction "(s', w')" arbitrary: s' w' rule: rtranclp_induct)
  case base
  then show ?case by simp
next
  case (step t)
  obtain s1 w1 where t: "t = (s1, w1)" by fastforce
  have "save_next P spare rd w1 (ps (pr\<lparr>ps := s1\<rparr>)) = Some (s', w')"
    using step.hyps(2) t by (simp add: save_step_def)
  from Write [OF this, of N G] step.hyps(3) [OF t] show ?case by simp
qed

lemma handleReady_save_run:
  assumes "handleReady_save P spare rd pr = Some pr'"
  shows "(apply_step P N G)\<^sup>*\<^sup>* (pr, Saving spare rd SaveStart) (pr', Saved rd)"
proof -
  obtain er s where s: "saveReadyState P spare rd (ps pr) = Some (er, s)" "pr' = note_batch rd (pr\<lparr>ps := s\<rparr>)"
    using assms by (auto simp: handleReady_save_def note_batch_def)
  show ?thesis
    unfolding s(2)
    by (rule rtranclp.rtrancl_into_rtrancl [OF save_steps_run [OF saveReadyState_steps [OF s(1)]] Note])
qed

lemma apply_entries_run:
  "process_all P ents pr = Some pr' \<Longrightarrow>
   (apply_step P N G ^^ (2 * length ents)) (pr, Applying ents) (pr', Applying [])"
proof (induction ents arbitrary: pr)
  case (Cons ent ents)
  then obtain pr1 where "process P ent pr = Some pr1" and t: "process_all P ents pr1 = Some pr'"
    by (auto simp: bind_eq_Some_conv)
  then have "apply_step P N G (pr\<lparr>ps := mark_applied P ent (ps pr)\<rparr>, Marked ent ents) (pr1, Applying ents)"
    by (auto simp: process_halves intro: Apply)
  from relpowp_Suc_I2 [OF this Cons.IH [OF t]]
  have "(apply_step P N G ^^ Suc (2 * length ents))
    (pr\<lparr>ps := mark_applied P ent (ps pr)\<rparr>, Marked ent ents) (pr', Applying [])" .
  from relpowp_Suc_I2 [OF Mark this] show ?case by simp
qed simp

lemma handleReady_run:
  assumes "handleReady P N G spare rd pr = Some pr'"
  shows "\<exists>pr1. handleReady_save P spare rd pr = Some pr1 \<and>
    (apply_step P N G)\<^sup>*\<^sup>* (pr, Saving spare rd SaveStart) (pr1, Saved rd) \<and>
    (can_signal rd pr1 \<longrightarrow>
      (apply_step P N G ^^ (2 * length (rdCommittedEntries rd) + 2)) (pr1, Saved rd) (pr', Select))"
proof -
  obtain pr1 where s: "handleReady_save P spare rd pr = Some pr1"
    and a: "handleReady_apply P N G rd pr1 = Some pr'"
    using assms by (auto simp: handleReady_def bind_eq_Some_conv)
  then obtain pr2 where p: "process_all P (rdCommittedEntries rd) (send_batch G rd pr1) = Some pr2"
    and e: "pr' = finish_batch N pr2"
    by (auto simp: handleReady_apply_def send_batch_def finish_batch_def Let_def bind_eq_Some_conv)
  have "(apply_step P N G ^^ (2 * length (rdCommittedEntries rd) + 2)) (pr1, Saved rd) (pr', Select)"
    if "can_signal rd pr1"
  proof -
    from relpowp_Suc_I [OF apply_entries_run [OF p] Finish]
    have "(apply_step P N G ^^ Suc (2 * length (rdCommittedEntries rd)))
        (send_batch G rd pr1, Applying (rdCommittedEntries rd)) (pr', Select)"
      unfolding e .
    from relpowp_Suc_I2 [OF Signal [OF that] this] show ?thesis by simp
  qed
  with s handleReady_save_run [OF s] show ?thesis by blast
qed

section \<open>The committed log\<close>

text \<open>Raft gives every peer the same committed entries, at the same indexes.\<close>

definition committed_log :: "Entry list \<Rightarrow> bool" where
  "committed_log L \<longleftrightarrow>
     length L < 2 ^ 64 \<and> list_all (\<lambda>e. entry_command e \<noteq> None) L \<and>
     list_all (\<lambda>k. eIndex (L ! k) = word_of_nat (Suc k)) [0..<length L]"

definition commands_of :: "Entry list \<Rightarrow> command list" where
  "commands_of es = map (\<lambda>e. the (entry_command e)) es"

text \<open>The map after the first \<open>n\<close> entries.\<close>

definition committed_map :: "Entry list \<Rightarrow> nat \<Rightarrow> bytes \<Rightarrow> bytes option" where
  "committed_map L n = fold apply_command (commands_of (take n L)) Map.empty"

definition next_entries :: "Entry list \<Rightarrow> nat \<Rightarrow> Entry list \<Rightarrow> bool" where
  "next_entries L n es \<longleftrightarrow> n + length es \<le> length L \<and> take (length es) (drop n L) = es"

text \<open>
  What raft promises of a batch for a peer that has applied \<open>n\<close> entries: its committed entries come
  next, behind those its snapshot stands for if it has one. What is in the snapshot is not raft's to
  promise: the data is made and installed by this program.
\<close>

definition batch_index :: "Ready \<Rightarrow> nat \<Rightarrow> nat" where
  "batch_index rd n =
     (if IsEmptySnap (rdSnapshot rd) then n else unat (smIndex (snMetadata (rdSnapshot rd))))"

definition follows :: "Entry list \<Rightarrow> Ready \<Rightarrow> nat \<Rightarrow> bool" where
  "follows L rd n \<longleftrightarrow> next_entries L (batch_index rd n) (rdCommittedEntries rd)"

lemma committed_index: "committed_log L \<Longrightarrow> k < length L \<Longrightarrow> unat (eIndex (L ! k)) = Suc k"
  by (simp add: committed_log_def list_all_iff unat_of_nat del: of_nat_Suc)

lemma commands_committed: "committed_log L \<Longrightarrow> set es \<subseteq> set L \<Longrightarrow>
    map entry_command es = map Some (commands_of es)"
  by (auto simp: committed_log_def list_all_iff commands_of_def)

lemma next_entries_Cons:
  "next_entries L n (e # es) \<longleftrightarrow> n < length L \<and> e = L ! n \<and> next_entries L (Suc n) es"
  by (auto simp: next_entries_def Cons_nth_drop_Suc [symmetric] take_Suc_Cons)

lemma next_entries_set: "next_entries L n es \<Longrightarrow> set es \<subseteq> set L"
  unfolding next_entries_def by (metis set_drop_subset set_take_subset subset_trans)

lemma next_entries_Nil [simp]: "next_entries L n [] \<longleftrightarrow> n \<le> length L"
  by (simp add: next_entries_def)

lemma committed_map_0 [simp]: "committed_map L 0 = Map.empty"
  by (simp add: committed_map_def commands_of_def)

lemma committed_map_Suc:
  "n < length L \<Longrightarrow> committed_map L (Suc n) = apply_command (the (entry_command (L ! n))) (committed_map L n)"
  by (simp add: committed_map_def commands_of_def take_Suc_conv_app_nth)

lemma committed_command: "committed_log L \<Longrightarrow> k < length L \<Longrightarrow> \<exists>c. entry_command (L ! k) = Some c"
  by (simp add: committed_log_def list_all_length)

section \<open>Histories\<close>

text \<open>
  What has happened to a map, latest first: a committed command was applied; an entry was counted as
  applied and its command lost in a crash; the index of a snapshot was taken over; a pair of a
  snapshot was written.
\<close>

datatype event = Ran Entry | Lost Entry | Installed u64 | Wrote bytes bytes

text \<open>The number of entries that count as applied, and the map.\<close>

fun hist_index :: "event list \<Rightarrow> nat" where
  "hist_index [] = 0"
| "hist_index (Ran ent # h) = Suc (hist_index h)"
| "hist_index (Lost ent # h) = Suc (hist_index h)"
| "hist_index (Installed i # h) = unat i"
| "hist_index (Wrote k v # h) = hist_index h"

fun replay :: "event list \<Rightarrow> bytes \<Rightarrow> bytes option" where
  "replay [] = Map.empty"
| "replay (Ran ent # h) = apply_command (the (entry_command ent)) (replay h)"
| "replay (Wrote k v # h) = (replay h)(k \<mapsto> v)"
| "replay (ev # h) = replay h"

text \<open>The entries of a history are those of the committed log, in its order and without a gap but for
  those that a snapshot stands for.\<close>

fun of_log :: "Entry list \<Rightarrow> event list \<Rightarrow> bool" where
  "of_log L [] = True"
| "of_log L (Ran ent # h) = (of_log L h \<and> hist_index h < length L \<and> ent = L ! hist_index h)"
| "of_log L (Lost ent # h) = (of_log L h \<and> hist_index h < length L \<and> ent = L ! hist_index h)"
| "of_log L (Installed i # h) = (of_log L h \<and> unat i \<le> length L)"
| "of_log L (Wrote k v # h) = of_log L h"

lemma of_log_index: "of_log L h \<Longrightarrow> hist_index h \<le> length L"
  by (induction h rule: hist_index.induct) auto

text \<open>The key that an entry writes, and the keys whose value is the committed one: no snapshot has been
  installed and no command for the key lost, or a command for the key has been applied since.\<close>

fun command_key :: "command \<Rightarrow> bytes option" where
  "command_key (CPut k v) = Some k"
| "command_key (CDelete k) = Some k"
| "command_key c = None"

definition writes_key :: "bytes \<Rightarrow> Entry \<Rightarrow> bool" where
  "writes_key k ent \<longleftrightarrow> Option.bind (entry_command ent) command_key = Some k"

fun settled :: "bytes \<Rightarrow> event list \<Rightarrow> bool" where
  "settled k [] = True"
| "settled k (Ran ent # h) = (writes_key k ent \<or> settled k h)"
| "settled k (Lost ent # h) = (\<not> writes_key k ent \<and> settled k h)"
| "settled k (Installed i # h) = False"
| "settled k (Wrote k' v # h) = (k' \<noteq> k \<and> settled k h)"

text \<open>With no snapshot and no lost command in its history every key is settled.\<close>

fun disturbs :: "event \<Rightarrow> bool" where
  "disturbs (Ran ent) = False"
| "disturbs ev = True"

lemma undisturbed_settled: "list_all (\<lambda>ev. \<not> disturbs ev) h \<Longrightarrow> settled k h"
  by (induction h rule: hist_index.induct) auto

lemma apply_command_key:
  "command_key c = Some k \<Longrightarrow> apply_command c m k = apply_command c m' k"
  "command_key c \<noteq> Some k \<Longrightarrow> apply_command c m k = m k"
  by (cases c; auto)+

lemma settled_committed:
  assumes "committed_log L" "of_log L h" "settled k h"
  shows "replay h k = committed_map L (hist_index h) k"
  using assms(2,3)
proof (induction h rule: hist_index.induct)
  case (2 ent h)
  obtain c where c: "entry_command ent = Some c" using committed_command [OF assms(1)] 2(2) by auto
  show ?case
  proof (cases "command_key c = Some k")
    case True
    then show ?thesis
      using 2(2) c apply_command_key(1) [OF True, of "replay h"] by (simp add: committed_map_Suc)
  next
    case False
    then show ?thesis
      using 2 c apply_command_key(2) [OF False] by (simp add: committed_map_Suc writes_key_def)
  qed
next
  case (3 ent h)
  obtain c where c: "entry_command ent = Some c" using committed_command [OF assms(1)] 3(2) by auto
  then show ?case
    using 3 apply_command_key(2) [of c k] by (simp add: committed_map_Suc writes_key_def)
qed auto

section \<open>All goroutines\<close>

text \<open>The entries the goroutine still has to apply, the one it is at included, and how many are applied
  before them.\<close>

fun to_apply :: "pc \<Rightarrow> Entry list" where
  "to_apply Select = []"
| "to_apply (Saving spare rd w) = rdCommittedEntries rd"
| "to_apply (Saved rd) = rdCommittedEntries rd"
| "to_apply (Applying ents) = ents"
| "to_apply (Marked ent ents) = ent # ents"

fun applied_before :: "pc \<Rightarrow> nat \<Rightarrow> nat" where
  "applied_before (Saving spare rd SaveStart) n = batch_index rd n"
| "applied_before c n = n"

text \<open>What the next step of the goroutine adds to the history, and what a crash instead of it does.\<close>

fun noted :: "pc \<Rightarrow> event list" where
  "noted (Saving spare rd SaveStart) =
     (if IsEmptySnap (rdSnapshot rd) then [] else [Installed (smIndex (snMetadata (rdSnapshot rd)))])"
| "noted (Saving spare rd (PairLoop (p # pairs))) = [Wrote (Key p) (Val p)]"
| "noted (Marked ent ents) = [Ran ent]"
| "noted c = []"

fun lost :: "pc \<Rightarrow> event list" where
  "lost (Marked ent ents) = [Lost ent]"
| "lost c = []"

type_synonym ('d, 'n, 'w) threads = "(('d, 'n, 'w) peer \<times> pc) \<times> event list"

text \<open>
  \<open>Begin\<close> and \<open>Tick\<close> are the two cases of the \<^verbatim>\<open>select\<close> in \<^verbatim>\<open>onTick\<close>. \<open>Ask\<close> is raft's call of the
  storage's \<^verbatim>\<open>Snapshot\<close>, \<open>Generate\<close> a step of a goroutine that it started. A restart is possible
  wherever the goroutines are.
\<close>

inductive thread_step ::
    "'d pebble \<Rightarrow> 'n raft_node \<Rightarrow> 'w grpc \<Rightarrow> Entry list \<Rightarrow> ('d, 'n, 'w) threads \<Rightarrow> ('d, 'n, 'w) threads \<Rightarrow> bool"
  for P N G L where
  Begin: "follows L rd (unat (AppliedIndex (ps pr))) \<Longrightarrow>
    thread_step P N G L ((pr, Select), h) ((pr, Saving spare rd SaveStart), h)"
| Tick: "tick P N pr = Some pr' \<Longrightarrow> thread_step P N G L ((pr, Select), h) ((pr', Select), h)"
| Own: "apply_step P N G (pr, c) (pr', c') \<Longrightarrow>
    thread_step P N G L ((pr, c), h) ((pr', c'), noted c @ h)"
| Messages: "thread_step P N G L ((pr, c), h) ((handleRaftMsgs N pr, c), h)"
| Collect: "run_gc_task P k pr = Some pr' \<Longrightarrow> thread_step P N G L ((pr, c), h) ((pr', c), h)"
| Propose: "thread_step P N G L ((pr, c), h) ((snd (propose N cmd pr), c), h)"
| Read: "can_linearizableRead pr \<Longrightarrow> linearizableRead N now key pr = Some (k, pr') \<Longrightarrow>
    thread_step P N G L ((pr, c), h) ((pr', c), h)"
| Match: "can_handleReadState pr \<Longrightarrow> handleReadState clock pr = Some pr' \<Longrightarrow>
    thread_step P N G L ((pr, c), h) ((pr', c), h)"
| Serve: "can_readApplied k pr \<Longrightarrow> readApplied P k pr = Some pr' \<Longrightarrow>
    thread_step P N G L ((pr, c), h) ((pr', c), h)"
| Ask: "Snapshot_op (ps pr) = Some (x, er, s') \<Longrightarrow> thread_step P N G L ((pr, c), h) ((pr\<lparr>ps := s'\<rparr>, c), h)"
| Generate: "n \<in> fst ` set (generating (ps pr)) \<Longrightarrow> SchedSnapGen P n (ps pr) = Some s' \<Longrightarrow>
    thread_step P N G L ((pr, c), h) ((pr\<lparr>ps := s'\<rparr>, c), h)"
| Restart: "newPeer P N' start restart i (engines (ps pr)) w = Some pr' \<Longrightarrow>
    thread_step P N G L ((pr, c), h) ((pr', Select), lost c @ h)"

section \<open>The invariant\<close>

text \<open>One for the entry that is counted as applied and is not.\<close>

fun in_flight :: "pc \<Rightarrow> nat" where
  "in_flight (Marked ent ents) = 1"
| "in_flight c = 0"

text \<open>
  The apply state is on disk, the applied index is that of the history but for the entry between the
  halves of \<^verbatim>\<open>process\<close>, the map is what the history gives, and the entries still to apply come next
  in the committed log.
\<close>

definition thread_ok :: "'d pebble \<Rightarrow> Entry list \<Rightarrow> ('d, 'n, 'w) threads \<Rightarrow> bool" where
  "thread_ok P L t \<longleftrightarrow>
     (case t of ((pr, c), h) \<Rightarrow>
       apply_saved P (ps pr) \<and> of_log L h \<and>
       unat (AppliedIndex (ps pr)) = hist_index h + in_flight c \<and>
       kv_map P (engines (ps pr)) = replay h \<and>
       next_entries L (applied_before c (hist_index h)) (to_apply c))"

text \<open>Steps of the other goroutines.\<close>

lemma thread_ok_same:
  assumes "healthy P" "thread_ok P L ((pr, c), h)"
    and "applyState (ps pr') = applyState (ps pr)" "kv_map P (engines (ps pr')) = kv_map P (engines (ps pr))"
    "meta_map P (engines (ps pr')) RaftApplyStateKey = meta_map P (engines (ps pr)) RaftApplyStateKey"
  shows "thread_ok P L ((pr', c), h)"
  using assms apply_saved_cong [OF assms(1) _ assms(3,5)] by (simp add: thread_ok_def AppliedIndex_def)

lemma thread_ok_quiet:
  "healthy P \<Longrightarrow> thread_ok P L ((pr, c), h) \<Longrightarrow> ps pr' = ps pr \<and> gc_tasks pr' = gc_tasks pr \<Longrightarrow>
   thread_ok P L ((pr', c), h)"
  by (rule thread_ok_same) auto

lemma thread_ok_snap:
  assumes "healthy P" "thread_ok P L ((pr, c), h)" "s' = with_snap (ps pr) s'"
  shows "thread_ok P L ((pr\<lparr>ps := s'\<rparr>, c), h)"
proof -
  have "applyState s' = applyState (ps pr)" "engines s' = engines (ps pr)"
    by (subst assms(3), simp)+
  then show ?thesis by (intro thread_ok_same [OF assms(1,2)]) simp_all
qed

lemma run_gc_task_keeps:
  assumes P: "pebble_ok P" "healthy P" and g: "run_gc_task P k pr = Some pr'"
  shows "applyState (ps pr') = applyState (ps pr)" "kv_map P (engines (ps pr')) = kv_map P (engines (ps pr))"
    "meta_map P (engines (ps pr')) RaftApplyStateKey = meta_map P (engines (ps pr)) RaftApplyStateKey"
proof -
  have "ps pr' = ps pr \<or> (\<exists>es. ps pr' = snd (deleteLogEntries P es (ps pr)))"
  proof (cases "k < length (gc_tasks pr)")
    case True
    obtain start till where st: "gc_tasks pr ! k = (start, till)" by fastforce
    obtain er s where s: "gcRaftLog P start till (ps pr) = Some (er, s)" "ps pr' = s"
      using g True st by (auto simp: run_gc_task_def)
    obtain x where "(case x of Inl e \<Rightarrow> (Some e, ps pr) | Inr ents \<Rightarrow> deleteLogEntries P ents (ps pr)) = (er, s)"
      using s(1) by (auto simp: gcRaftLog_def)
    then have "s = ps pr \<or> (\<exists>es. s = snd (deleteLogEntries P es (ps pr)))" by (cases x) (auto simp: prod_eq_iff)
    then show ?thesis by (simp only: s(2))
  next
    case False
    then show ?thesis using g by (simp add: run_gc_task_def)
  qed
  moreover have "applyState (snd (deleteLogEntries P es (ps pr))) = applyState (ps pr)"
    "kv (engines (snd (deleteLogEntries P es (ps pr)))) = kv (engines (ps pr))"
    "meta_map P (engines (snd (deleteLogEntries P es (ps pr)))) RaftApplyStateKey =
       meta_map P (engines (ps pr)) RaftApplyStateKey" for es
    using meta_only_fields(1,3) [OF meta_only_deleteLogEntries [of "ps pr" P es]]
      conjunct2 [OF deleteLogEntries_map [OF P, of es "ps pr"]]
    by (simp_all add: restrict_map_def image_iff)
  ultimately show "applyState (ps pr') = applyState (ps pr)" "kv_map P (engines (ps pr')) = kv_map P (engines (ps pr))"
    "meta_map P (engines (ps pr')) RaftApplyStateKey = meta_map P (engines (ps pr)) RaftApplyStateKey"
    by auto
qed

text \<open>Starting again: the apply state and the map are the ones on disk.\<close>

lemma newPeer_keeps:
  assumes P: "pebble_ok P" "healthy P" and n: "newPeer P N start restart i e w = Some pr'"
  shows "InitRaftApplyState P e = Some (applyState (ps pr'))" "kv_map P (engines (ps pr')) = kv_map P e"
    "meta_map P (engines (ps pr')) RaftApplyStateKey = meta_map P e RaftApplyStateKey"
proof -
  obtain s t where s: "newPeerStorage P e = Some s" "truncateIndex s = Some t"
    using n by (auto simp: newPeer_def)
  then have p: "ps pr' \<in> insert s (range (\<lambda>c. snd (writeConfState P c (s\<lparr>confState := c\<rparr>))))"
    using n by (auto simp: newPeer_def Let_def)
  have f: "InitRaftApplyState P e = Some (applyState s)" "engines s = e"
    using s(1) by (auto simp: newPeerStorage_def bind_eq_Some_conv)
  from p f show "InitRaftApplyState P e = Some (applyState (ps pr'))" "kv_map P (engines (ps pr')) = kv_map P e"
    "meta_map P (engines (ps pr')) RaftApplyStateKey = meta_map P e RaftApplyStateKey"
    by (auto simp: writeState_effect [OF P])
qed

lemma thread_ok_restart:
  assumes P: "pebble_ok P" "healthy P" and ok: "thread_ok P L ((pr, c), h)"
    and n: "newPeer P N start restart i (engines (ps pr)) w = Some pr'"
  shows "thread_ok P L ((pr', Select), lost c @ h)"
proof -
  note k = newPeer_keeps [OF P n]
  have a: "applyState (ps pr') = applyState (ps pr)"
    using k(1) ok by (simp add: thread_ok_def apply_saved_def)
  from thread_ok_same [OF P(2) ok this k(2,3)] have ok': "thread_ok P L ((pr', c), h)" .
  show ?thesis
  proof (cases c)
    case (Marked ent ents)
    with ok' show ?thesis by (auto simp: thread_ok_def next_entries_Cons)
  next
    case Select
    with ok' show ?thesis by (simp add: thread_ok_def)
  qed (use ok' in \<open>auto simp: thread_ok_def dest: of_log_index\<close>)
qed

text \<open>Applying a command.\<close>

lemma process_command_effect:
  assumes P: "pebble_ok P" "healthy P" and c: "entry_command ent = Some c" and s: "apply_saved P (ps pr)"
  shows "\<exists>pr'. process_command P ent pr = Some pr' \<and> apply_saved P (ps pr') \<and>
    AppliedIndex (ps pr') = AppliedIndex (ps pr) \<and>
    kv_map P (engines (ps pr')) = apply_command c (kv_map P (engines (ps pr)))"
proof -
  obtain cmd where u: "unmarshal_RaftCmd (slice (eData ent)) = Some cmd" "cmd_command cmd = Some c"
    using c by (auto simp: entry_command_def)
  have kv: "apply_saved P ((ps pr)\<lparr>engines := snd (WriteKV P m (engines (ps pr)))\<rparr>)" for m
    by (rule apply_saved_cong [OF P(2) s]) simp_all
  show ?thesis
  proof (cases "rcRequest cmd")
    case (Some r)
    then show ?thesis
      using u P kv s
      by (auto simp: process_command_def cmd_command_def processRequest_def Let_def PutData_def DeleteData_def
          AppliedIndex_def split: if_splits)
  next
    case None
    show ?thesis
    proof (cases "rcAdminRequest cmd")
      case n: None
      then show ?thesis using u None s by (auto simp: process_command_def cmd_command_def)
    next
      case (Some a)
      obtain ts where ts: "asTruncatedState (applyState (ps pr)) = Some ts"
        using s by (auto simp: apply_saved_def)
      show ?thesis
      proof (cases "arCmdType a = AdminCmdType_CompactLog")
        case False
        then show ?thesis using u None Some s by (auto simp: process_command_def cmd_command_def processAdminRequest_def)
      next
        case True
        then obtain cl where cl: "arCompactLog a = Some cl" "c = CCompact (clCompactIndex cl) (clCompactTerm cl)"
          using u(2) None Some by (auto simp: cmd_command_def)
        show ?thesis
          using u(1) None Some s ts True cl
          by (cases "clCompactIndex cl \<ge> tsIndex ts")
            (auto simp: process_command_def processAdminRequest_def GetCompactLog_def Let_def
              writeState_effect [OF P] AppliedIndex_def intro!: apply_saved_written)
      qed
    qed
  qed
qed

lemma thread_ok_apply:
  assumes P: "pebble_ok P" "healthy P" and L: "committed_log L"
    and ok: "thread_ok P L ((pr, Marked ent ents), h)"
  shows "\<exists>pr'. process_command P ent pr = Some pr' \<and> thread_ok P L ((pr', Applying ents), Ran ent # h) \<and>
    AppliedIndex (ps pr') = AppliedIndex (ps pr)"
proof -
  have n: "hist_index h < length L" "ent = L ! hist_index h" "next_entries L (Suc (hist_index h)) ents"
    and s: "apply_saved P (ps pr)"
    using ok by (auto simp: thread_ok_def next_entries_Cons)
  obtain c where c: "entry_command ent = Some c" using committed_command [OF L n(1)] n(2) by auto
  from process_command_effect [OF P c s] show ?thesis
    using ok n c by (auto simp: thread_ok_def)
qed

lemma thread_ok_mark:
  assumes P: "pebble_ok P" "healthy P" and L: "committed_log L"
    and ok: "thread_ok P L ((pr, Applying (ent # ents)), h)"
  shows "thread_ok P L ((pr\<lparr>ps := mark_applied P ent (ps pr)\<rparr>, Marked ent ents), h)"
proof -
  have n: "hist_index h < length L" "ent = L ! hist_index h"
    and s: "asTruncatedState (applyState (ps pr)) \<noteq> None"
    using ok by (auto simp: thread_ok_def next_entries_Cons apply_saved_def)
  have "apply_saved P (mark_applied P ent (ps pr))"
    using s by (intro apply_saved_written) (simp_all add: mark_applied_effect [OF P])
  moreover have "unat (AppliedIndex (mark_applied P ent (ps pr))) = Suc (hist_index h)"
    using committed_index [OF L n(1)] n(2) by (simp add: AppliedIndex_def mark_applied_effect [OF P])
  ultimately show ?thesis using ok by (simp add: thread_ok_def mark_applied_effect [OF P])
qed

text \<open>A write of a save.\<close>

lemma thread_ok_write:
  assumes P: "pebble_ok P" "healthy P" and ok: "thread_ok P L ((pr, Saving spare rd w), h)"
    and n: "save_next P spare rd w (ps pr) = Some (s', w')"
  shows "thread_ok P L ((pr\<lparr>ps := s'\<rparr>, Saving spare rd w'), noted (Saving spare rd w) @ h)"
proof -
  have s: "apply_saved P s'"
    using save_next_saved [OF P n] ok by (simp add: thread_ok_def)
  have w': "w' \<noteq> SaveStart"
    using n by (cases "(P, spare, rd, w, ps pr)" rule: save_next.cases)
      (auto split: if_split_asm prod.split_asm option.split_asm)
  then have b: "applied_before (Saving spare rd w') k = k" for k by (cases w') simp_all
  show ?thesis
  proof (cases "installs rd w")
    case False
    note q = save_next_quiet [OF P n False]
    have e: "noted (Saving spare rd w) = []"
      "applied_before (Saving spare rd w) (hist_index h) = hist_index h"
      using False by (cases "(rd, w)" rule: installs.cases; simp add: batch_index_def)+
    then show ?thesis
      using ok s q b by (simp add: thread_ok_def AppliedIndex_def)
  next
    case True
    then consider "w = SaveStart" "\<not> IsEmptySnap (rdSnapshot rd)" | p pairs where "w = PairLoop (p # pairs)"
      by (cases "(rd, w)" rule: installs.cases) auto
    then show ?thesis
    proof cases
      case 1
      then obtain t where t: "take_snapshot P (rdSnapshot rd) (ps pr) = Some s'" using n by auto
      have "unat (smIndex (snMetadata (rdSnapshot rd))) \<le> length L"
        using ok 1 by (auto simp: thread_ok_def batch_index_def next_entries_def)
      then show ?thesis
        using ok s b 1 take_snapshot_effect [OF P t] by (simp add: thread_ok_def batch_index_def)
    next
      case 2
      then have "s' = (ps pr)\<lparr>engines := snd (WriteKV P (PutData (Key p) (Val p) True) (engines (ps pr)))\<rparr>"
        using n by simp
      then show ?thesis
        using ok s b 2 P by (simp add: thread_ok_def AppliedIndex_def PutData_def)
    qed
  qed
qed

lemma thread_ok_own:
  assumes P: "pebble_ok P" "healthy P" and L: "committed_log L"
    and ok: "thread_ok P L ((pr, c), h)" and a: "apply_step P N G (pr, c) (pr', c')"
  shows "thread_ok P L ((pr', c'), noted c @ h)"
  using a
proof cases
  case (Write spare rd w s' w')
  then show ?thesis using thread_ok_write [OF P] ok by blast
next
  case (Note spare rd)
  with ok show ?thesis by (simp add: thread_ok_def note_batch_def)
next
  case (Signal rd)
  with ok show ?thesis by (simp add: thread_ok_def send_batch_def signal_def Let_def)
next
  case (Mark ent ents)
  then show ?thesis using thread_ok_mark [OF P L] ok by simp
next
  case (Apply ent ents)
  then show ?thesis using thread_ok_apply [OF P L, of pr ent ents h] ok by auto
next
  case Finish
  with ok show ?thesis by (auto simp: thread_ok_def finish_batch_def dest: of_log_index)
qed

theorem thread_step_ok:
  assumes P: "pebble_ok P" "healthy P" and L: "committed_log L"
    and st: "thread_step P N G L t t'" and ok: "thread_ok P L t"
  shows "thread_ok P L t'"
  using st ok
proof cases
  case (Begin rd pr h spare)
  with ok show ?thesis by (simp add: thread_ok_def follows_def)
next
  case (Own pr c pr' c' h)
  then show ?thesis using ok thread_ok_own [OF P L] by blast
next
  case (Collect k pr pr' c h)
  note g = run_gc_task_keeps [OF P Collect(3)]
  show ?thesis using ok Collect thread_ok_same [OF P(2) _ g] by blast
next
  case (Restart N' start restart i pr w pr' c h)
  then show ?thesis using ok thread_ok_restart [OF P, of L pr c h N' start restart i w pr'] by simp
next
  case (Ask pr x er s' c h)
  then show ?thesis using ok thread_ok_snap [OF P(2)] Snapshot_op_with_snap by blast
next
  case (Generate n pr s' c h)
  then show ?thesis using ok thread_ok_snap [OF P(2)] SchedSnapGen_with_snap by blast
next
  case (Tick pr pr' h)
  then show ?thesis using ok thread_ok_quiet [OF P(2)] quiet_steps(1) by blast
next
  case (Messages pr c h)
  then show ?thesis using ok thread_ok_quiet [OF P(2)] quiet_steps(2) by blast
next
  case (Propose pr c h cmd)
  then show ?thesis using ok thread_ok_quiet [OF P(2)] quiet_steps(3) by blast
next
  case (Read pr now key k pr' c h)
  then show ?thesis using ok thread_ok_quiet [OF P(2)] quiet_steps(4) by blast
next
  case (Match pr clock pr' c h)
  then show ?thesis using ok thread_ok_quiet [OF P(2)] quiet_steps(5) by blast
next
  case (Serve k pr pr' c h)
  then show ?thesis using ok thread_ok_quiet [OF P(2)] quiet_steps(6) by blast
qed

theorem thread_run_ok:
  assumes "pebble_ok P" "healthy P" "committed_log L" "(thread_step P N G L)\<^sup>*\<^sup>* t t'" "thread_ok P L t"
  shows "thread_ok P L t'"
  using assms(4,5) by (induction rule: rtranclp_induct) (auto intro: thread_step_ok [OF assms(1-3)])

text \<open>A peer started on empty databases.\<close>

definition started_on ::
    "'d pebble \<Rightarrow> 'n raft_node \<Rightarrow> ('d, 'n, 'w) peer \<Rightarrow> bool" where
  "started_on P N pr \<longleftrightarrow>
     (\<exists>start restart i e w. meta_map P e = Map.empty \<and> kv_map P e = Map.empty \<and>
        newPeer P N start restart i e w = Some pr)"

lemma first_thread:
  assumes P: "pebble_ok P" "healthy P" and s: "started_on P N pr"
  shows "thread_ok P L ((pr, Select), [])"
proof -
  obtain start restart i e w where e: "meta_map P e = Map.empty" "kv_map P e = Map.empty"
    "newPeer P N start restart i e w = Some pr" using s by (auto simp: started_on_def)
  obtain s where s: "newPeerStorage P e = Some s" "engines s = e" "persisted P s"
    "refines P s NewMemoryStorage" "AppliedIndex s = 0"
    using newPeerStorage_empty [OF P(2) e(1)] by auto
  note k = newPeer_keeps [OF P e(3)]
  have a: "apply_saved P s" using s(3,4) by (auto simp: apply_saved_def persisted_def refines_def log_ok_def)
  then have f: "applyState (ps pr) = applyState s" using k(1) s(2) by (simp add: apply_saved_def)
  have "apply_saved P (ps pr)"
    by (rule apply_saved_cong [OF P(2) a f]) (simp add: k(3) s(2))
  then show ?thesis
    using k(2) e(2) s(5) f by (simp add: thread_ok_def AppliedIndex_def)
qed

section \<open>What a run keeps\<close>

text \<open>The map of a peer, at every moment of every interleaving.\<close>

lemma thread_map:
  assumes P: "pebble_ok P" "healthy P" and L: "committed_log L"
    and run: "started_on P N0 pr0" "(thread_step P N G L)\<^sup>*\<^sup>* ((pr0, Select), []) ((pr, c), h)"
  shows "thread_ok P L ((pr, c), h)" "of_log L h" "hist_index h \<le> length L"
    "unat (AppliedIndex (ps pr)) = hist_index h + in_flight c" "kv_map P (engines (ps pr)) = replay h"
    "apply_saved P (ps pr)"
proof -
  show ok: "thread_ok P L ((pr, c), h)" by (rule thread_run_ok [OF P L run(2) first_thread [OF P run(1)]])
  then show h: "of_log L h" "unat (AppliedIndex (ps pr)) = hist_index h + in_flight c"
    "kv_map P (engines (ps pr)) = replay h" "apply_saved P (ps pr)" by (simp_all add: thread_ok_def)
  from of_log_index [OF h(1)] show "hist_index h \<le> length L" .
qed

text \<open>A batch without a snapshot, saved undisturbed, leaves the history as it is.\<close>

definition past_snapshot :: "save_pc \<Rightarrow> bool" where
  "past_snapshot w \<longleftrightarrow> (case w of SaveConf \<Rightarrow> False | SavePairs \<Rightarrow> False | PairLoop pairs \<Rightarrow> False | _ \<Rightarrow> True)"

lemma past_snapshot_step:
  assumes "save_next P spare rd w s = Some (s', w')" "IsEmptySnap (rdSnapshot rd)" "past_snapshot w"
  shows "past_snapshot w'" "noted (Saving spare rd w) = []"
  using assms by (cases "(P, spare, rd, w, s)" rule: save_next.cases;
      auto simp: past_snapshot_def bind_eq_Some_conv split: if_split_asm prod.split_asm option.split_asm)+

lemma save_threads:
  assumes "(save_step P spare rd)\<^sup>*\<^sup>* (ps pr, w) (s', w')" "IsEmptySnap (rdSnapshot rd)" "past_snapshot w"
  shows "(thread_step P N G L)\<^sup>*\<^sup>* ((pr, Saving spare rd w), h) ((pr\<lparr>ps := s'\<rparr>, Saving spare rd w'), h) \<and>
    past_snapshot w'"
  using assms
proof (induction "(s', w')" arbitrary: s' w' rule: rtranclp_induct)
  case base
  then show ?case by simp
next
  case (step t)
  obtain s1 w1 where t: "t = (s1, w1)" by fastforce
  have n: "save_next P spare rd w1 (ps (pr\<lparr>ps := s1\<rparr>)) = Some (s', w')"
    using step.hyps(2) t by (simp add: save_step_def)
  note i = step.hyps(3) [OF t step.prems]
  note p = past_snapshot_step [OF n step.prems(1) conjunct2 [OF i]]
  from Own [OF Write [OF n], where h = h] p(2)
  have "thread_step P N G L ((pr\<lparr>ps := s1\<rparr>, Saving spare rd w1), h) ((pr\<lparr>ps := s'\<rparr>, Saving spare rd w'), h)" by simp
  from rtranclp.rtrancl_into_rtrancl [OF conjunct1 [OF i] this] p(1) show ?case by simp
qed

lemma batch_threads:
  assumes "handleReady_save P spare rd pr = Some pr'" "IsEmptySnap (rdSnapshot rd)"
    and "follows L rd (unat (AppliedIndex (ps pr)))"
  shows "(thread_step P N G L)\<^sup>*\<^sup>* ((pr, Select), h) ((pr', Saved rd), h)"
proof -
  obtain er s where s: "saveReadyState P spare rd (ps pr) = Some (er, s)" "pr' = note_batch rd (pr\<lparr>ps := s\<rparr>)"
    using assms(1) by (auto simp: handleReady_save_def note_batch_def)
  have "past_snapshot SaveStart" by (simp add: past_snapshot_def)
  note t = conjunct1 [OF save_threads [OF saveReadyState_steps [OF s(1)] assms(2) this, of N G L h]]
  from Own [OF Note, where h = h]
  have "thread_step P N G L ((pr\<lparr>ps := s\<rparr>, Saving spare rd SaveDone), h) ((pr', Saved rd), h)" by (simp add: s(2))
  from converse_rtranclp_into_rtranclp [OF Begin [OF assms(3)] rtranclp.rtrancl_into_rtrancl [OF t this]]
  show ?thesis .
qed

section \<open>The goroutine ends its batch\<close>

text \<open>A save that is under way keeps the invariant, and comes to count as many entries as its batch says.\<close>

lemma noted_index:
  "hist_index (noted (Saving spare rd w) @ h) = applied_before (Saving spare rd w) (hist_index h)"
  by (cases "(rd, w)" rule: installs.cases) (simp_all add: batch_index_def)

lemma saving_ok:
  assumes "pebble_ok P" "healthy P" "(save_step P spare rd)\<^sup>*\<^sup>* (ps pr, w) (s', w')"
    and "thread_ok P L ((pr, Saving spare rd w), h)"
  shows "\<exists>h'. thread_ok P L ((pr\<lparr>ps := s'\<rparr>, Saving spare rd w'), h') \<and>
    applied_before (Saving spare rd w') (hist_index h') = applied_before (Saving spare rd w) (hist_index h)"
  using assms(3)
proof (induction "(s', w')" arbitrary: s' w' rule: rtranclp_induct)
  case base
  then show ?case using assms(4) by auto
next
  case (step t)
  obtain s1 w1 where t: "t = (s1, w1)" by fastforce
  obtain h1 where h1: "thread_ok P L ((pr\<lparr>ps := s1\<rparr>, Saving spare rd w1), h1)"
    "applied_before (Saving spare rd w1) (hist_index h1) = applied_before (Saving spare rd w) (hist_index h)"
    using step.hyps(3) [OF t] by blast
  have n: "save_next P spare rd w1 (ps (pr\<lparr>ps := s1\<rparr>)) = Some (s', w')"
    using step.hyps(2) t by (simp add: save_step_def)
  have "w' \<noteq> SaveStart"
    using n by (cases "(P, spare, rd, w1, s1)" rule: save_next.cases)
      (auto split: if_split_asm prod.split_asm option.split_asm)
  then have "applied_before (Saving spare rd w') k = k" for k by (cases w') simp_all
  then show ?case using thread_ok_write [OF assms(1,2) h1(1) n] h1(2) noted_index [of spare rd w1 h1] by auto
qed

text \<open>Behind it the number of steps is known.\<close>

fun saving :: "pc \<Rightarrow> bool" where
  "saving (Saving spare rd w) = True"
| "saving c = False"

fun remaining :: "pc \<Rightarrow> nat" where
  "remaining (Saved rd) = 2 * length (rdCommittedEntries rd) + 2"
| "remaining (Applying ents) = 2 * length ents + 1"
| "remaining (Marked ent ents) = 2 * length ents + 2"
| "remaining c = 0"

lemma apply_step_remaining:
  "apply_step P N G (pr, c) (pr', c') \<Longrightarrow> \<not> saving c \<Longrightarrow> remaining c = Suc (remaining c') \<and> \<not> saving c'"
  by (auto elim: apply_step.cases)

lemma apply_steps_bound:
  "(apply_step P N G ^^ k) (pr, c) (pr', c') \<Longrightarrow> \<not> saving c \<Longrightarrow> remaining c = remaining c' + k \<and> \<not> saving c'"
proof (induction k arbitrary: pr' c')
  case (Suc k)
  then obtain pr1 c1 where "(apply_step P N G ^^ k) (pr, c) (pr1, c1)" "apply_step P N G (pr1, c1) (pr', c')"
    by (auto elim: relpowp_Suc_E)
  then show ?case using Suc.IH Suc.prems(2) apply_step_remaining by fastforce
qed simp

text \<open>It never panics: from every state past the signal it comes to its \<^verbatim>\<open>select\<close> again.\<close>

lemma apply_steps_end:
  assumes P: "pebble_ok P" "healthy P" and L: "committed_log L"
  shows "thread_ok P L ((pr, Applying ents), h) \<Longrightarrow>
    \<exists>pr'. (apply_step P N G ^^ remaining (Applying ents)) (pr, Applying ents) (pr', Select) \<and>
      unat (AppliedIndex (ps pr')) = unat (AppliedIndex (ps pr)) + length ents \<and>
      read_tasks pr' = read_tasks pr \<and> callbacks pr' = callbacks pr"
proof (induction ents arbitrary: pr h)
  case Nil
  have "apply_step P N G (pr, Applying []) (finish_batch N pr, Select)" by (rule Finish)
  then show ?case
    by (intro exI [of _ "finish_batch N pr"]) (simp add: eq_OO finish_batch_def)
next
  case (Cons ent ents)
  let ?pr = "pr\<lparr>ps := mark_applied P ent (ps pr)\<rparr>"
  note m = thread_ok_mark [OF P L Cons.prems]
  obtain pr1 where a: "process_command P ent ?pr = Some pr1"
    "thread_ok P L ((pr1, Applying ents), Ran ent # h)" "AppliedIndex (ps pr1) = AppliedIndex (ps ?pr)"
    using thread_ok_apply [OF P L m] by blast
  have n: "unat (AppliedIndex (ps ?pr)) = Suc (unat (AppliedIndex (ps pr)))"
    using m Cons.prems by (simp add: thread_ok_def)
  have f: "read_tasks pr1 = read_tasks pr" "callbacks pr1 = callbacks pr"
    using process_command_reads [OF a(1)] by (simp_all add: reads_kept_def)
  obtain pr' where r: "(apply_step P N G ^^ remaining (Applying ents)) (pr1, Applying ents) (pr', Select)"
    "unat (AppliedIndex (ps pr')) = unat (AppliedIndex (ps pr1)) + length ents"
    "read_tasks pr' = read_tasks pr1" "callbacks pr' = callbacks pr1"
    using Cons.IH [OF a(2)] by blast
  have "(apply_step P N G ^^ Suc (remaining (Applying ents))) (?pr, Marked ent ents) (pr', Select)"
    by (rule relpowp_Suc_I2 [OF Apply [OF a(1)] r(1)])
  from relpowp_Suc_I2 [OF Mark this]
  have "(apply_step P N G ^^ remaining (Applying (ent # ents))) (pr, Applying (ent # ents)) (pr', Select)"
    by simp
  then show ?case using r(2-4) a(3) n f by auto
qed

lemma thread_steps_end:
  assumes P: "pebble_ok P" "healthy P" and L: "committed_log L"
    and ok: "thread_ok P L ((pr, c), h)" and c: "\<not> saving c" "\<And>rd. c = Saved rd \<Longrightarrow> can_signal rd pr"
  shows "\<exists>pr'. (apply_step P N G ^^ remaining c) (pr, c) (pr', Select) \<and>
    unat (AppliedIndex (ps pr')) = hist_index h + length (to_apply c) \<and>
    read_tasks pr' = read_tasks pr \<and> callbacks pr' = callbacks pr"
proof (cases c)
  case Select
  then show ?thesis using ok by (intro exI [of _ pr]) (simp add: thread_ok_def)
next
  case (Saving spare rd w)
  then show ?thesis using c(1) by simp
next
  case (Saved rd)
  let ?pr = "send_batch G rd pr"
  have f: "ps ?pr = ps pr" "read_tasks ?pr = read_tasks pr" "callbacks ?pr = callbacks pr"
    by (simp_all add: send_batch_def Let_def signal_def)
  have "thread_ok P L ((?pr, Applying (rdCommittedEntries rd)), h)"
    using ok Saved f by (simp add: thread_ok_def)
  from apply_steps_end [OF P L this, of N G] obtain pr' where
    "(apply_step P N G ^^ remaining (Applying (rdCommittedEntries rd))) (?pr, Applying (rdCommittedEntries rd)) (pr', Select)"
    "unat (AppliedIndex (ps pr')) = hist_index h + length (rdCommittedEntries rd)"
    "read_tasks pr' = read_tasks pr" "callbacks pr' = callbacks pr" using f ok Saved by (auto simp: thread_ok_def)
  with relpowp_Suc_I2 [where P = "apply_step P N G", OF apply_step.Signal [OF c(2) [OF Saved], of P N G]] Saved show ?thesis by fastforce
next
  case (Applying ents)
  then have "thread_ok P L ((pr, Applying ents), h)" using ok by simp
  from apply_steps_end [OF P L this, of N G] show ?thesis using Applying ok by (auto simp: thread_ok_def)
next
  case (Marked ent ents)
  obtain pr1 where a: "process_command P ent pr = Some pr1"
    "thread_ok P L ((pr1, Applying ents), Ran ent # h)" "AppliedIndex (ps pr1) = AppliedIndex (ps pr)"
    using thread_ok_apply [OF P L, of pr ent ents h] ok Marked by blast
  have f: "read_tasks pr1 = read_tasks pr" "callbacks pr1 = callbacks pr"
    using process_command_reads [OF a(1)] by (simp_all add: reads_kept_def)
  have n: "unat (AppliedIndex (ps pr)) = Suc (hist_index h)" using ok Marked by (simp add: thread_ok_def)
  from apply_steps_end [OF P L a(2), of N G] obtain pr' where
    "(apply_step P N G ^^ remaining (Applying ents)) (pr1, Applying ents) (pr', Select)"
    "unat (AppliedIndex (ps pr')) = hist_index h + Suc (length ents)"
    "read_tasks pr' = read_tasks pr" "callbacks pr' = callbacks pr" using f n a(3) by auto
  with relpowp_Suc_I2 [where P = "apply_step P N G", OF apply_step.Apply [OF a(1), of N G ents]] Marked show ?thesis by fastforce
qed

text \<open>The save before it included.\<close>

lemma saving_threads_end:
  assumes P: "pebble_ok P" "healthy P" and L: "committed_log L"
    and ok: "thread_ok P L ((pr, Saving spare rd w), h)" and v: "savable spare rd (ps pr)" "can_signal rd pr"
  shows "\<exists>pr'. (apply_step P N G)\<^sup>*\<^sup>* (pr, Saving spare rd w) (pr', Select) \<and>
    unat (AppliedIndex (ps pr')) =
      applied_before (Saving spare rd w) (hist_index h) + length (rdCommittedEntries rd) \<and>
    read_tasks pr' = read_tasks pr \<and> callbacks pr' = callbacks pr"
proof -
  obtain s' where s: "(save_step P spare rd)\<^sup>*\<^sup>* (ps pr, w) (s', SaveDone)"
    using save_ends [OF v(1)] by (auto simp: ends_def)
  let ?pr = "note_batch rd (pr\<lparr>ps := s'\<rparr>)"
  have f: "ps ?pr = s'" "read_tasks ?pr = read_tasks pr" "callbacks ?pr = callbacks pr" "can_signal rd ?pr"
    using v(2) by (simp_all add: note_batch_def can_signal_def)
  have r: "(apply_step P N G)\<^sup>*\<^sup>* (pr, Saving spare rd w) (?pr, Saved rd)"
    by (rule rtranclp.rtrancl_into_rtrancl [OF save_steps_run [OF s] Note])
  obtain h' where h: "thread_ok P L ((pr\<lparr>ps := s'\<rparr>, Saving spare rd SaveDone), h')"
    "hist_index h' = applied_before (Saving spare rd w) (hist_index h)"
    using saving_ok [OF P s ok] by auto
  then have "thread_ok P L ((?pr, Saved rd), h')" by (simp add: thread_ok_def note_batch_def)
  from thread_steps_end [OF P L this, of N G] obtain pr' where
    e: "(apply_step P N G ^^ remaining (Saved rd)) (?pr, Saved rd) (pr', Select)"
    "unat (AppliedIndex (ps pr')) = hist_index h' + length (rdCommittedEntries rd)"
    "read_tasks pr' = read_tasks pr" "callbacks pr' = callbacks pr" using f by auto
  from rtranclp_trans [OF r relpowp_imp_rtranclp [OF e(1)]] e(2-4) h(2) show ?thesis by auto
qed

end
