(* ===== verification/Read_Loop.thy ===== *)
theory Read_Loop
  imports Interleaving
begin

text \<open>
  The read loop of a peer (\<^verbatim>\<open>handleReadState\<close> of \<^verbatim>\<open>raftstore/peer.go\<close>) in steps, beside the other
  goroutines. \<open>Read_Path\<close> has the loop's turn as one function; here each receive from and each send
  to the queue of reads is a step of its own, which waits while the queue is empty or full. Alone the
  steps give the function; beside the clients of the queue they can wait for ever, because the loop
  puts a read back into the queue that only the loop itself empties.
\<close>

section \<open>The loop\<close>

text \<open>
  At the signal; at the head of the inner loop, with the reads still to look at and the last one
  taken; at the send that puts a read back; after the inner loop.
\<close>

datatype read_pc = Waiting | Looking nat "read option" | Requeue nat read | Taken "read option"

definition readc_capacity :: nat where
  "readc_capacity = 1024"

inductive loop_step :: "('d, 'n, 'w) peer \<times> read_pc \<Rightarrow> ('d, 'n, 'w) peer \<times> read_pc \<Rightarrow> bool" where
  Wake: "can_handleReadState pr \<Longrightarrow>
    loop_step (pr, Waiting) (pr\<lparr>readStateComing := readStateComing pr - 1\<rparr>, Looking (length (readc pr)) None)"
| Found: "readc pr = x # q \<Longrightarrow> readStateTable pr (ctx x) \<noteq> None \<Longrightarrow>
    loop_step (pr, Looking (Suc n) r) (pr\<lparr>readc := q\<rparr>, Taken (Some x))"
| Keep: "readc pr = x # q \<Longrightarrow> readStateTable pr (ctx x) = None \<Longrightarrow> still_fresh (\<lambda>_. now) n x = Some True \<Longrightarrow>
    loop_step (pr, Looking (Suc n) r) (pr\<lparr>readc := q\<rparr>, Requeue n x)"
| Drop: "readc pr = x # q \<Longrightarrow> readStateTable pr (ctx x) = None \<Longrightarrow> still_fresh (\<lambda>_. now) n x = Some False \<Longrightarrow>
    loop_step (pr, Looking (Suc n) r) (pr\<lparr>readc := q\<rparr>, Looking n (Some x))"
| Put: "length (readc pr) < readc_capacity \<Longrightarrow>
    loop_step (pr, Requeue n x) (pr\<lparr>readc := readc pr @ [x]\<rparr>, Looking n (Some x))"
| End: "loop_step (pr, Looking 0 r) (pr, Taken r)"
| Start: "loop_step (pr, Taken (Some x))
    (pr\<lparr>readStateTable := (readStateTable pr)(ctx x := None),
        read_tasks := read_tasks pr @
          [(case readStateTable pr (ctx x) of None \<Rightarrow> zero_ReadState | Some st \<Rightarrow> st, x)]\<rparr>, Waiting)"

text \<open>The inner loop, undisturbed: \<open>drain\<close>.\<close>

lemma still_fresh_now: "still_fresh (\<lambda>_. clock n) k x = still_fresh clock n x"
  by (simp add: still_fresh_def)

lemma drain_steps:
  "drain clock (readStateTable pr) n (readc pr) r = Some (r', q') \<Longrightarrow> n \<le> length (readc pr) \<Longrightarrow>
   length (readc pr) \<le> readc_capacity \<Longrightarrow>
   loop_step\<^sup>*\<^sup>* (pr, Looking n r) (pr\<lparr>readc := q'\<rparr>, Taken r')"
proof (induction n arbitrary: pr r)
  case 0
  then have e: "pr = pr\<lparr>readc := q'\<rparr>" "r' = r" by simp_all
  have "loop_step (pr, Looking 0 r) (pr, Taken r)" by (rule End)
  then show ?case using e by (metis r_into_rtranclp)
next
  case (Suc n)
  then obtain x q where q: "readc pr = x # q" by (cases "readc pr") auto
  show ?case
  proof (cases "readStateTable pr (ctx x)")
    case (Some st)
    then have "r' = Some x" "q' = q" using Suc.prems(1) q by simp_all
    then show ?thesis using Found [OF q, of n r] Some by (simp add: r_into_rtranclp)
  next
    case None
    then obtain fr where fr: "still_fresh clock (Suc n) x = Some fr"
      and d: "drain clock (readStateTable pr) n (if fr then q @ [x] else q) (Some x) = Some (r', q')"
      using Suc.prems(1) q by (auto simp: bind_eq_Some_conv)
    note fr' = fr [folded still_fresh_now [of clock "Suc n" n]]
    show ?thesis
    proof (cases fr)
      case True
      let ?pr = "pr\<lparr>readc := q @ [x]\<rparr>"
      have "loop_step (pr, Looking (Suc n) r) (pr\<lparr>readc := q\<rparr>, Requeue n x)"
        using Keep [OF q None, of "clock (Suc n)" n r] fr' True by simp
      moreover have "loop_step (pr\<lparr>readc := q\<rparr>, Requeue n x) (?pr, Looking n (Some x))"
        using Put [of "pr\<lparr>readc := q\<rparr>" n x] Suc.prems(3) q by simp
      moreover have "loop_step\<^sup>*\<^sup>* (?pr, Looking n (Some x)) (?pr\<lparr>readc := q'\<rparr>, Taken r')"
        using d True Suc.prems(2,3) q by (intro Suc.IH) simp_all
      ultimately show ?thesis by (simp add: converse_rtranclp_into_rtranclp)
    next
      case False
      let ?pr = "pr\<lparr>readc := q\<rparr>"
      have "loop_step (pr, Looking (Suc n) r) (?pr, Looking n (Some x))"
        using Drop [OF q None, of "clock (Suc n)" n r] fr' False by simp
      moreover have "loop_step\<^sup>*\<^sup>* (?pr, Looking n (Some x)) (?pr\<lparr>readc := q'\<rparr>, Taken r')"
        using d False Suc.prems(2,3) q by (intro Suc.IH) simp_all
      ultimately show ?thesis by (simp add: converse_rtranclp_into_rtranclp)
    qed
  qed
qed

text \<open>A whole turn, undisturbed: \<open>handleReadState\<close>.\<close>

lemma handleReadState_steps:
  assumes c: "can_handleReadState pr" "length (readc pr) \<le> readc_capacity"
    and h: "handleReadState clock pr = Some pr'"
  shows "loop_step\<^sup>*\<^sup>* (pr, Waiting) (pr', Waiting)"
proof -
  let ?pr = "pr\<lparr>readStateComing := readStateComing pr - 1\<rparr>"
  obtain x q where d: "drain clock (readStateTable pr) (length (readc pr)) (readc pr) None = Some (Some x, q)"
    using h by (auto simp: handleReadState_def bind_eq_Some_conv split: option.split_asm)
  have "loop_step\<^sup>*\<^sup>* (?pr, Looking (length (readc pr)) None) (?pr\<lparr>readc := q\<rparr>, Taken (Some x))"
    using d c(2) drain_steps [of clock ?pr "length (readc pr)" None "Some x" q] by simp
  from rtranclp.rtrancl_into_rtrancl [OF converse_rtranclp_into_rtranclp [OF Wake [OF c(1)] this] Start] d h
  show ?thesis by (simp add: handleReadState_def)
qed

section \<open>Beside the other goroutines\<close>

text \<open>Every goroutine of a running peer but for a restart: the read loop, the goroutine of
  \<^verbatim>\<open>onTick\<close>, the message loop, collectors, clients and the reads that are served.\<close>

inductive system_step ::
    "'d pebble \<Rightarrow> 'n raft_node \<Rightarrow> 'w grpc \<Rightarrow> ('d, 'n, 'w) peer \<times> pc \<times> read_pc \<Rightarrow>
     ('d, 'n, 'w) peer \<times> pc \<times> read_pc \<Rightarrow> bool"
  for P N G where
  Loop: "loop_step (pr, l) (pr', l') \<Longrightarrow> system_step P N G (pr, c, l) (pr', c, l')"
| Client: "can_linearizableRead pr \<Longrightarrow> linearizableRead N now key pr = Some (k, pr') \<Longrightarrow>
    system_step P N G (pr, c, l) (pr', c, l)"
| Own: "apply_step P N G (pr, c) (pr', c') \<Longrightarrow> system_step P N G (pr, c, l) (pr', c', l)"
| Begin: "system_step P N G (pr, Select, l) (pr, Saving spare rd SaveStart, l)"
| Tick: "tick P N pr = Some pr' \<Longrightarrow> system_step P N G (pr, Select, l) (pr', Select, l)"
| Messages: "system_step P N G (pr, c, l) (handleRaftMsgs N pr, c, l)"
| Collect: "run_gc_task P k pr = Some pr' \<Longrightarrow> system_step P N G (pr, c, l) (pr', c, l)"
| Propose: "system_step P N G (pr, c, l) (snd (propose N cmd pr), c, l)"
| Serve: "can_readApplied k pr \<Longrightarrow> readApplied P k pr = Some pr' \<Longrightarrow> system_step P N G (pr, c, l) (pr', c, l)"

text \<open>The loop waits to put a read back and the queue is full.\<close>

definition wedged :: "('d, 'n, 'w) peer \<times> pc \<times> read_pc \<Rightarrow> bool" where
  "wedged t \<longleftrightarrow>
     (case t of (pr, c, l) \<Rightarrow>
       (case l of Requeue n x \<Rightarrow> readc_capacity \<le> length (readc pr) | _ \<Rightarrow> False))"

text \<open>What the other goroutines leave alone.\<close>

definition queue_kept :: "('d, 'n, 'w) peer \<Rightarrow> ('d, 'n, 'w) peer \<Rightarrow> bool" where
  "queue_kept pr pr' \<longleftrightarrow> readc pr' = readc pr \<and> readStateComing pr \<le> readStateComing pr'"

lemma propose_queue: "queue_kept pr (snd (propose N cmd pr))"
  by (simp add: propose_def queue_kept_def split: prod.split)

lemma onLogGCTask_queue: "onLogGCTask P N pr = Some pr' \<Longrightarrow> queue_kept pr pr'"
  using propose_queue [of pr N]
  by (auto simp: onLogGCTask_def Let_def queue_kept_def bind_eq_Some_conv split: if_split_asm sum.split_asm)
    (metis sum.exhaust)+

lemma tick_queue: "tick P N pr = Some pr' \<Longrightarrow> queue_kept pr pr'"
  by (auto simp: tick_def tickLogGC_def Let_def queue_kept_def split: if_split_asm dest: onLogGCTask_queue)

lemma apply_step_queue: "apply_step P N G (pr, c) (pr', c') \<Longrightarrow> queue_kept pr pr'"
  by (erule apply_step.cases)
    (auto simp: queue_kept_def note_batch_def send_batch_def Let_def signal_def finish_batch_def reads_kept_def
      dest: process_command_reads)

lemma collect_queue: "run_gc_task P k pr = Some pr' \<Longrightarrow> queue_kept pr pr'"
  by (auto simp: run_gc_task_def queue_kept_def split: if_split_asm prod.split_asm)

lemma serve_queue: "readApplied P k pr = Some pr' \<Longrightarrow> queue_kept pr pr'"
  by (cases "read_tasks pr ! k") (auto simp: readApplied_def queue_kept_def bind_eq_Some_conv)

lemmas queue_frames = propose_queue tick_queue apply_step_queue collect_queue serve_queue

section \<open>The loop can wait for ever\<close>

lemma wedged_step:
  assumes "system_step P N G (pr, c, l) (pr', c', l')" "wedged (pr, c, l)"
  shows "wedged (pr', c', l') \<and> l' = l \<and> queue_kept pr pr'"
proof -
  obtain n x where l: "l = Requeue n x" "readc_capacity \<le> length (readc pr)"
    using assms(2) by (auto simp: wedged_def split: read_pc.split_asm)
  have "l' = l \<and> queue_kept pr pr'"
    using assms(1)
  proof cases
    case Loop
    then show ?thesis using l by (auto elim: loop_step.cases)
  next
    case (Client now key k)
    then show ?thesis using l by (simp add: can_linearizableRead_def readc_capacity_def)
  qed (auto simp: handleRaftMsgs_def queue_frames, auto simp: queue_kept_def)
  then show ?thesis using l by (simp add: wedged_def queue_kept_def)
qed

text \<open>No goroutine but the loop empties the queue, and the loop waits to fill it.\<close>

lemma wedged_run:
  assumes "(system_step P N G)\<^sup>*\<^sup>* (pr, c, l) (pr', c', l')" "wedged (pr, c, l)"
  shows "wedged (pr', c', l') \<and> l' = l \<and> queue_kept pr pr'"
  using assms
proof (induction "(pr', c', l')" arbitrary: pr' c' l' rule: rtranclp_induct)
  case base
  then show ?case by (simp add: queue_kept_def)
next
  case (step t)
  obtain pr1 c1 l1 where t: "t = (pr1, c1, l1)" by (metis prod_cases3)
  have i: "wedged (pr1, c1, l1) \<and> l1 = l \<and> queue_kept pr pr1" using step(3) [OF t step(4)] .
  from wedged_step [OF step(2) [unfolded t] conjunct1 [OF i]] i show ?case
    by (auto simp: queue_kept_def)
qed

text \<open>Then the signal channel stays full once it is, and the next batch that answers a read stops
  the goroutine of \<^verbatim>\<open>onTick\<close> too: no batch is handled any more.\<close>

lemma blocked_step:
  assumes "system_step P N G (pr, Saved rd, l) (pr', c', l')" "wedged (pr, Saved rd, l)"
    "rdReadStates rd \<noteq> []" "0 < readStateComing pr"
  shows "c' = Saved rd \<and> 0 < readStateComing pr'"
proof -
  have "queue_kept pr pr'" using wedged_step [OF assms(1,2)] by simp
  then have "0 < readStateComing pr'" using assms(4) by (simp add: queue_kept_def)
  moreover have "c' = Saved rd" using assms(1)
    by cases (use assms(3,4) in \<open>auto elim!: apply_step.cases simp: can_signal_def\<close>)
  ultimately show ?thesis by simp
qed

lemma blocked_run:
  assumes "(system_step P N G)\<^sup>*\<^sup>* (pr, Saved rd, l) (pr', c', l')" "wedged (pr, Saved rd, l)"
    "rdReadStates rd \<noteq> []" "0 < readStateComing pr"
  shows "c' = Saved rd \<and> 0 < readStateComing pr'"
  using assms
proof (induction "(pr', c', l')" arbitrary: pr' c' l' rule: rtranclp_induct)
  case base
  then show ?case by simp
next
  case (step t)
  obtain pr1 c1 l1 where t: "t = (pr1, c1, l1)" by (metis prod_cases3)
  have i: "c1 = Saved rd \<and> 0 < readStateComing pr1" using step(3) [OF t step(4-6)] .
  have "wedged (pr1, c1, l1)" by (rule conjunct1 [OF wedged_run [OF step(1) [unfolded t] step(4)]])
  then show ?case using blocked_step [of P N G pr1 rd l1] step(2,5) i t by simp
qed

text \<open>How it comes about: the queue is full, a signal comes, the loop takes a read that has no
  answer yet, and a client takes the free place before the loop puts the read back.\<close>

lemma wedging_run:
  assumes q: "length (readc pr) = readc_capacity" "can_handleReadState pr"
    and x: "readStateTable pr (ctx (hd (readc pr))) = None"
      "still_fresh (\<lambda>_. now) 0 (hd (readc pr)) = Some True"
    and n: "\<And>ct n. fst (nd_readIndex N ct n) = None"
  shows "\<exists>pr'. (system_step P N G)\<^sup>*\<^sup>* (pr, c, Waiting) (pr', c, Requeue (readc_capacity - 1) (hd (readc pr))) \<and>
    wedged (pr', c, Requeue (readc_capacity - 1) (hd (readc pr))) \<and>
    readStateComing pr' = readStateComing pr - 1"
proof -
  obtain y ys where r: "readc pr = y # ys" using q(1) by (cases "readc pr") (simp_all add: readc_capacity_def)
  let ?p1 = "pr\<lparr>readStateComing := readStateComing pr - 1\<rparr>"
  let ?p2 = "?p1\<lparr>readc := ys\<rparr>"
  have "system_step P N G (pr, c, Waiting) (?p1, c, Looking (length (readc pr)) None)"
    by (intro Loop Wake q(2))
  moreover have k: "length (readc pr) = Suc (readc_capacity - 1)" by (simp add: q(1) readc_capacity_def)
  have "loop_step (?p1, Looking (Suc (readc_capacity - 1)) None) (?p2, Requeue (readc_capacity - 1) y)"
    by (rule Keep [of _ _ _ now]) (use x r in \<open>simp_all add: still_fresh_def\<close>)
  then have "system_step P N G (?p1, c, Looking (length (readc pr)) None) (?p2, c, Requeue (readc_capacity - 1) y)"
    unfolding k by (rule Loop)
  moreover have c: "can_linearizableRead ?p2"
    using q(1) r by (simp add: can_linearizableRead_def readc_capacity_def)
  obtain j pr' where p: "linearizableRead N now [] ?p2 = Some (j, pr')"
    "length (readc pr') = readc_capacity" "readStateComing pr' = readStateComing pr - 1"
    using n [of "buildReadCtx now []" "raftGroup pr"] q(1) r
    by (cases "nd_readIndex N (buildReadCtx now []) (raftGroup pr)")
      (simp add: linearizableRead_def Let_def)
  have "system_step P N G (?p2, c, Requeue (readc_capacity - 1) y) (pr', c, Requeue (readc_capacity - 1) y)"
    by (rule Client [OF c p(1)])
  ultimately have "(system_step P N G)\<^sup>*\<^sup>* (pr, c, Waiting) (pr', c, Requeue (readc_capacity - 1) y)"
    by (blast intro: converse_rtranclp_into_rtranclp)
  then show ?thesis using p r by (auto simp: wedged_def)
qed

end
