(* ===== verification/Replica_Theorems.thy ===== *)
theory Replica_Theorems
  imports Read_Loop Examples
begin

text \<open>
  The properties of interleaved peers: what is in the map of a replica at every moment of every
  interleaving of its goroutines, what a linearizable read can see, that a batch ends, and that the
  read loop can stop for good.
\<close>

section \<open>An interleaved run\<close>

text \<open>A batch that commits the first entry and answers a read with its index.\<close>

definition ex_log :: "Entry list" where
  "ex_log = [ex_put [1] [2] 1]"

definition ex_answer :: ReadState where
  "ex_answer = \<lparr>rsIndex = 1, rsRequestCtx = buildReadCtx 0 [1]\<rparr>"

definition ex_ready_read :: Ready where
  "ex_ready_read = ex_ready\<lparr>rdReadStates := [ex_answer]\<rparr>"

lemma ex_log_committed: "committed_log ex_log" "commands_of ex_log = [CPut [1] [2]]"
  using ex_put_command [of "[1]" "[2]" 1]
  by (simp_all add: committed_log_def ex_log_def commands_of_def) (simp add: ex_put_def)

lemma ex_log_maps: "committed_map ex_log (Suc 0) = [[1] \<mapsto> [2]]"
  using ex_log_committed(2) by (simp add: committed_map_def commands_of_def ex_log_def)

lemma ex_ready_read_fields:
  "rdCommittedEntries ex_ready_read = ex_log" "rdReadStates ex_ready_read = [ex_answer]"
  "IsEmptySnap (rdSnapshot ex_ready_read)" "rdMessages ex_ready_read = []"
  by (simp_all add: ex_ready_read_def ex_ready_def ex_log_def IsEmptySnap_def zero_Snapshot_def)

lemma ex_ready_read_same:
  "rdHardState ex_ready_read = rdHardState ex_ready" "rdEntries ex_ready_read = rdEntries ex_ready"
  "rdSnapshot ex_ready_read = rdSnapshot ex_ready" "rdCommittedEntries ex_ready = ex_log"
  by (simp_all add: ex_ready_read_def) (simp add: ex_ready_def ex_log_def)

lemma ex_ready_read_ok:
  assumes "LastIndex s = 0" "AppliedIndex s = 0"
  shows "follows ex_log ex_ready_read (unat (AppliedIndex s))"
    "batch_ok [] ex_ready_read (commands_of (rdCommittedEntries ex_ready_read)) s NewMemoryStorage"
    "ms_save ex_ready_read NewMemoryStorage = ms_save ex_ready NewMemoryStorage"
proof -
  show "follows ex_log ex_ready_read (unat (AppliedIndex s))"
    by (simp add: follows_def batch_index_def ex_ready_read_fields assms next_entries_def)
  show m: "ms_save ex_ready_read NewMemoryStorage = ms_save ex_ready NewMemoryStorage"
    by (simp only: ms_save_def ex_ready_read_same)
  from ex_ready_ok [OF assms(1)]
  show "batch_ok [] ex_ready_read (commands_of (rdCommittedEntries ex_ready_read)) s NewMemoryStorage"
    by (simp add: batch_ok_def ready_ok_def m ex_ready_read_fields ex_ready_read_same ex_log_committed)
qed

abbreviation ex_thread_step ::
    "((bytes \<times> bytes) list, unit, unit) threads \<Rightarrow> ((bytes \<times> bytes) list, unit, unit) threads \<Rightarrow> bool"
  where "ex_thread_step \<equiv> thread_step mem_pebble ex_node ex_grpc ex_log"

text \<open>The fields of a peer that has just started.\<close>

lemma ex_started_fields:
  assumes "ex_started ex_engines = Some pr"
  shows "readc pr = []" "callbacks pr = []" "read_tasks pr = []" "readStateComing pr = 0"
    "readStateTable pr = Map.empty" "started_on mem_pebble ex_node pr" "AppliedIndex (ps pr) = 0"
proof -
  show "readc pr = []" "callbacks pr = []" "read_tasks pr = []" "readStateComing pr = 0"
    "readStateTable pr = Map.empty"
    using assms by (auto simp: newPeer_def Let_def bind_eq_Some_conv)
  show "started_on mem_pebble ex_node pr"
    using assms ex_meta_empty ex_fresh_map unfolding started_on_def ex_storage_def by fastforce
  have "applyState (ps pr) = applyState ex_storage"
    using assms by (auto simp: newPeer_def Let_def bind_eq_Some_conv ex_storage_new)
  then show "AppliedIndex (ps pr) = 0" using ex_storage_fields(2) by (simp add: AppliedIndex_def)
qed

text \<open>
  A client reads key 1 while its put is being committed: the read is registered, the batch is saved
  and signalled, the read loop starts the read, and the goroutine of \<^verbatim>\<open>onTick\<close> writes the applied
  index of the put. Nothing has happened to the map yet.
\<close>

lemma ex_overtaking_run:
  "\<exists>pr0 pr. ex_started ex_engines = Some pr0 \<and>
     ex_thread_step\<^sup>*\<^sup>* ((pr0, Select), []) ((pr, Marked (ex_put [1] [2] 1) []), []) \<and>
     read_tasks pr = [(ex_answer, ex_read 0 [1])] \<and> callbacks pr = [NewCallback]"
proof -
  obtain pr0 where s: "ex_started ex_engines = Some pr0" "peer_ok mem_pebble pr0 NewMemoryStorage"
    "LastIndex (ps pr0) = 0" using ex_start by blast
  note f = ex_started_fields [OF s(1)]
  let ?pr1 = "pr0\<lparr>callbacks := [NewCallback], readc := [ex_read 0 [1]]\<rparr>"
  have 1: "ex_thread_step ((pr0, Select), []) ((?pr1, Select), [])"
    by (rule thread_step.Read [of _ _ 0 "[1]" 0])
      (simp_all add: can_linearizableRead_def linearizableRead_def f ex_node_def ex_read_def)
  obtain s2 where sv: "saveReadyState mem_pebble [] ex_ready_read (ps pr0) = Some (None, s2)"
    using saveReadyState_refines [OF mem_pebble_ok mem_pebble_healthy, of "ps pr0" NewMemoryStorage "[]" ex_ready_read]
      s(2) ex_ready_read_ok(2) [OF s(3) f(7)]
    by (auto simp: peer_ok_def batch_ok_def ready_to_batch)
  let ?pr2 = "?pr1\<lparr>ps := s2, readStateTable := [buildReadCtx 0 [1] \<mapsto> ex_answer], committing := Some ex_ready_read\<rparr>"
  have 2: "ex_thread_step\<^sup>*\<^sup>* ((?pr1, Select), []) ((?pr2, Saved ex_ready_read), [])"
    by (rule batch_threads [of _ "[]"])
      (use ex_ready_read_ok(1) [OF s(3) f(7)] sv f(5) in
        \<open>simp_all add: handleReady_save_def ex_ready_read_fields ex_answer_def\<close>)
  let ?pr3 = "?pr2\<lparr>readStateComing := 1\<rparr>"
  have sd: "send_batch ex_grpc ex_ready_read ?pr2 = ?pr3"
    by (simp add: send_batch_def signal_def ex_ready_read_fields f)
  have n: "ex_thread_step ((pr, c), []) ((pr', c'), [])"
    if "apply_step mem_pebble ex_node ex_grpc (pr, c) (pr', c')" "noted c = []" for pr c pr' c'
    using thread_step.Own [OF that(1), where L = ex_log and h = "[]"] that(2) by simp
  have 3: "ex_thread_step ((?pr2, Saved ex_ready_read), []) ((?pr3, Applying ex_log), [])"
    by (rule n, subst sd [symmetric], subst ex_ready_read_fields(1) [symmetric], rule apply_step.Signal)
      (simp_all add: can_signal_def f)
  let ?pr4 = "?pr3\<lparr>readStateComing := 0, readc := [], readStateTable := Map.empty,
    read_tasks := [(ex_answer, ex_read 0 [1])]\<rparr>"
  have 4: "ex_thread_step ((?pr3, Applying ex_log), []) ((?pr4, Applying ex_log), [])"
    by (rule thread_step.Match [of _ "\<lambda>_. 0"])
      (simp_all add: can_handleReadState_def handleReadState_def f ex_read_def fun_upd_idem)
  have 5: "ex_thread_step ((?pr4, Applying ex_log), [])
      ((?pr4\<lparr>ps := mark_applied mem_pebble (ex_put [1] [2] 1) s2\<rparr>, Marked (ex_put [1] [2] 1) []), [])"
    unfolding ex_log_def
    by (rule n [unfolded ex_log_def]) (use apply_step.Mark [of mem_pebble ex_node ex_grpc ?pr4 "ex_put [1] [2] 1" "[]"] in simp_all)
  note star = converse_rtranclp_into_rtranclp [where r = ex_thread_step]
  have "ex_thread_step\<^sup>*\<^sup>* ((pr0, Select), [])
      ((?pr4\<lparr>ps := mark_applied mem_pebble (ex_put [1] [2] 1) s2\<rparr>, Marked (ex_put [1] [2] 1) []), [])"
    by (rule star, rule 1, rule rtranclp_trans, rule 2, rule star, rule 3, rule star, rule 4,
        rule r_into_rtranclp, rule 5)
  then show ?thesis using s(1) by (intro exI conjI) (assumption | simp)+
qed

text \<open>The read of that run can be served.\<close>

lemma ex_overtaking_read:
  assumes "started_on mem_pebble ex_node pr0"
    and "ex_thread_step\<^sup>*\<^sup>* ((pr0, Select), []) ((pr, Marked (ex_put [1] [2] 1) []), [])"
    and "read_tasks pr = [(ex_answer, ex_read 0 [1])]" "callbacks pr = [NewCallback]"
  shows "can_readApplied 0 pr" "read_tasks pr ! 0 = (ex_answer, ex_read 0 [1])"
    "ctx (ex_read 0 [1]) = buildReadCtx 0 [1]" "kv_map mem_pebble (engines (ps pr)) = Map.empty"
proof -
  note m = thread_map [OF mem_pebble_ok mem_pebble_healthy ex_log_committed(1) assms(1,2)]
  have "unat (AppliedIndex (ps pr)) = 1" using m(4) by simp
  then show "can_readApplied 0 pr"
    using assms(3,4)
    by (simp add: can_readApplied_def ex_answer_def ex_read_def NewCallback_def can_Done_def word_le_nat_alt)
  show "read_tasks pr ! 0 = (ex_answer, ex_read 0 [1])" "ctx (ex_read 0 [1]) = buildReadCtx 0 [1]"
    using assms(3) by (simp_all add: ex_read_def)
  show "kv_map mem_pebble (engines (ps pr)) = Map.empty" using m(5) by simp
qed

text \<open>The goroutine then applies the put.\<close>

lemma ex_applied_run:
  assumes "started_on mem_pebble ex_node pr0"
    and "ex_thread_step\<^sup>*\<^sup>* ((pr0, Select), []) ((pr, Marked (ex_put [1] [2] 1) []), [])"
  shows "\<exists>pr'. ex_thread_step\<^sup>*\<^sup>* ((pr0, Select), []) ((pr', Applying []), [Ran (ex_put [1] [2] 1)])"
proof -
  note P = mem_pebble_ok mem_pebble_healthy ex_log_committed(1)
  obtain pr' where p: "process_command mem_pebble (ex_put [1] [2] 1) pr = Some pr'"
    using thread_ok_apply [OF P thread_map(1) [OF P assms]] by blast
  have "apply_step mem_pebble ex_node ex_grpc (pr, Marked (ex_put [1] [2] 1) []) (pr', Applying [])"
    by (rule apply_step.Apply [OF p])
  from thread_step.Own [OF this, where L = ex_log and h = "[]"]
  have "ex_thread_step ((pr, Marked (ex_put [1] [2] 1) []), []) ((pr', Applying []), [Ran (ex_put [1] [2] 1)])" by simp
  from rtranclp.rtrancl_into_rtrancl [OF assms(2) this] show ?thesis by blast
qed

section \<open>Replicas\<close>

text \<open>C1: What replicas hold and when they agree. Whatever the interleaving of the writes of its
  goroutines, the batches and the snapshots it gets and makes, its restarts and the moments at which its
  process ends, a peer's map is what its history gives: the committed entries in their order, and the
  pairs of the snapshots it received. Its applied index counts the entries of the history and the one
  between the two halves of \<^verbatim>\<open>process\<close>. A key holds the committed value if it is settled: no snapshot has
  been installed and no command for it lost in a crash, or a command for it has been applied since. So
  two peers that count the same number of entries agree on every key that both have settled, and on
  every key if neither has installed a snapshot or crashed between the halves of \<^verbatim>\<open>process\<close>. Nothing is
  assumed about what is in a snapshot.\<close>

theorem replicas_agree:
  assumes "pebble_ok P" "healthy P" "pebble_ok P'" "healthy P'" "committed_log L"
    and "started_on P N0 pr0" "(thread_step P N G L)\<^sup>*\<^sup>* ((pr0, Select), []) ((pr, c), h)"
    and "started_on P' N0' pr0'" "(thread_step P' N' G' L)\<^sup>*\<^sup>* ((pr0', Select), []) ((pr', c'), h')"
  shows "of_log L h \<and> kv_map P (engines (ps pr)) = replay h \<and>
    unat (AppliedIndex (ps pr)) = hist_index h + in_flight c \<and>
    (\<forall>k. settled k h \<longrightarrow> kv_map P (engines (ps pr)) k = committed_map L (hist_index h) k) \<and>
    (hist_index h = hist_index h' \<longrightarrow>
      (\<forall>k. settled k h \<and> settled k h' \<longrightarrow> kv_map P (engines (ps pr)) k = kv_map P' (engines (ps pr')) k) \<and>
      (list_all (\<lambda>ev. \<not> disturbs ev) (h @ h') \<longrightarrow>
        kv_map P (engines (ps pr)) = committed_map L (hist_index h) \<and>
        kv_map P (engines (ps pr)) = kv_map P' (engines (ps pr'))))"
proof -
  note m = thread_map [OF assms(1,2,5,6,7)] and m' = thread_map [OF assms(3,4,5,8,9)]
  have s: "settled k h \<Longrightarrow> kv_map P (engines (ps pr)) k = committed_map L (hist_index h) k"
    "settled k h' \<Longrightarrow> kv_map P' (engines (ps pr')) k = committed_map L (hist_index h') k" for k
    using settled_committed [OF assms(5)] m(2,5) m'(2,5) by simp_all
  have "kv_map P (engines (ps pr)) = committed_map L (hist_index h)"
    "kv_map P' (engines (ps pr')) = committed_map L (hist_index h')"
    if "list_all (\<lambda>ev. \<not> disturbs ev) (h @ h')"
    using s undisturbed_settled that by (auto intro!: ext)
  then show ?thesis using m(2,4,5) s by auto
qed

lemma replicas_agree_witness:
  "\<exists>pr pr' :: ((bytes \<times> bytes) list, unit, unit) peer. ex_started ex_engines = Some pr \<and>
     unat (AppliedIndex (ps pr')) = 1 \<and> kv_map mem_pebble (engines (ps pr')) = [[1] \<mapsto> [2]] \<and>
     kv_map mem_pebble (engines (ps pr')) = committed_map ex_log 1"
proof -
  obtain pr0 pr where r: "ex_started ex_engines = Some pr0"
    "ex_thread_step\<^sup>*\<^sup>* ((pr0, Select), []) ((pr, Marked (ex_put [1] [2] 1) []), [])" using ex_overtaking_run by blast
  note f = ex_started_fields [OF r(1)]
  obtain pr' where a: "ex_thread_step\<^sup>*\<^sup>* ((pr0, Select), []) ((pr', Applying []), [Ran (ex_put [1] [2] 1)])"
    using ex_applied_run [OF f(6) r(2)] by blast
  note P = mem_pebble_ok mem_pebble_healthy
  from replicas_agree [OF P P ex_log_committed(1) f(6) a f(6) a] r(1) ex_log_maps show ?thesis
    by auto
qed

section \<open>Reads\<close>

text \<open>C3: What a linearizable read sees. A read that raft has answered with an index is served, at
  whatever moment its wait is over, from the map that the peer's history gives then; the history counts
  at least as many entries as the index says, but for the one entry that may be between the two halves
  of \<^verbatim>\<open>process\<close>. If the key is settled the answer is its value after that many committed entries. It need
  not be while a snapshot is being installed: its index is taken over before its pairs are written.\<close>

theorem read_sees_committed:
  assumes "pebble_ok P" "healthy P" "committed_log L" "started_on P N0 pr0"
    and "(thread_step P N G L)\<^sup>*\<^sup>* ((pr0, Select), []) ((pr, c), h)"
    and "can_readApplied k pr" "read_tasks pr ! k = (st, r)" "ctx r = buildReadCtx now key"
  shows "\<exists>pr'. unat (rsIndex st) \<le> hist_index h + in_flight c \<and> hist_index h \<le> length L \<and>
    readApplied P k pr = Some pr' \<and>
    cbResp (callbacks pr' ! cb r) = Some (NewGetCmdResponse (Option.bind (replay h key) nil_if_empty)) \<and>
    (settled key h \<longrightarrow> cbResp (callbacks pr' ! cb r) =
      Some (NewGetCmdResponse (Option.bind (committed_map L (hist_index h) key) nil_if_empty)))"
proof -
  note m = thread_map [OF assms(1-5)]
  have c: "rsIndex st \<le> AppliedIndex (ps pr)" "cb r < length (callbacks pr)"
    using assms(6,7) by (simp_all add: can_readApplied_def)
  then have i: "unat (rsIndex st) \<le> hist_index h + in_flight c" using m(4) by (simp add: word_le_nat_alt)
  obtain pr' where r: "readApplied P k pr = Some pr'"
    "cbResp (callbacks pr' ! cb r) = Some (NewGetCmdResponse (Option.bind (replay h key) nil_if_empty))"
    using m(5) assms(7) c(2) read_response_value [OF assms(2,8), of "ps pr"] by (auto simp: readApplied_def Done_def)
  show ?thesis
    using i m(3) r settled_committed [OF assms(3) m(2)] by (intro exI [of _ pr']) simp
qed

lemma read_sees_committed_witness:
  "\<exists>pr'. cbResp (callbacks (pr' :: ((bytes \<times> bytes) list, unit, unit) peer) ! 0) =
     Some (NewGetCmdResponse (Option.bind (committed_map ex_log 0 [1]) nil_if_empty))"
proof -
  obtain pr0 pr where r: "ex_started ex_engines = Some pr0"
    "ex_thread_step\<^sup>*\<^sup>* ((pr0, Select), []) ((pr, Marked (ex_put [1] [2] 1) []), [])"
    "read_tasks pr = [(ex_answer, ex_read 0 [1])]" "callbacks pr = [NewCallback]"
    using ex_overtaking_run by blast
  note f = ex_started_fields [OF r(1)]
  note c = ex_overtaking_read(1-3) [OF f(6) r(2-4)]
  from read_sees_committed [OF mem_pebble_ok mem_pebble_healthy ex_log_committed(1) f(6) r(2) c]
  show ?thesis by (auto simp: ex_read_def)
qed

text \<open>C7: The one entry can be the read's own. Between the two halves of \<^verbatim>\<open>process\<close> a read that raft
  has answered with the index of a put need not wait and is answered from the map before the put: a
  stale read, after the put was committed. For a settled key that is its value after the entries
  before the put.\<close>

theorem read_overtakes_apply:
  assumes "pebble_ok P" "healthy P" "committed_log L" "started_on P N0 pr0"
    and "(thread_step P N G L)\<^sup>*\<^sup>* ((pr0, Select), []) ((pr, Marked ent ents), h)"
    and "entry_command ent = Some (CPut key v)"
    and "k < length (read_tasks pr)" "read_tasks pr ! k = (st, r)" "rsIndex st = eIndex ent"
    and "ctx r = buildReadCtx now key" "cb r < length (callbacks pr)" "can_Done (callbacks pr ! cb r)"
  shows "committed_map L (unat (eIndex ent)) key = Some v \<and> can_readApplied k pr \<and>
    (\<exists>pr'. readApplied P k pr = Some pr' \<and>
      cbResp (callbacks pr' ! cb r) = Some (NewGetCmdResponse (Option.bind (replay h key) nil_if_empty)) \<and>
      (settled key h \<longrightarrow> cbResp (callbacks pr' ! cb r) =
        Some (NewGetCmdResponse (Option.bind (committed_map L (unat (eIndex ent) - 1) key) nil_if_empty))))"
proof -
  note P = assms(1,2)
  note m = thread_map [OF assms(1-5)]
  have n: "hist_index h < length L" "ent = L ! hist_index h"
    using m(1) by (simp_all add: thread_ok_def next_entries_Cons)
  then have e: "unat (eIndex ent) = Suc (hist_index h)" using committed_index [OF assms(3)] by simp
  then have "AppliedIndex (ps pr) = eIndex ent" using m(4) by (simp add: word_unat_eq_iff)
  then have "can_readApplied k pr" using assms(7-12) by (simp add: can_readApplied_def)
  moreover have "committed_map L (unat (eIndex ent)) key = Some v"
    unfolding e using n assms(6) by (simp add: committed_map_Suc)
  ultimately show ?thesis
    using assms(8,11) m(5) e settled_committed [OF assms(3) m(2)] read_response_value [OF assms(2,10), of "ps pr"]
    by (simp add: readApplied_def Done_def)
qed

lemma read_overtakes_apply_witness:
  "\<exists>pr'. committed_map ex_log 1 [1] = Some [2] \<and>
     cbResp (callbacks (pr' :: ((bytes \<times> bytes) list, unit, unit) peer) ! 0) = Some (NewGetCmdResponse None)"
proof -
  obtain pr0 pr where r: "ex_started ex_engines = Some pr0"
    "ex_thread_step\<^sup>*\<^sup>* ((pr0, Select), []) ((pr, Marked (ex_put [1] [2] 1) []), [])"
    "read_tasks pr = [(ex_answer, ex_read 0 [1])]" "callbacks pr = [NewCallback]"
    using ex_overtaking_run by blast
  note f = ex_started_fields [OF r(1)]
  have "entry_command (ex_put [1] [2] 1) = Some (CPut [1] [2])" by (rule ex_put_command) simp
  from read_overtakes_apply [OF mem_pebble_ok mem_pebble_healthy ex_log_committed(1) f(6) r(2) this,
      where k = 0 and st = ex_answer and r = "ex_read 0 [1]" and now = 0]
  show ?thesis using r(3,4)
    by (auto simp: ex_answer_def ex_read_def ex_put_def NewCallback_def can_Done_def)
qed

section \<open>Snapshots of a running peer\<close>

text \<open>What a generating goroutine writes down that looks at a peer three times, at any moments of an
  interleaving: the index that the second history counts and the map of the third.\<close>

lemma snapshot_of_run:
  assumes "pebble_ok P" "healthy P" "committed_log L" "thread_ok P L ((pr1, c1), h1)"
    and "thread_ok P L ((pr2, c2), h2)" "thread_ok P L ((pr3, c3), h3)"
    and "kv_fits (kv_map P (engines (ps pr3)))"
  shows "\<exists>x pairs. make_snapshot P (ps pr1) (ps pr2) (ps pr3) = Some x \<and>
    unat (smIndex (snMetadata x)) = hist_index h2 + in_flight c2 \<and>
    (\<forall>spare. Decode spare (slice (snData x)) = Some pairs) \<and> pair_map pairs = replay h3"
proof -
  have "asTruncatedState (applyState (ps pr1)) \<noteq> None" "kv_map P (engines (ps pr3)) = replay h3"
    "unat (AppliedIndex (ps pr2)) = hist_index h2 + in_flight c2"
    using assms(4-6) by (auto simp: thread_ok_def apply_saved_def)
  with make_snapshot_map [OF assms(1) this(1) assms(7), of "ps pr2"] show ?thesis by auto
qed

text \<open>C9: Between the halves of \<^verbatim>\<open>process\<close> a snapshot loses the entry. A goroutine that takes the index
  and the map then, wherever it took the term, writes that the entry is applied and has the map without
  it; a follower that installs it counts the put as applied and does not have it, while the sender goes
  on to apply it: two replicas that have applied the same number of entries hold different values for
  good.\<close>

theorem snapshot_loses_entry:
  assumes P: "pebble_ok P" "healthy P" "committed_log L" "started_on P N0 pr0"
    and run: "(thread_step P N G L)\<^sup>*\<^sup>* ((pr0, Select), []) ((pr, Marked ent ents), h)"
    and put: "entry_command ent = Some (CPut k v)" "kv_map P (engines (ps pr)) k \<noteq> Some v"
    and fits: "kv_fits (kv_map P (engines (ps pr)))" "asTruncatedState (applyState s1) \<noteq> None"
    and f: "pebble_ok Q" "healthy Q" "asTruncatedState (applyState f) \<noteq> None" "kv_map Q (engines f) k \<noteq> Some v"
  shows "\<exists>x f' pr'. make_snapshot P s1 (ps pr) (ps pr) = Some x \<and> applySnapshot Q spare x f = Some f' \<and>
    process_command P ent pr = Some pr' \<and> AppliedIndex f' = AppliedIndex (ps pr') \<and>
    kv_map P (engines (ps pr')) k = Some v \<and> kv_map Q (engines f') k \<noteq> Some v"
proof -
  note m = thread_map [OF P run]
  obtain pr' where p: "process_command P ent pr = Some pr'" "thread_ok P L ((pr', Applying ents), Ran ent # h)"
    "AppliedIndex (ps pr') = AppliedIndex (ps pr)"
    using thread_ok_apply [OF P(1-3) m(1)] by blast
  have v: "kv_map P (engines (ps pr')) k = Some v" using p(2) put(1) by (simp add: thread_ok_def)
  obtain x pairs where x: "make_snapshot P s1 (ps pr) (ps pr) = Some x" "smIndex (snMetadata x) = AppliedIndex (ps pr)"
    "\<And>spare. Decode spare (slice (snData x)) = Some pairs" "pair_map pairs = kv_map P (engines (ps pr))"
    using make_snapshot_map [OF P(1) fits(2,1)] by blast
  obtain f' where "applySnapshot Q spare x f = Some f'" "applyState f' = snapshot_state x"
    "kv_map Q (engines f') = kv_map Q (engines f) ++ pair_map pairs"
    using applySnapshot_effect [OF f(1-3) x(3)] by blast
  then show ?thesis
    using x p v put(2) f(4)
    by (intro exI [of _ x] exI [of _ f'] exI [of _ pr'])
      (auto simp: AppliedIndex_def snapshot_state_def map_add_def split: option.split)
qed

lemma snapshot_loses_entry_witness:
  "\<exists>pr x f' pr'. make_snapshot mem_pebble (ps pr) (ps pr) (ps pr) = Some x \<and>
     applySnapshot mem_pebble [] x ex_storage = Some f' \<and>
     process_command mem_pebble (ex_put [1] [2] 1) (pr :: ((bytes \<times> bytes) list, unit, unit) peer) = Some pr' \<and>
     AppliedIndex f' = AppliedIndex (ps pr') \<and>
     kv_map mem_pebble (engines (ps pr')) [1] = Some [2] \<and> kv_map mem_pebble (engines f') [1] \<noteq> Some [2]"
proof -
  obtain pr0 pr where r: "ex_started ex_engines = Some pr0"
    "ex_thread_step\<^sup>*\<^sup>* ((pr0, Select), []) ((pr, Marked (ex_put [1] [2] 1) []), [])"
    "read_tasks pr = [(ex_answer, ex_read 0 [1])]" "callbacks pr = [NewCallback]"
    using ex_overtaking_run by blast
  note f = ex_started_fields [OF r(1)]
  have c: "entry_command (ex_put [1] [2] 1) = Some (CPut [1] [2])" by (rule ex_put_command) simp
  note m = ex_overtaking_read(4) [OF f(6) r(2-4)]
  have t: "asTruncatedState (applyState (ps pr)) \<noteq> None"
    using thread_map(6) [OF mem_pebble_ok mem_pebble_healthy ex_log_committed(1) f(6) r(2)]
    by (simp add: apply_saved_def)
  show ?thesis
    using snapshot_loses_entry [OF mem_pebble_ok mem_pebble_healthy ex_log_committed(1) f(6) r(2) c _ _ t,
        where Q = mem_pebble and f = ex_storage and spare = "[]"] m ex_fresh_map ex_storage_fields(4)
    by (auto simp: kv_fits_def)
qed

section \<open>Termination\<close>

text \<open>C11: Handling a batch ends. From every state that an interleaving reaches, unless a signal has
  to wait, the goroutine of \<^verbatim>\<open>onTick\<close> comes back to its \<^verbatim>\<open>select\<close>: from wherever it is in the save of a
  batch whose snapshot decodes and whose indexes are not the greatest one; and past the save in exactly
  \<open>remaining\<close> steps of its own, two for every committed entry, and never more. All of the batch is applied
  then, and every read waiting for an index of the batch can be served.\<close>

theorem batch_ends:
  assumes "pebble_ok P" "healthy P" "committed_log L" "started_on P N0 pr0"
    and "(thread_step P N G L)\<^sup>*\<^sup>* ((pr0, Select), []) ((pr, c), h)"
    and "\<And>rd. c = Saved rd \<Longrightarrow> can_signal rd pr"
    and "\<And>spare rd w. c = Saving spare rd w \<Longrightarrow> savable spare rd (ps pr) \<and> can_signal rd pr"
  shows "(\<not> saving c \<longrightarrow> (\<forall>k pr' c'. (apply_step P N G ^^ k) (pr, c) (pr', c') \<longrightarrow> k \<le> remaining c)) \<and>
    (\<exists>pr' n. (apply_step P N G)\<^sup>*\<^sup>* (pr, c) (pr', Select) \<and>
      (\<not> saving c \<longrightarrow> (apply_step P N G ^^ remaining c) (pr, c) (pr', Select)) \<and>
      n = applied_before c (unat (AppliedIndex (ps pr)) - in_flight c) + length (to_apply c) \<and>
      unat (AppliedIndex (ps pr')) = n \<and> read_tasks pr' = read_tasks pr \<and>
      (\<forall>k < length (read_tasks pr).
        unat (rsIndex (fst (read_tasks pr ! k))) \<le> n \<and>
        cb (snd (read_tasks pr ! k)) < length (callbacks pr) \<and>
        can_Done (callbacks pr ! cb (snd (read_tasks pr ! k))) \<longrightarrow> can_readApplied k pr'))"
proof -
  note m = thread_map [OF assms(1-5)]
  let ?n = "applied_before c (hist_index h) + length (to_apply c)"
  have "\<exists>pr'. (apply_step P N G)\<^sup>*\<^sup>* (pr, c) (pr', Select) \<and>
      (\<not> saving c \<longrightarrow> (apply_step P N G ^^ remaining c) (pr, c) (pr', Select)) \<and>
      unat (AppliedIndex (ps pr')) = ?n \<and> read_tasks pr' = read_tasks pr \<and> callbacks pr' = callbacks pr"
  proof (cases "saving c")
    case True
    then obtain spare rd w where c: "c = Saving spare rd w" by (cases c) auto
    from saving_threads_end [OF assms(1-3) m(1) [unfolded c]] assms(7) [OF c] True
    show ?thesis by (simp add: c)
  next
    case False
    have b: "applied_before c k = k" for k using False by (cases c) simp_all
    from thread_steps_end [OF assms(1-3) m(1) False assms(6), of N G] show ?thesis
      using relpowp_imp_rtranclp by (fastforce simp: b)
  qed
  then obtain pr' where r: "(apply_step P N G)\<^sup>*\<^sup>* (pr, c) (pr', Select)"
    "\<not> saving c \<longrightarrow> (apply_step P N G ^^ remaining c) (pr, c) (pr', Select)"
    "unat (AppliedIndex (ps pr')) = ?n" "read_tasks pr' = read_tasks pr" "callbacks pr' = callbacks pr" by blast
  have "can_readApplied k pr'"
    if "k < length (read_tasks pr)" "unat (rsIndex (fst (read_tasks pr ! k))) \<le> ?n"
      "cb (snd (read_tasks pr ! k)) < length (callbacks pr)"
      "can_Done (callbacks pr ! cb (snd (read_tasks pr ! k)))" for k
    using that r(3-5) by (cases "read_tasks pr ! k") (simp add: can_readApplied_def word_le_nat_alt)
  moreover have "k \<le> remaining c" if "(apply_step P N G ^^ k) (pr, c) (pr2, c2)" "\<not> saving c" for k pr2 c2
    using apply_steps_bound [OF that] by simp
  moreover have "unat (AppliedIndex (ps pr)) - in_flight c = hist_index h" using m(4) by simp
  ultimately show ?thesis
    using r by (intro conjI allI impI exI [of _ pr'] exI [of _ ?n]) (assumption | rule refl | simp)+
qed

lemma batch_ends_witness:
  "\<exists>pr pr'. (apply_step mem_pebble ex_node ex_grpc ^^ 2)
     (pr, Marked (ex_put [1] [2] 1) []) (pr', Select) \<and> unat (AppliedIndex (ps pr')) = 1"
proof -
  obtain pr0 pr where r: "ex_started ex_engines = Some pr0"
    "ex_thread_step\<^sup>*\<^sup>* ((pr0, Select), []) ((pr, Marked (ex_put [1] [2] 1) []), [])"
    using ex_overtaking_run by blast
  note f = ex_started_fields [OF r(1)]
  note P = mem_pebble_ok mem_pebble_healthy ex_log_committed(1) f(6) r(2)
  have m: "remaining (Marked (ex_put [1] [2] 1) []) = 2" by simp
  obtain pr' where "(apply_step mem_pebble ex_node ex_grpc ^^ 2) (pr, Marked (ex_put [1] [2] 1) []) (pr', Select)"
    "unat (AppliedIndex (ps pr')) =
      unat (AppliedIndex (ps pr)) - in_flight (Marked (ex_put [1] [2] 1) []) + length (to_apply (Marked (ex_put [1] [2] 1) []))"
    using batch_ends [OF P] unfolding m by auto
  then show ?thesis using thread_map(4) [OF P] by fastforce
qed

section \<open>The read loop\<close>

text \<open>C12: The read loop can wait for ever. With 1024 reads in the queue and a signal, when the first
  read has no answer yet and is fresh, the loop takes it out, a client's read takes the free place, and
  the loop waits to put its read back; from then on, whatever the other goroutines do, it waits, since
  only the loop empties the queue, and no client's read is registered any more.\<close>

theorem read_loop_deadlock:
  assumes "length (readc pr) = 1024" "can_handleReadState pr"
    and "readStateTable pr (ctx (hd (readc pr))) = None"
    and "still_fresh (\<lambda>_. now) 0 (hd (readc pr)) = Some True"
    and "\<And>ct n. fst (nd_readIndex N ct n) = None"
  shows "\<exists>pr' l. (system_step P N G)\<^sup>*\<^sup>* (pr, c, Waiting) (pr', c, l) \<and>
    (\<forall>pr'' c'' l''. (system_step P N G)\<^sup>*\<^sup>* (pr', c, l) (pr'', c'', l'') \<longrightarrow>
      l'' = l \<and> l \<noteq> Waiting \<and> readc pr'' = readc pr' \<and> \<not> can_linearizableRead pr'')"
proof -
  let ?l = "Requeue (readc_capacity - 1) (hd (readc pr))"
  obtain pr' where w: "(system_step P N G)\<^sup>*\<^sup>* (pr, c, Waiting) (pr', c, ?l)" "wedged (pr', c, ?l)"
    using wedging_run [of pr now N P G c] assms by (auto simp: readc_capacity_def)
  have "l'' = ?l \<and> readc pr'' = readc pr' \<and> \<not> can_linearizableRead pr''"
    if "(system_step P N G)\<^sup>*\<^sup>* (pr', c, ?l) (pr'', c'', l'')" for pr'' c'' l''
    using wedged_run [OF that w(2)]
    by (auto simp: wedged_def queue_kept_def can_linearizableRead_def readc_capacity_def)
  with w(1) show ?thesis by blast
qed

lemma read_loop_deadlock_witness:
  "\<exists>pr' l. (system_step mem_pebble ex_node ex_grpc)\<^sup>*\<^sup>*
     (ex_peer\<lparr>readc := replicate 1024 (ex_read 0 [1]), readStateComing := 1\<rparr>, Select, Waiting) (pr', Select, l) \<and>
     l \<noteq> Waiting \<and> \<not> can_linearizableRead pr'"
proof -
  let ?pr = "ex_peer\<lparr>readc := replicate 1024 (ex_read 0 [1]), readStateComing := 1\<rparr>"
  have h: "hd (readc ?pr) = ex_read 0 [1]" by (simp add: hd_replicate)
  have "still_fresh (\<lambda>_. 0) 0 (ex_read 0 [1]) = Some True"
    by (simp add: still_fresh_def read_timestamp_ctx [of _ 0 "[1]"] ex_read_def read_timeout_def)
  with read_loop_deadlock [of ?pr 0 ex_node mem_pebble ex_grpc Select] h show ?thesis
    by (fastforce simp: can_handleReadState_def ex_peer_def ex_node_def)
qed

end
