(* ===== verification/Float64.thy ===== *)
theory Float64
  imports Prelude
begin

text \<open>
  Go's \<^verbatim>\<open>float64\<close>, which the execution engine's \<^verbatim>\<open>Float\<close> values and \<^verbatim>\<open>Floats\<close> columns are made
  of: IEEE 754 binary64 on its 64-bit word, with the operations the engine uses
  (\<^verbatim>\<open>+\<close>, \<^verbatim>\<open>-\<close>, the comparisons and the conversion of an \<^verbatim>\<open>int64\<close>), rounding to nearest with ties
  to even. Nothing here is code of the repository; it is the arithmetic of the language.

  Every finite double is an integer multiple of \<open>2^-1074\<close>, so a finite value is the integer
  \<open>fval\<close> in that unit, a sum is exact in \<open>int\<close>, and \<open>fpack\<close> rounds it back to a double. Under this
  reading an infinity is the integer \<open>2^2098\<close>, above every finite value, which is how the
  comparisons order it. Go leaves the payload of a NaN result unspecified; \<open>qnan\<close>
  is one choice and no theorem depends on it.
\<close>

section \<open>Values\<close>

type_synonym float64 = u64

definition fneg :: "float64 \<Rightarrow> bool" where
  "fneg x \<longleftrightarrow> 2 ^ 63 \<le> unat x"

definition fmag :: "float64 \<Rightarrow> nat" where
  "fmag x = unat x mod 2 ^ 63"

definition is_nan :: "float64 \<Rightarrow> bool" where
  "is_nan x \<longleftrightarrow> 2047 * 2 ^ 52 < fmag x"

definition is_inf :: "float64 \<Rightarrow> bool" where
  "is_inf x \<longleftrightarrow> fmag x = 2047 * 2 ^ 52"

definition qnan :: float64 where
  "qnan = 0x7FF8000000000001"

definition fmake :: "bool \<Rightarrow> nat \<Rightarrow> float64" where
  "fmake s m = word_of_nat ((if s then 2 ^ 63 else 0) + m)"

text \<open>
  The exponent and fraction fields \<open>m\<close> stand for \<open>fsig m * 2 ^ fexp m\<close> units of \<open>2^-1074\<close>; an
  exponent field of 0 is a subnormal, with no hidden bit.
\<close>

definition fexp :: "nat \<Rightarrow> nat" where
  "fexp m = m div 2 ^ 52 - 1"

definition fsig :: "nat \<Rightarrow> nat" where
  "fsig m = (if m div 2 ^ 52 = 0 then m mod 2 ^ 52 else 2 ^ 52 + m mod 2 ^ 52)"

definition fman :: "nat \<Rightarrow> nat" where
  "fman m = fsig m * 2 ^ fexp m"

definition with_sign :: "float64 \<Rightarrow> nat \<Rightarrow> int" where
  "with_sign x a = (if fneg x then - int a else int a)"

definition fval :: "float64 \<Rightarrow> int" where
  "fval x = with_sign x (fman (fmag x))"

section \<open>Rounding\<close>

fun bit_length :: "nat \<Rightarrow> nat" where
  "bit_length n = (if n = 0 then 0 else Suc (bit_length (n div 2)))"

declare bit_length.simps [simp del]

text \<open>
  The exponent and fraction fields of the double nearest to \<open>a * 2 ^ j\<close> units: the number is
  cut to its 53 leading bits by dropping \<open>k\<close> of them, and a carry out of the fraction moves into
  the exponent. Beyond the largest exponent the result is infinity.
\<close>

definition fpack :: "nat \<Rightarrow> nat \<Rightarrow> nat" where
  "fpack j a =
    (if a = 0 then 0
     else let k = bit_length a + j - 53;
              q = (a * 2 ^ (j - k)) div 2 ^ (k - j);
              r = a mod 2 ^ (k - j)
          in min (2047 * 2 ^ 52)
               (k * 2 ^ 52 +
                (if 2 ^ (k - j) < 2 * r \<or> (2 ^ (k - j) = 2 * r \<and> odd q) then q + 1 else q)))"

definition fround :: "bool \<Rightarrow> nat \<Rightarrow> int \<Rightarrow> float64" where
  "fround zero_sign j z = fmake (if z = 0 then zero_sign else z < 0) (fpack j (nat \<bar>z\<bar>))"

section \<open>Operations\<close>

definition f64_neg :: "float64 \<Rightarrow> float64" where
  "f64_neg x = fmake (\<not> fneg x) (fmag x)"

definition f64_add :: "float64 \<Rightarrow> float64 \<Rightarrow> float64" where
  "f64_add x y =
    (if is_nan x \<or> is_nan y then qnan
     else if is_inf x then (if is_inf y \<and> fneg x \<noteq> fneg y then qnan else x)
     else if is_inf y then y
     else let e = min (fexp (fmag x)) (fexp (fmag y))
          in fround (fneg x \<and> fneg y) e
               (with_sign x (fsig (fmag x) * 2 ^ (fexp (fmag x) - e)) +
                with_sign y (fsig (fmag y) * 2 ^ (fexp (fmag y) - e))))"

definition f64_sub :: "float64 \<Rightarrow> float64 \<Rightarrow> float64" where
  "f64_sub x y = f64_add x (f64_neg y)"

definition f64_of_int :: "u64 \<Rightarrow> float64" where
  "f64_of_int n = fround False 1074 (sint n)"

definition f64_less :: "float64 \<Rightarrow> float64 \<Rightarrow> bool" where
  "f64_less x y \<longleftrightarrow> \<not> is_nan x \<and> \<not> is_nan y \<and> fval x < fval y"

definition f64_eq :: "float64 \<Rightarrow> float64 \<Rightarrow> bool" where
  "f64_eq x y \<longleftrightarrow> \<not> is_nan x \<and> \<not> is_nan y \<and> fval x = fval y"

text \<open>What evaluates the operations on literal words.\<close>

lemmas f64_eval =
  f64_add_def f64_sub_def f64_neg_def f64_of_int_def f64_less_def f64_eq_def is_nan_def is_inf_def
  fneg_def fmag_def fmake_def fexp_def fsig_def fman_def fval_def with_sign_def fround_def fpack_def Let_def

section \<open>The bit length\<close>

lemma bit_length_0 [simp]: "bit_length 0 = 0"
  by (simp add: bit_length.simps)

lemma bit_length_numeral [simp]:
  "bit_length (numeral n) = Suc (bit_length (numeral n div 2))" "bit_length (Suc 0) = 1"
  by (simp_all add: bit_length.simps [of "numeral n"] bit_length.simps [of "Suc 0"])

lemma less_bit_length: "a < 2 ^ bit_length a"
proof (induction a rule: bit_length.induct)
  case (1 n)
  then show ?case
    by (cases "n = 0") (auto simp: bit_length.simps [of n])
qed

lemma bit_length_le: "0 < a \<Longrightarrow> 2 ^ (bit_length a - 1) \<le> a"
proof (induction a rule: bit_length.induct)
  case (1 n)
  show ?case
  proof (cases "n div 2 = 0")
    case True
    then show ?thesis using 1(2) by (simp add: bit_length.simps [of n])
  next
    case False
    then have "2 ^ (bit_length (n div 2) - 1) \<le> n div 2" and "0 < bit_length (n div 2)"
      using 1 by (auto simp: bit_length.simps [of "n div 2"])
    then have "2 ^ bit_length (n div 2) \<le> n"
      by (cases "bit_length (n div 2)") auto
    then show ?thesis using 1(2) by (simp add: bit_length.simps [of n])
  qed
qed

lemma bit_length_unique: "2 ^ n \<le> a \<Longrightarrow> a < 2 ^ Suc n \<Longrightarrow> bit_length a = Suc n"
proof -
  assume *: "2 ^ n \<le> a" "a < 2 ^ Suc n"
  then have "0 < a" by (meson less_le_trans zero_less_numeral zero_less_power)
  from *(1) less_bit_length [of a] have "(2::nat) ^ n < 2 ^ bit_length a" by (rule le_less_trans)
  then have l: "n < bit_length a" by simp
  from * bit_length_le [OF \<open>0 < a\<close>] have "(2::nat) ^ (bit_length a - 1) < 2 ^ Suc n"
    by (meson le_less_trans)
  then have "bit_length a - 1 < Suc n" by (simp only: power_strict_increasing_iff one_less_numeral_iff semiring_norm)
  with l show ?thesis by simp
qed

lemma bit_length_bound: "a < 2 ^ n \<Longrightarrow> bit_length a \<le> n"
proof (rule ccontr)
  assume "a < 2 ^ n" "\<not> bit_length a \<le> n"
  then have "0 < a" by (cases a) auto
  from bit_length_le [OF this] \<open>a < 2 ^ n\<close> have "(2::nat) ^ (bit_length a - 1) < 2 ^ n" by (rule le_less_trans)
  then have "bit_length a - 1 < n" by simp
  with \<open>\<not> bit_length a \<le> n\<close> show False by simp
qed

section \<open>Rounding to the nearest double\<close>

text \<open>The mantissa a double's fields stand for.\<close>

lemma fman_cases:
  "fman m =
    (if m div 2 ^ 52 = 0 then m mod 2 ^ 52
     else (2 ^ 52 + m mod 2 ^ 52) * 2 ^ (m div 2 ^ 52 - 1))"
  by (simp add: fman_def fsig_def fexp_def)

lemma div_mod_fields: "f < c \<Longrightarrow> (n * c + f) div c = n \<and> (n * c + f) mod c = (f::nat)"
  by simp

lemma fman_fields:
  "q < 2 ^ 53 \<Longrightarrow> k = 0 \<or> 2 ^ 52 \<le> q \<Longrightarrow> fman (k * 2 ^ 52 + q) = q * 2 ^ k"
proof -
  assume q: "q < 2 ^ 53" and k: "k = 0 \<or> 2 ^ 52 \<le> q"
  show ?thesis
  proof (cases "q < 2 ^ 52")
    case True
    with k have "k = 0" by auto
    with True show ?thesis by (simp add: fman_cases)
  next
    case False
    define f where "f = q - 2 ^ 52"
    have f: "q = 2 ^ 52 + f" and "f < 2 ^ 52" using False q by (auto simp: f_def)
    then have e: "k * 2 ^ 52 + q = (Suc k) * 2 ^ 52 + f" by simp
    show ?thesis
      unfolding e fman_cases using div_mod_fields [OF \<open>f < 2 ^ 52\<close>, of "Suc k"]
      by (simp only: f diff_Suc_1 nat.distinct if_False)
  qed
qed

lemma fman_carry: "fman (k * 2 ^ 52 + 2 ^ 53) = 2 ^ 53 * 2 ^ k"
proof -
  have "k * 2 ^ 52 + 2 ^ 53 = Suc (Suc k) * 2 ^ 52 + (0::nat)" by simp
  then show ?thesis by (simp only: fman_cases) simp
qed

lemma cut_quotient:
  assumes "k = bit_length a - 53"
  shows "a div 2 ^ k < 2 ^ 53" and "k = 0 \<or> 2 ^ 52 \<le> a div 2 ^ k"
proof -
  have "a < 2 ^ (53 + k)"
    using less_bit_length [of a] by (rule order.strict_trans2) (simp add: assms)
  then show "a div 2 ^ k < 2 ^ 53"
    by (simp only: power_add div_less_iff_less_mult zero_less_power zero_less_numeral)
  show "k = 0 \<or> 2 ^ 52 \<le> a div 2 ^ k"
  proof (cases "k = 0")
    case False
    then have "0 < a" and e: "bit_length a - 1 = 52 + k" using assms by (cases "a = 0"; simp)+
    from bit_length_le [OF \<open>0 < a\<close>] have "2 ^ (52 + k) \<le> a" by (simp only: e)
    then have "(2::nat) ^ 52 * 2 ^ k \<le> a" by (simp only: power_add)
    then have "2 ^ 52 \<le> a div 2 ^ k" by (simp only: less_eq_div_iff_mult_less_eq zero_less_power zero_less_numeral)
    then show ?thesis ..
  qed simp
qed

text \<open>
  The unrounded fields; \<open>fpack\<close> caps them at infinity. They are a multiple of the unit of
  the last place \<open>2^k\<close>, at most half of it away from \<open>a\<close>.
\<close>

definition ffields :: "nat \<Rightarrow> nat" where
  "ffields a =
    (let k = bit_length a - 53;
         q = a div 2 ^ k;
         r = a mod 2 ^ k
     in k * 2 ^ 52 + (if 2 ^ k < 2 * r \<or> (2 ^ k = 2 * r \<and> odd q) then q + 1 else q))"

lemma bit_length_scale: "0 < a \<Longrightarrow> bit_length (a * 2 ^ j) = bit_length a + j"
proof -
  assume "0 < a"
  then obtain n where n: "bit_length a = Suc n"
    by (cases "bit_length a") (use less_bit_length [of a] in auto)
  have "2 ^ n \<le> a" "a < 2 ^ Suc n"
    using bit_length_le [OF \<open>0 < a\<close>] less_bit_length [of a] by (simp_all only: n) simp
  then have "2 ^ n * 2 ^ j \<le> a * 2 ^ j" "a * 2 ^ j < 2 ^ Suc n * 2 ^ j" by simp_all
  then have "2 ^ (n + j) \<le> a * 2 ^ j" "a * 2 ^ j < 2 ^ Suc (n + j)" by (simp_all add: power_add)
  from bit_length_unique [OF this] show ?thesis by (simp add: n)
qed

text \<open>Scaling by the exponent commutes with packing, so \<open>fpack j a\<close> rounds \<open>a * 2 ^ j\<close>.\<close>

lemma ffields_0 [simp]: "ffields 0 = 0"
  by (simp add: ffields_def)

lemma cut_scale:
  fixes a :: nat
  shows "(a * 2 ^ (j - k)) div 2 ^ (k - j) = a * 2 ^ j div 2 ^ k" (is ?q)
    and "2 ^ (k - j) < 2 * (a mod 2 ^ (k - j)) \<longleftrightarrow> 2 ^ k < 2 * (a * 2 ^ j mod 2 ^ k)" (is ?less)
    and "2 ^ (k - j) = 2 * (a mod 2 ^ (k - j)) \<longleftrightarrow> 2 ^ k = 2 * (a * 2 ^ j mod 2 ^ k)" (is ?eq)
proof -
  consider i where "j = k + i" | i where "k = i + j" by (metis le_cases le_iff_add add.commute)
  then have "?q \<and> ?less \<and> ?eq"
  proof cases
    case 1
    have "a * 2 ^ j = (a * 2 ^ i) * 2 ^ k" by (simp add: 1 power_add)
    have "a * 2 ^ j div 2 ^ k = a * 2 ^ i" "a * 2 ^ j mod 2 ^ k = 0"
      by (simp_all only: \<open>a * 2 ^ j = (a * 2 ^ i) * 2 ^ k\<close> nonzero_mult_div_cancel_right mod_mult_self2_is_0) simp
    moreover have "j - k = i" "k - j = 0" by (simp_all add: 1)
    ultimately show ?thesis by simp
  next
    case 2
    have k: "(2::nat) ^ k = 2 ^ i * 2 ^ j" by (simp add: 2 power_add)
    have r: "2 * (a * 2 ^ j mod (2 ^ i * 2 ^ j)) = 2 * (a mod 2 ^ i) * 2 ^ j"
      by (simp only: mult_mod_left [symmetric] mult.assoc)
    show ?thesis
      by (simp only: k r div_mult_mult2 mult_less_cancel2 mult_right_cancel) (simp add: 2)
  qed
  then show ?q ?less ?eq by blast+
qed

lemma fpack_ffields: "fpack j a = min (2047 * 2 ^ 52) (ffields (a * 2 ^ j))"
proof (cases "a = 0")
  case True
  then show ?thesis by (simp add: fpack_def)
next
  case False
  define k where "k = bit_length a + j - 53"
  have k: "bit_length (a * 2 ^ j) - 53 = k" using False by (simp add: bit_length_scale k_def)
  show ?thesis
    using False by (simp only: fpack_def ffields_def Let_def k_def [symmetric] k cut_scale if_False)
qed

lemma fman_ffields:
  assumes "k = bit_length a - 53"
  shows "fman (ffields a) =
    (if 2 ^ k < 2 * (a mod 2 ^ k) \<or> (2 ^ k = 2 * (a mod 2 ^ k) \<and> odd (a div 2 ^ k))
     then (a div 2 ^ k + 1) * 2 ^ k else a div 2 ^ k * 2 ^ k)"
proof -
  note q = cut_quotient [OF assms]
  have up: "fman (k * 2 ^ 52 + (a div 2 ^ k + 1)) = (a div 2 ^ k + 1) * 2 ^ k"
  proof (cases "a div 2 ^ k + 1 = 2 ^ 53")
    case True
    then show ?thesis by (simp only: fman_carry)
  next
    case False
    with q have "a div 2 ^ k + 1 < 2 ^ 53" "k = 0 \<or> 2 ^ 52 \<le> a div 2 ^ k + 1" by auto
    then show ?thesis by (rule fman_fields)
  qed
  show ?thesis
    by (simp only: ffields_def Let_def assms [symmetric] up fman_fields [OF q] if_distrib [of "\<lambda>q. k * 2 ^ 52 + q"]
        if_distrib [of fman])
qed

lemma ffields_nearest:
  assumes "k = bit_length a - 53"
  shows "2 * \<bar>int (fman (ffields a)) - int a\<bar> \<le> 2 ^ k"
proof -
  define q r where "q = a div 2 ^ k" and "r = a mod 2 ^ k"
  have a: "a = q * 2 ^ k + r" and r: "r < 2 ^ k"
    by (simp_all only: q_def r_def div_mult_mod_eq) simp
  then have "int a = int q * 2 ^ k + int r" and "int r < 2 ^ k"
    using r by (simp_all add: of_nat_less_iff [symmetric] del: of_nat_less_iff)
  moreover have "fman (ffields a) = (if 2 ^ k < 2 * r \<or> (2 ^ k = 2 * r \<and> odd q) then (q + 1) * 2 ^ k else q * 2 ^ k)"
    by (simp only: fman_ffields [OF assms] q_def r_def)
  moreover have "2 ^ k < 2 * r \<longleftrightarrow> (2::int) ^ k < 2 * int r" "2 ^ k = 2 * r \<longleftrightarrow> (2::int) ^ k = 2 * int r"
    by (metis of_nat_less_iff of_nat_mult of_nat_numeral of_nat_power,
        metis of_nat_eq_iff of_nat_mult of_nat_numeral of_nat_power)
  ultimately show ?thesis by (auto simp: algebra_simps)
qed

section \<open>Exact results\<close>

lemma unat_fmake:
  assumes "m < 2 ^ 63"
  shows "unat (fmake s m) = (if s then 2 ^ 63 else 0) + m"
proof -
  have "unat (word_of_nat n :: u64) = n" if "n < 2 ^ 64" for n
    using that by (simp add: unat_of_nat)
  moreover have "(if s then 2 ^ 63 else 0) + m < 2 ^ 64" using assms by simp
  ultimately show ?thesis unfolding fmake_def by blast
qed

lemma fmag_fmake: "m < 2 ^ 63 \<Longrightarrow> fmag (fmake s m) = m"
  by (simp add: fmag_def unat_fmake)

lemma fneg_fmake: "m < 2 ^ 63 \<Longrightarrow> fneg (fmake s m) = s"
  by (simp add: fneg_def unat_fmake)

lemma high_bit_mod: "u < 2 * c \<Longrightarrow> (if c \<le> u then c else 0) + u mod c = (u::nat)"
  by (auto simp: le_mod_geq)

lemma fmake_fields [simp]: "fmake (fneg x) (fmag x) = x"
proof -
  have "unat x < 2 * 2 ^ 63" using unsigned_less [of x] by simp
  from high_bit_mod [OF this] show ?thesis
    by (simp only: fmake_def fneg_def fmag_def) simp
qed

text \<open>Integers with at most 53 significant bits, in the range of the format.\<close>

definition representable :: "int \<Rightarrow> bool" where
  "representable z \<longleftrightarrow> (\<exists>q j. nat \<bar>z\<bar> = q * 2 ^ j \<and> q < 2 ^ 53 \<and> j \<le> 2045)"

lemma fpack_exact:
  assumes a: "a * 2 ^ i = q * 2 ^ j" and q: "q < 2 ^ 53" and j: "j \<le> 2045"
  shows "fpack i a < 2047 * 2 ^ 52" and "fman (fpack i a) = a * 2 ^ i"
proof -
  define b where "b = a * 2 ^ i"
  define k where "k = bit_length b - 53"
  have b: "b = q * 2 ^ j" by (simp add: b_def a)
  have "b < 2 ^ 53 * 2 ^ j" using q by (simp only: b mult_less_cancel2 zero_less_power zero_less_numeral)
  then have "b < 2 ^ (53 + j)" by (simp only: power_add)
  then have kj: "k \<le> j" using bit_length_bound [of b "53 + j"] by (simp add: k_def)
  then have "2 ^ k dvd b" by (simp add: b le_imp_power_dvd)
  then have m: "b mod 2 ^ k = 0" by simp
  have e: "ffields b = k * 2 ^ 52 + b div 2 ^ k"
    by (simp only: ffields_def Let_def k_def [symmetric] m) simp
  have "k * 2 ^ 52 \<le> 2045 * 2 ^ 52" using kj j by simp
  then have lt: "ffields b < 2047 * 2 ^ 52"
    using cut_quotient(1) [OF k_def] unfolding e by simp
  then have p: "fpack i a = ffields b" by (simp add: fpack_ffields b_def)
  show "fpack i a < 2047 * 2 ^ 52" using lt p by simp
  have "b div 2 ^ k * 2 ^ k = b" using \<open>2 ^ k dvd b\<close> by simp
  then show "fman (fpack i a) = a * 2 ^ i"
    by (simp only: p fman_ffields [OF k_def] m b_def [symmetric]) simp
qed

lemma fround_exact:
  assumes "representable (z * 2 ^ i)"
  shows "fval (fround s i z) = z * 2 ^ i" and "\<not> is_nan (fround s i z)" and "\<not> is_inf (fround s i z)"
proof -
  have "nat \<bar>z * 2 ^ i\<bar> = nat \<bar>z\<bar> * 2 ^ i" by (simp add: abs_mult nat_mult_distrib nat_power_eq)
  with assms obtain q j where "nat \<bar>z\<bar> * 2 ^ i = q * 2 ^ j" "q < 2 ^ 53" "j \<le> 2045"
    unfolding representable_def by metis
  note x = fpack_exact [OF this]
  then have "fpack i (nat \<bar>z\<bar>) < 2 ^ 63" by simp
  note f = fmag_fmake [OF this] fneg_fmake [OF this]
  show "fval (fround s i z) = z * 2 ^ i" by (auto simp: fval_def with_sign_def fround_def f x)
  show "\<not> is_nan (fround s i z)" "\<not> is_inf (fround s i z)"
    using x(1) by (simp_all add: is_nan_def is_inf_def fround_def f)
qed

text \<open>Every finite double is representable, and rounding it changes nothing.\<close>

lemma finite_representable:
  assumes "\<not> is_nan x" and "\<not> is_inf x"
  shows "representable (fval x)"
proof -
  define m where "m = fmag x"
  have m: "m < 2047 * 2 ^ 52" using assms by (simp add: is_nan_def is_inf_def m_def)
  have "\<exists>q j. fman m = q * 2 ^ j \<and> q < 2 ^ 53 \<and> j \<le> 2045"
  proof (cases "m div 2 ^ 52 = 0")
    case True
    have "m mod 2 ^ 52 < 2 ^ 52" by simp
    then have "fman m = m mod 2 ^ 52 * 2 ^ 0 \<and> m mod 2 ^ 52 < 2 ^ 53 \<and> (0::nat) \<le> 2045"
      using True by (auto simp: fman_cases)
    then show ?thesis by blast
  next
    case False
    have "m mod 2 ^ 52 < 2 ^ 52" by simp
    then have "2 ^ 52 + m mod 2 ^ 52 < 2 ^ 53" by simp
    moreover have "m div 2 ^ 52 < 2047" using m by simp
    then have "m div 2 ^ 52 - 1 \<le> 2045" by simp
    moreover have "fman m = (2 ^ 52 + m mod 2 ^ 52) * 2 ^ (m div 2 ^ 52 - 1)"
      using False by (simp only: fman_cases if_False)
    ultimately show ?thesis by blast
  qed
  moreover have "nat \<bar>fval x\<bar> = fman m" by (simp add: fval_def with_sign_def m_def)
  ultimately show ?thesis by (simp add: representable_def)
qed

lemma with_sign_scale: "with_sign x (a * 2 ^ n) = with_sign x a * 2 ^ n"
  by (simp add: with_sign_def)

lemma f64_add_rounds:
  assumes "\<not> is_nan x" "\<not> is_inf x" "\<not> is_nan y" "\<not> is_inf y"
  obtains s e z where "f64_add x y = fround s e z" and "z * 2 ^ e = fval x + fval y"
proof
  let ?e = "min (fexp (fmag x)) (fexp (fmag y))"
  let ?z = "with_sign x (fsig (fmag x) * 2 ^ (fexp (fmag x) - ?e)) +
    with_sign y (fsig (fmag y) * 2 ^ (fexp (fmag y) - ?e))"
  show "f64_add x y = fround (fneg x \<and> fneg y) ?e ?z"
    using assms by (simp only: f64_add_def Let_def if_False simp_thms)
  show "?z * 2 ^ ?e = fval x + fval y"
    by (simp only: fval_def fman_def with_sign_scale distrib_right mult.assoc power_add [symmetric]) simp
qed

lemma f64_add_exact:
  assumes "\<not> is_nan x" "\<not> is_inf x" "\<not> is_nan y" "\<not> is_inf y"
    and "representable (fval x + fval y)"
  shows "fval (f64_add x y) = fval x + fval y"
    and "\<not> is_nan (f64_add x y)" and "\<not> is_inf (f64_add x y)"
proof -
  obtain s e z where "f64_add x y = fround s e z" and "z * 2 ^ e = fval x + fval y"
    using f64_add_rounds assms by metis
  then show "fval (f64_add x y) = fval x + fval y"
    and "\<not> is_nan (f64_add x y)" and "\<not> is_inf (f64_add x y)"
    using fround_exact assms(5) by simp_all
qed

lemma representable_int:
  assumes "\<bar>n\<bar> < 2 ^ 53"
  shows "representable (n * 2 ^ 1074)"
proof -
  have "nat \<bar>n * 2 ^ 1074\<bar> = nat \<bar>n\<bar> * 2 ^ 1074"
    by (simp only: abs_mult nat_mult_distrib abs_ge_zero) simp
  moreover have "nat \<bar>n\<bar> < 2 ^ 53" using assms by (simp add: nat_less_iff)
  ultimately show ?thesis unfolding representable_def by (intro exI [of _ "nat \<bar>n\<bar>"] exI [of _ 1074]) simp
qed

lemma f64_of_int_exact:
  assumes "\<bar>sint n\<bar> < 2 ^ 53"
  shows "fval (f64_of_int n) = sint n * 2 ^ 1074"
    and "\<not> is_nan (f64_of_int n)" and "\<not> is_inf (f64_of_int n)"
  using fround_exact [OF representable_int [OF assms], of False] by (simp_all only: f64_of_int_def not_False_eq_True)

end
