(* ===== verification/Vm_Value.thy ===== *)
theory Vm_Value
  imports Float64 "HOL-Library.AList"
begin

text \<open>
  The types and values of the execution engine (\<^verbatim>\<open>execution/homework/pkg/vm/types\<close>,
  \<^verbatim>\<open>vm/value\<close> and \<^verbatim>\<open>vm/util\<close>): the type identifiers and their SQL names, the two kinds of values
  with their conversions, comparison, parsing and constant columns, and the two helpers on
  attribute lists.

  A \<^verbatim>\<open>Value\<close> is a pointer to an immutable \<^verbatim>\<open>Int\<close> or \<^verbatim>\<open>Float\<close>, so the pointer is the value. The
  error texts of \<^verbatim>\<open>fmt.Errorf\<close> are the constructors of \<open>vm_error\<close>, with the arguments of the
  message. The decimal texts of values are in \<open>Int_Text\<close>
  and \<open>Float_Text\<close>.
\<close>

section \<open>Types\<close>

record T =
  Oid :: u32

definition T_null :: u32 where
  "T_null = 0"

definition T_int :: u32 where
  "T_int = 1"

definition T_bool :: u32 where
  "T_bool = 2"

definition T_float :: u32 where
  "T_float = 3"

definition T_array :: u32 where
  "T_array = 4"

definition T_string :: u32 where
  "T_string = 5"

definition T_timestamp :: u32 where
  "T_timestamp = 6"

definition T_uint8 :: u32 where
  "T_uint8 = 7"

definition T_uint16 :: u32 where
  "T_uint16 = 8"

definition T_uint32 :: u32 where
  "T_uint32 = 9"

definition T_uint64 :: u32 where
  "T_uint64 = 10"

definition T_int8 :: u32 where
  "T_int8 = 11"

definition T_int16 :: u32 where
  "T_int16 = 12"

definition T_int32 :: u32 where
  "T_int32 = 13"

definition T_int64 :: u32 where
  "T_int64 = 14"

definition T_float32 :: u32 where
  "T_float32 = 15"

definition T_float64 :: u32 where
  "T_float64 = 16"

lemmas T_defs =
  T_null_def T_int_def T_bool_def T_float_def T_array_def T_string_def T_timestamp_def T_uint8_def T_uint16_def
  T_uint32_def T_uint64_def T_int8_def T_int16_def T_int32_def T_int64_def T_float32_def T_float64_def

definition types_Null :: T where
  "types_Null = \<lparr>Oid = T_null\<rparr>"

definition types_Bool :: T where
  "types_Bool = \<lparr>Oid = T_bool\<rparr>"

definition types_Array :: T where
  "types_Array = \<lparr>Oid = T_array\<rparr>"

definition types_String :: T where
  "types_String = \<lparr>Oid = T_string\<rparr>"

definition types_Int :: T where
  "types_Int = \<lparr>Oid = T_int\<rparr>"

definition types_Timestamp :: T where
  "types_Timestamp = \<lparr>Oid = T_timestamp\<rparr>"

definition types_Float :: T where
  "types_Float = \<lparr>Oid = T_float\<rparr>"

definition types_Uint8 :: T where
  "types_Uint8 = \<lparr>Oid = T_uint8\<rparr>"

definition types_Uint16 :: T where
  "types_Uint16 = \<lparr>Oid = T_uint16\<rparr>"

definition types_Uint32 :: T where
  "types_Uint32 = \<lparr>Oid = T_uint32\<rparr>"

definition types_Uint64 :: T where
  "types_Uint64 = \<lparr>Oid = T_uint64\<rparr>"

definition types_Int8 :: T where
  "types_Int8 = \<lparr>Oid = T_int8\<rparr>"

definition types_Int16 :: T where
  "types_Int16 = \<lparr>Oid = T_int16\<rparr>"

definition types_Int32 :: T where
  "types_Int32 = \<lparr>Oid = T_int32\<rparr>"

definition types_Int64 :: T where
  "types_Int64 = \<lparr>Oid = T_int64\<rparr>"

definition types_Float32 :: T where
  "types_Float32 = \<lparr>Oid = T_float32\<rparr>"

definition types_Float64 :: T where
  "types_Float64 = \<lparr>Oid = T_float64\<rparr>"

definition SQLString :: "T \<Rightarrow> string run" where
  "SQLString t =
    (if Oid t = T_int then Some ''INT''
     else if Oid t = T_null then Some ''NULL''
     else if Oid t = T_bool then Some ''BOOL''
     else if Oid t = T_timestamp then Some ''TIMESTAMP''
     else if Oid t = T_float then Some ''FLOAT''
     else if Oid t = T_array then Some ''ARRAY''
     else if Oid t = T_string then Some ''STRING''
     else if Oid t = T_uint8 then Some ''UINT8''
     else if Oid t = T_uint16 then Some ''UINT16''
     else if Oid t = T_uint32 then Some ''UINT32''
     else if Oid t = T_uint64 then Some ''UINT64''
     else if Oid t = T_int8 then Some ''INT8''
     else if Oid t = T_int16 then Some ''INT16''
     else if Oid t = T_int32 then Some ''INT32''
     else if Oid t = T_int64 then Some ''INT64''
     else if Oid t = T_float32 then Some ''FLOAT32''
     else if Oid t = T_float64 then Some ''FLOAT64''
     else panic)"

definition T_String :: "T \<Rightarrow> string run" where
  "T_String t = SQLString t"

section \<open>Values\<close>

datatype Value = IntV u64 | FloatV float64

datatype num_error = Syntax_error | Range_error

text \<open>The errors of the engine, one constructor per message.\<close>

datatype vm_error =
    Attribute_not_exist string
  | Not_yet_implemented string T T
  | Must_act_on_attributes
  | Failed_to_find_attribute string
  | Not_in string "string list"
  | Cannot_convert T T
  | Could_not_parse string T num_error

definition NewInt :: "u64 \<Rightarrow> Value" where
  "NewInt v = IntV v"

definition NewFloat :: "float64 \<Rightarrow> Value" where
  "NewFloat v = FloatV v"

fun AsInt :: "Value \<Rightarrow> u64 \<times> bool" where
  "AsInt (IntV t) = (t, True)"
| "AsInt (FloatV _) = (0, False)"

fun AsFloat :: "Value \<Rightarrow> float64 \<times> bool" where
  "AsFloat (FloatV t) = (t, True)"
| "AsFloat (IntV _) = (0, False)"

definition MustBeInt :: "Value \<Rightarrow> u64 run" where
  "MustBeInt v = (let (i, ok) = AsInt v in if \<not> ok then panic else Some i)"

definition MustBeFloat :: "Value \<Rightarrow> float64 run" where
  "MustBeFloat v = (let (f, ok) = AsFloat v in if \<not> ok then panic else Some f)"

fun ResolvedType :: "Value \<Rightarrow> T" where
  "ResolvedType (IntV _) = types_Int"
| "ResolvedType (FloatV _) = types_Float"

fun Value_ReturnType :: "Value \<Rightarrow> u32" where
  "Value_ReturnType (IntV _) = T_int"
| "Value_ReturnType (FloatV _) = T_float"

fun GetInt :: "Value \<Rightarrow> vm_error + u64" where
  "GetInt (IntV i) = Inr i"
| "GetInt v = Inl (Cannot_convert (ResolvedType v) types_Int)"

fun GetFloat :: "Value \<Rightarrow> vm_error + float64" where
  "GetFloat (FloatV f) = Inr f"
| "GetFloat v = Inl (Cannot_convert (ResolvedType v) types_Float)"

fun Value_Size :: "Value \<Rightarrow> nat" where
  "Value_Size (IntV _) = 9"
| "Value_Size (FloatV _) = 9"

fun Value_Attributes :: "Value \<Rightarrow> string list" where
  "Value_Attributes (IntV _) = []"
| "Value_Attributes (FloatV _) = []"

section \<open>Comparison\<close>

definition isInt :: "u32 \<Rightarrow> bool" where
  "isInt typ \<longleftrightarrow> typ = T_int"

definition isFloat :: "u32 \<Rightarrow> bool" where
  "isFloat typ \<longleftrightarrow> typ = T_float"

definition isNum :: "u32 \<Rightarrow> u32 \<Rightarrow> bool" where
  "isNum x y \<longleftrightarrow>
    (if x = T_int \<and> isInt y then True
     else if y = T_int \<and> isInt x then True
     else if x = T_float \<and> isFloat y then True
     else if y = T_float \<and> isFloat x then True
     else False)"

definition Int_Compare :: "u64 \<Rightarrow> Value \<Rightarrow> int run" where
  "Int_Compare x v =
    (case v of
       IntV y \<Rightarrow> Some (if sint x < sint y then - 1 else if sint y < sint x then 1 else 0)
     | _ \<Rightarrow> panic)"

definition Float_Compare :: "float64 \<Rightarrow> Value \<Rightarrow> int run" where
  "Float_Compare x v =
    (case v of
       FloatV y \<Rightarrow>
         Some (if f64_less x y then - 1
               else if f64_less y x then 1
               else if f64_eq x y then 0
               else if is_nan x then (if is_nan y then 0 else - 1)
               else 1)
     | _ \<Rightarrow> panic)"

fun Value_Compare :: "Value \<Rightarrow> Value \<Rightarrow> int run" where
  "Value_Compare (IntV a) v = Int_Compare a v"
| "Value_Compare (FloatV a) v = Float_Compare a v"

definition Compare :: "Value \<Rightarrow> Value \<Rightarrow> int run" where
  "Compare a b =
    (let x = Oid (ResolvedType a); y = Oid (ResolvedType b)
     in if x = y \<or> isNum x y then Value_Compare a b else panic)"

section \<open>Constant columns\<close>

text \<open>
  A column map of Go is an association list without repeated names. \<^verbatim>\<open>range\<close> starts at an
  arbitrary entry; \<open>d\<close> is the number the runtime drew.
\<close>

type_synonym columns = "(string \<times> Value list) list"

definition columns_length :: "nat \<Rightarrow> columns \<Rightarrow> nat" where
  "columns_length d mp = (if mp = [] then 0 else length (snd (mp ! (d mod length mp))))"

fun Value_Eval :: "nat \<Rightarrow> Value \<Rightarrow> columns \<Rightarrow> (vm_error + Value list \<times> u32) run" where
  "Value_Eval d (IntV a) mp = Some (Inr (replicate (columns_length d mp) (IntV a), T_int))"
| "Value_Eval d (FloatV a) mp = Some (Inr (replicate (columns_length d mp) (FloatV a), T_float))"

section \<open>Attribute lists\<close>

text \<open>The loops keep the set \<open>mp\<close> of the names already seen.\<close>

fun Contain_loop :: "string set \<Rightarrow> string list \<Rightarrow> string list \<Rightarrow> vm_error option" where
  "Contain_loop mp [] ys = None"
| "Contain_loop mp (x # xs) ys = (if x \<notin> mp then Some (Not_in x ys) else Contain_loop mp xs ys)"

definition Contain :: "string list \<Rightarrow> string list \<Rightarrow> vm_error option" where
  "Contain xs ys = Contain_loop (set ys) xs ys"

fun merge_loop :: "string set \<Rightarrow> string list \<Rightarrow> string list" where
  "merge_loop mp [] = []"
| "merge_loop mp (x # xs) = (if x \<notin> mp then x # merge_loop (insert x mp) xs else merge_loop mp xs)"

definition MergeAttributes :: "string list \<Rightarrow> string list \<Rightarrow> string list" where
  "MergeAttributes xs ys = (let rs = merge_loop {} xs in rs @ merge_loop (set xs) ys)"

section \<open>What the comparison is\<close>

lemma fman_less:
  assumes "m \<le> 2047 * 2 ^ 52"
  shows "fman m < 2 ^ 2100"
proof -
  have "m div 2 ^ 52 \<le> 2047" using div_le_mono [OF assms, of "2 ^ 52"] by simp
  then have "fexp m \<le> 2046" by (simp add: fexp_def)
  then have "(2::nat) ^ fexp m \<le> 2 ^ 2046" by (rule power_increasing) simp
  moreover have "fsig m \<le> 2 ^ 52 + m mod 2 ^ 52"
    by (cases "m div 2 ^ 52 = 0") (simp_all only: fsig_def refl if_True if_False le_add2 order_refl)
  then have "fsig m < 2 ^ 52 + 2 ^ 52"
    by (rule order.strict_trans1) (simp only: add_less_cancel_left mod_less_divisor zero_less_power zero_less_numeral)
  then have "fsig m < 2 ^ 53" by simp
  ultimately have "fman m < 2 ^ 53 * 2 ^ 2046"
    unfolding fman_def by (intro mult_less_le_imp_less) simp_all
  also have "\<dots> = 2 ^ 2099" by (simp only: power_add [symmetric]) simp
  finally show ?thesis by simp
qed

lemma fval_greater: "\<not> is_nan x \<Longrightarrow> - (2 ^ 2100) < fval x"
proof -
  assume "\<not> is_nan x"
  then have "fman (fmag x) < 2 ^ 2100" by (intro fman_less) (simp add: is_nan_def)
  then have "int (fman (fmag x)) < 2 ^ 2100" by (metis of_nat_less_iff of_nat_numeral of_nat_power)
  then show ?thesis by (simp add: fval_def with_sign_def)
qed

text \<open>
  The number a value is compared by: the integer itself, and for a double its exact value, with
  every NaN below all other values and the two zeros equal.
\<close>

fun sort_key :: "Value \<Rightarrow> int" where
  "sort_key (IntV i) = sint i"
| "sort_key (FloatV f) = (if is_nan f then - (2 ^ 2100) else fval f)"

lemma Int_Compare_key: "Int_Compare x (IntV y) = Some (sgn (sort_key (IntV x) - sort_key (IntV y)))"
  by (simp add: Int_Compare_def)

lemma Float_Compare_key:
  "Float_Compare x (FloatV y) = Some (sgn (sort_key (FloatV x) - sort_key (FloatV y)))"
  using fval_greater [of x] fval_greater [of y]
  by (cases "is_nan x"; cases "is_nan y")
    (simp_all only: Float_Compare_def f64_less_def f64_eq_def sort_key.simps Value.case, auto simp: sgn_if)

lemma oids_differ [simp]: "T_int \<noteq> T_float" "T_float \<noteq> T_int"
  by (simp_all add: T_defs)

lemma ResolvedType_Oid: "Oid (ResolvedType v) = Value_ReturnType v"
  by (cases v) (simp_all add: types_Int_def types_Float_def)

lemma Compare_key:
  "Compare a b =
    (if Value_ReturnType a = Value_ReturnType b then Some (sgn (sort_key a - sort_key b)) else panic)"
  by (cases a; cases b)
    (simp_all only: Compare_def ResolvedType_Oid Let_def Value_Compare.simps Int_Compare_key
      Float_Compare_key Value_ReturnType.simps isNum_def isInt_def isFloat_def oids_differ refl if_True
      if_False simp_thms)

section \<open>What the attribute helpers compute\<close>

lemma Contain_iff [simp]: "Contain xs ys = None \<longleftrightarrow> set xs \<subseteq> set ys"
proof -
  have "Contain_loop mp xs ys = None \<longleftrightarrow> set xs \<subseteq> mp" for mp
    by (induction xs) auto
  then show ?thesis by (simp add: Contain_def)
qed

lemma Contain_not_in: "Contain xs ys = Some e \<Longrightarrow> \<exists>x \<in> set xs. x \<notin> set ys \<and> e = Not_in x ys"
proof -
  have "Contain_loop mp xs ys = Some e \<Longrightarrow> \<exists>x \<in> set xs. x \<notin> mp \<and> e = Not_in x ys" for mp
    by (induction xs) (auto split: if_splits)
  then show "Contain xs ys = Some e \<Longrightarrow> \<exists>x \<in> set xs. x \<notin> set ys \<and> e = Not_in x ys"
    by (simp add: Contain_def)
qed

lemma set_merge_loop [simp]: "set (merge_loop mp xs) = set xs - mp"
  by (induction xs arbitrary: mp) auto

lemma distinct_merge_loop [simp]: "distinct (merge_loop mp xs)"
  by (induction xs arbitrary: mp) auto

lemma merge_loop_id: "distinct xs \<Longrightarrow> set xs \<inter> mp = {} \<Longrightarrow> merge_loop mp xs = xs"
  by (induction xs arbitrary: mp) auto

lemma set_MergeAttributes [simp]: "set (MergeAttributes xs ys) = set xs \<union> set ys"
  by (auto simp: MergeAttributes_def Let_def)

lemma distinct_MergeAttributes [simp]: "distinct (MergeAttributes xs ys)"
  by (auto simp: MergeAttributes_def Let_def)

lemma MergeAttributes_id: "distinct xs \<Longrightarrow> MergeAttributes xs [] = xs"
  by (simp add: MergeAttributes_def merge_loop_id)

lemma columns_length_all:
  assumes "\<And>x c. (x, c) \<in> set mp \<Longrightarrow> length c = n" and "mp = [] \<Longrightarrow> n = 0"
  shows "columns_length d mp = n"
proof (cases "mp = []")
  case False
  then have "mp ! (d mod length mp) \<in> set mp" by simp
  with False assms(1) show ?thesis
    by (metis columns_length_def prod.collapse)
qed (use assms(2) in \<open>simp add: columns_length_def\<close>)

end
