(* ===== verification/Column_Store.thy ===== *)
theory Column_Store
  imports Vm_Value
begin

text \<open>
  The column store of the execution engine: the typed arrays of \<^verbatim>\<open>vm/values/static\<close>, the columns
  of \<^verbatim>\<open>storage/attribute\<close> and the relation of \<^verbatim>\<open>storage\<close>, to which tuples are added a segment at a
  time, one slice per column.

  \<^verbatim>\<open>AddTuples\<close> takes its slices as \<^verbatim>\<open>interface{}\<close>; \<open>column_data\<close> has the two kinds the
  arrays take and anything else. A relation is a pointer, so the operations that change it return
  it. The arrays' \<^verbatim>\<open>Show\<close> and \<^verbatim>\<open>Read\<close> reinterpret memory through \<^verbatim>\<open>unsafe\<close>; they are modelled by
  the bytes at the time of the call, least significant byte first as on the machines Go runs the
  package on, and not by the sharing of memory.
\<close>

definition slice_at :: "'a list \<Rightarrow> int \<Rightarrow> 'a run" where
  "slice_at xs i = (if 0 \<le> i \<and> i < int (length xs) then Some (xs ! nat i) else panic)"

section \<open>Typed arrays\<close>

datatype column_data = Int64s "u64 list" | Float64s "float64 list" | Other_data

record Ints =
  ixs :: "u64 list"

record Floats =
  fxs :: "float64 list"

definition NewInts :: "u64 list \<Rightarrow> Ints" where
  "NewInts vs = \<lparr>ixs = vs\<rparr>"

definition NewFloats :: "float64 list \<Rightarrow> Floats" where
  "NewFloats vs = \<lparr>fxs = vs\<rparr>"

definition Ints_Size :: "Ints \<Rightarrow> nat" where
  "Ints_Size a = length (ixs a) * 8"

definition Floats_Size :: "Floats \<Rightarrow> nat" where
  "Floats_Size a = length (fxs a) * 8"

definition Ints_Count :: "Ints \<Rightarrow> nat" where
  "Ints_Count a = length (ixs a)"

definition Floats_Count :: "Floats \<Rightarrow> nat" where
  "Floats_Count a = length (fxs a)"

text \<open>
  The bytes of an array, and the first \<open>n\<close> words of the memory from an address on. \<^verbatim>\<open>Read\<close> takes
  a byte slice and sets the length of the reinterpreted slice to \<^verbatim>\<open>cnt\<close> words without looking at
  the slice's own length, so \<open>mem\<close> is the slice's bytes and whatever follows them.
\<close>

definition words_bytes :: "u64 list \<Rightarrow> bytes" where
  "words_bytes ws = concat (map put_u64 ws)"

primrec memory_words :: "nat \<Rightarrow> bytes \<Rightarrow> u64 list" where
  "memory_words 0 mem = []"
| "memory_words (Suc n) mem = word_of_nat (le_nat (take 8 mem)) # memory_words n (drop 8 mem)"

definition Ints_Show :: "Ints \<Rightarrow> bytes" where
  "Ints_Show a = words_bytes (ixs a)"

definition Floats_Show :: "Floats \<Rightarrow> bytes" where
  "Floats_Show a = words_bytes (fxs a)"

definition Ints_Read :: "nat \<Rightarrow> bytes \<Rightarrow> Ints \<Rightarrow> Ints" where
  "Ints_Read cnt mem a = a\<lparr>ixs := memory_words cnt mem\<rparr>"

definition Floats_Read :: "nat \<Rightarrow> bytes \<Rightarrow> Floats \<Rightarrow> Floats" where
  "Floats_Read cnt mem a = a\<lparr>fxs := memory_words cnt mem\<rparr>"

definition Ints_Append :: "Ints \<Rightarrow> column_data \<Rightarrow> (vm_error + Ints) run" where
  "Ints_Append a v = (case v of Int64s ys \<Rightarrow> Some (Inr (a\<lparr>ixs := ixs a @ ys\<rparr>)) | _ \<Rightarrow> panic)"

definition Floats_Append :: "Floats \<Rightarrow> column_data \<Rightarrow> (vm_error + Floats) run" where
  "Floats_Append a v = (case v of Float64s ys \<Rightarrow> Some (Inr (a\<lparr>fxs := fxs a @ ys\<rparr>)) | _ \<Rightarrow> panic)"

definition Ints_ValueList :: "Ints \<Rightarrow> Value list" where
  "Ints_ValueList a = map NewInt (ixs a)"

definition Floats_ValueList :: "Floats \<Rightarrow> Value list" where
  "Floats_ValueList a = map NewFloat (fxs a)"

text \<open>The interface \<^verbatim>\<open>values.Values\<close> and its two implementations.\<close>

datatype Values = Ints_values Ints | Floats_values Floats

fun Values_Append :: "Values \<Rightarrow> column_data \<Rightarrow> (vm_error + Values) run" where
  "Values_Append (Ints_values a) v = map_option (map_sum id Ints_values) (Ints_Append a v)"
| "Values_Append (Floats_values a) v = map_option (map_sum id Floats_values) (Floats_Append a v)"

fun ValueList :: "Values \<Rightarrow> Value list" where
  "ValueList (Ints_values a) = Ints_ValueList a"
| "ValueList (Floats_values a) = Floats_ValueList a"

section \<open>Columns\<close>

record attribute =
  a_typ :: u32
  a_vs :: "Values list"

definition attribute_New :: "u32 \<Rightarrow> attribute" where
  "attribute_New t = \<lparr>a_typ = t, a_vs = []\<rparr>"

definition attribute_Read :: "attribute \<Rightarrow> int \<Rightarrow> (vm_error + Value list) run" where
  "attribute_Read a seg = map_option (\<lambda>v. Inr (ValueList v)) (slice_at (a_vs a) seg)"

text \<open>No array for a type other than the two: the interface is nil, and its methods panic.\<close>

definition newValues :: "u32 \<Rightarrow> Values option" where
  "newValues t =
    (if t = T_int then Some (Ints_values (NewInts []))
     else if t = T_float then Some (Floats_values (NewFloats []))
     else None)"

definition attribute_Append :: "attribute \<Rightarrow> column_data \<Rightarrow> (vm_error option \<times> attribute) run" where
  "attribute_Append a v =
    (case newValues (a_typ a) of
       None \<Rightarrow> panic
     | Some nv \<Rightarrow>
         (case Values_Append nv v of
            None \<Rightarrow> panic
          | Some (Inl err) \<Rightarrow> Some (Some err, a)
          | Some (Inr nv') \<Rightarrow> Some (None, a\<lparr>a_vs := a_vs a @ [nv']\<rparr>)))"

section \<open>Relations\<close>

record meta_attribute =
  m_Type :: u32
  m_Name :: string

record Metadata =
  md_Num :: u64
  md_Attrs :: "meta_attribute list"

record relation =
  r_mp :: "string \<rightharpoonup> nat"
  r_md :: Metadata
  r_as :: "attribute list"

fun name_index :: "nat \<Rightarrow> meta_attribute list \<Rightarrow> (string \<rightharpoonup> nat) \<Rightarrow> (string \<rightharpoonup> nat)" where
  "name_index i [] m = m"
| "name_index i (a # rest) m = name_index (Suc i) rest (m(m_Name a \<mapsto> i))"

definition storage_New :: "Metadata \<Rightarrow> relation" where
  "storage_New meta =
    \<lparr>r_mp = name_index 0 (md_Attrs meta) Map.empty, r_md = meta, r_as = map (\<lambda>a. attribute_New (m_Type a)) (md_Attrs meta)\<rparr>"

definition Segments :: "relation \<Rightarrow> u64" where
  "Segments r = md_Num (r_md r)"

definition relation_Attributes :: "relation \<Rightarrow> meta_attribute list" where
  "relation_Attributes r = md_Attrs (r_md r)"

text \<open>The loop of \<^verbatim>\<open>AddTuples\<close> at column \<open>i\<close>: an error stops it with the columns before \<open>i\<close> extended.\<close>

fun add_columns :: "nat \<Rightarrow> column_data list \<Rightarrow> relation \<Rightarrow> (vm_error option \<times> relation) run" where
  "add_columns i [] r = Some (None, r)"
| "add_columns i (t # ts) r =
    do { a \<leftarrow> slice_at (r_as r) (int i);
         res \<leftarrow> attribute_Append a t;
         case res of
           (Some err, a') \<Rightarrow> Some (Some err, r\<lparr>r_as := (r_as r)[i := a']\<rparr>)
         | (None, a') \<Rightarrow> add_columns (Suc i) ts (r\<lparr>r_as := (r_as r)[i := a']\<rparr>) }"

definition AddTuples :: "column_data list \<Rightarrow> relation \<Rightarrow> (vm_error option \<times> relation) run" where
  "AddTuples ts r =
    do { res \<leftarrow> add_columns 0 ts r;
         case res of
           (Some err, r') \<Rightarrow> Some (Some err, r')
         | (None, r') \<Rightarrow> Some (None, r'\<lparr>r_md := (r_md r')\<lparr>md_Num := md_Num (r_md r') + 1\<rparr>\<rparr>) }"

text \<open>\<^verbatim>\<open>r.mp[attr]\<close> is 0 for a name the relation does not have.\<close>

fun select_columns :: "relation \<Rightarrow> string list \<Rightarrow> attribute list run" where
  "select_columns r [] = Some []"
| "select_columns r (attr # attrs) =
    do { a \<leftarrow> slice_at (r_as r) (int (case r_mp r attr of Some i \<Rightarrow> i | None \<Rightarrow> 0));
         rest \<leftarrow> select_columns r attrs;
         Some (a # rest) }"

fun read_columns :: "int \<Rightarrow> attribute list \<Rightarrow> (vm_error + Value list list) run" where
  "read_columns seg [] = Some (Inr [])"
| "read_columns seg (a # rest) =
    do { v \<leftarrow> attribute_Read a seg;
         case v of
           Inl err \<Rightarrow> Some (Inl err)
         | Inr c \<Rightarrow> map_option (map_sum id (\<lambda>cs. c # cs)) (read_columns seg rest) }"

definition relation_Read :: "relation \<Rightarrow> int \<Rightarrow> string list \<Rightarrow> (vm_error + Value list list) run" where
  "relation_Read r seg attrs = select_columns r attrs \<bind> read_columns seg"

section \<open>Arrays and their bytes\<close>

lemma length_words_bytes [simp]: "length (words_bytes ws) = 8 * length ws"
  by (induction ws) (simp_all add: words_bytes_def)

lemma memory_words_bytes [simp, roundtrip]: "memory_words (length ws) (words_bytes ws @ rest) = ws"
  by (induction ws) (simp_all add: words_bytes_def le_nat_put_u64)

lemma length_memory_words [simp]: "length (memory_words n mem) = n"
  by (induction n arbitrary: mem) simp_all

section \<open>What the relation stores\<close>

text \<open>The segments added so far, each a list of slices, are what a relation holds.\<close>

fun data_values :: "column_data \<Rightarrow> Value list" where
  "data_values (Int64s xs) = map IntV xs"
| "data_values (Float64s ys) = map FloatV ys"
| "data_values Other_data = []"

fun data_array :: "column_data \<Rightarrow> Values" where
  "data_array (Float64s ys) = Floats_values (NewFloats ys)"
| "data_array (Int64s xs) = Ints_values (NewInts xs)"
| "data_array Other_data = Ints_values (NewInts [])"

definition fits :: "meta_attribute \<Rightarrow> column_data \<Rightarrow> bool" where
  "fits a t \<longleftrightarrow>
    (case t of Int64s _ \<Rightarrow> m_Type a = T_int | Float64s _ \<Rightarrow> m_Type a = T_float | Other_data \<Rightarrow> False)"

definition push :: "attribute \<Rightarrow> column_data \<Rightarrow> attribute" where
  "push a t = a\<lparr>a_vs := a_vs a @ [data_array t]\<rparr>"

definition stores :: "Metadata \<Rightarrow> column_data list list \<Rightarrow> relation \<Rightarrow> bool" where
  "stores meta bs r \<longleftrightarrow>
    r_mp r = name_index 0 (md_Attrs meta) Map.empty \<and> md_Attrs (r_md r) = md_Attrs meta \<and>
    Segments r = word_of_nat (length bs) \<and>
    map a_typ (r_as r) = map m_Type (md_Attrs meta) \<and>
    (\<forall>i < length (md_Attrs meta). a_vs (r_as r ! i) = map (\<lambda>b. data_array (b ! i)) bs)"

definition column_at :: "Metadata \<Rightarrow> string \<Rightarrow> nat" where
  "column_at meta a = (case name_index 0 (md_Attrs meta) Map.empty a of Some i \<Rightarrow> i | None \<Rightarrow> 0)"

lemma ValueList_data_array: "fits a t \<Longrightarrow> ValueList (data_array t) = data_values t"
  by (cases t)
    (auto simp: fits_def Ints_ValueList_def Floats_ValueList_def NewInts_def NewFloats_def NewInt_def NewFloat_def)

lemma stores_New: "md_Num meta = 0 \<Longrightarrow> stores meta [] (storage_New meta)"
  by (simp add: stores_def storage_New_def Segments_def attribute_New_def comp_def)

lemma attribute_Append_fits:
  "fits m t \<Longrightarrow> a_typ a = m_Type m \<Longrightarrow> attribute_Append a t = Some (None, push a t)"
  by (cases t)
    (auto simp: fits_def attribute_Append_def newValues_def push_def Ints_Append_def Floats_Append_def
      NewInts_def NewFloats_def)

lemma attribute_Append_misfit:
  "\<not> fits m t \<Longrightarrow> a_typ a = m_Type m \<Longrightarrow> attribute_Append a t = panic"
  by (cases t)
    (auto simp: fits_def attribute_Append_def newValues_def Ints_Append_def Floats_Append_def
      split: option.splits)

lemma slice_at_length: "slice_at (ps @ q # qs) (int (length ps)) = Some q"
  by (simp add: slice_at_def)

lemma add_columns_fits:
  assumes "list_all2 fits ms ts" and "r_as r = ps @ qs" and "map a_typ qs = map m_Type ms"
  shows "add_columns (length ps) ts r = Some (None, r\<lparr>r_as := ps @ map2 push qs ts\<rparr>)"
  using assms
proof (induction arbitrary: ps qs r rule: list_all2_induct)
  case Nil
  then show ?case by simp
next
  case (Cons m ms t ts)
  then obtain q qs' where q: "qs = q # qs'" "a_typ q = m_Type m" "map a_typ qs' = map m_Type ms"
    by auto
  have "add_columns (length (ps @ [push q t])) ts (r\<lparr>r_as := (ps @ [push q t]) @ qs'\<rparr>) =
      Some (None, r\<lparr>r_as := (ps @ [push q t]) @ map2 push qs' ts\<rparr>)"
    using Cons.IH [of "r\<lparr>r_as := (ps @ [push q t]) @ qs'\<rparr>" "ps @ [push q t]" qs'] q by simp
  then show ?case
    using Cons.prems(1) q
    by (simp add: slice_at_length attribute_Append_fits [OF Cons.hyps(1)] list_update_append)
qed

lemma AddTuples_stores:
  assumes "stores meta bs r" and "list_all2 fits (md_Attrs meta) b"
  shows "\<exists>r'. AddTuples b r = Some (None, r') \<and> stores meta (bs @ [b]) r'"
proof -
  let ?r = "r\<lparr>r_as := map2 push (r_as r) b\<rparr>"
  let ?r' = "?r\<lparr>r_md := (r_md r)\<lparr>md_Num := md_Num (r_md r) + 1\<rparr>\<rparr>"
  have t: "map a_typ (r_as r) = map m_Type (md_Attrs meta)" using assms(1) by (simp add: stores_def)
  then have l: "length (r_as r) = length (md_Attrs meta)" by (metis length_map)
  have lb: "length b = length (md_Attrs meta)" using assms(2) by (simp add: list_all2_lengthD)
  have "add_columns 0 b r = Some (None, ?r)"
    using add_columns_fits [OF assms(2), of r "[]" "r_as r"] t by simp
  then have "AddTuples b r = Some (None, ?r')" by (simp add: AddTuples_def)
  moreover have "map a_typ (r_as ?r') = map m_Type (md_Attrs meta)"
    using l lb by (simp add: t [symmetric]) (rule nth_equalityI; simp add: push_def)
  then have "stores meta (bs @ [b]) ?r'"
    using assms(1) l lb by (simp add: stores_def push_def Segments_def)
  ultimately show ?thesis by blast
qed

lemma column_at_bound: "md_Attrs meta \<noteq> [] \<Longrightarrow> column_at meta a < length (md_Attrs meta)"
proof -
  have "name_index i ms m a = Some j \<Longrightarrow> (\<forall>j. m a = Some j \<longrightarrow> j < i + length ms) \<Longrightarrow> j < i + length ms"
    for i ms m j
    by (induction i ms m rule: name_index.induct) (auto split: if_splits)
  from this [of 0 "md_Attrs meta" Map.empty] show "md_Attrs meta \<noteq> [] \<Longrightarrow> column_at meta a < length (md_Attrs meta)"
    by (auto simp: column_at_def split: option.splits)
qed

lemma select_columns_stores:
  assumes "stores meta bs r" and "md_Attrs meta \<noteq> []"
  shows "select_columns r attrs = Some (map (\<lambda>a. r_as r ! column_at meta a) attrs)"
proof -
  have "column_at meta a < length (md_Attrs meta)" for a by (rule column_at_bound [OF assms(2)])
  moreover have "length (r_as r) = length (md_Attrs meta)"
    using assms(1) by (metis stores_def length_map)
  ultimately have "slice_at (r_as r) (int (column_at meta a)) = Some (r_as r ! column_at meta a)" for a
    by (simp add: slice_at_def)
  moreover have "r_mp r = name_index 0 (md_Attrs meta) Map.empty" using assms(1) by (simp add: stores_def)
  ultimately show ?thesis
    by (induction attrs) (simp_all add: column_at_def)
qed

lemma name_index_other: "a \<notin> m_Name ` set ms \<Longrightarrow> name_index i ms m a = m a"
  by (induction i ms m rule: name_index.induct) auto

lemma name_index_nth:
  "distinct (map m_Name ms) \<Longrightarrow> j < length ms \<Longrightarrow> name_index i ms m (m_Name (ms ! j)) = Some (i + j)"
proof (induction i ms m arbitrary: j rule: name_index.induct)
  case (2 i a rest m)
  then show ?case by (cases j) (simp_all add: name_index_other del: fun_upd_apply, simp)
qed simp

lemma column_at_name:
  "distinct (map m_Name (md_Attrs meta)) \<Longrightarrow> i < length (md_Attrs meta) \<Longrightarrow>
    column_at meta (m_Name (md_Attrs meta ! i)) = i"
  by (simp add: column_at_def name_index_nth)

lemma column_at_unknown: "a \<notin> m_Name ` set (md_Attrs meta) \<Longrightarrow> column_at meta a = 0"
  by (simp add: column_at_def name_index_other)

lemma relation_Read_stores:
  assumes r: "stores meta bs r" and ne: "md_Attrs meta \<noteq> []"
    and bs: "list_all (list_all2 fits (md_Attrs meta)) bs" and seg: "seg < length bs"
  shows "relation_Read r (int seg) attrs =
    Some (Inr (map (\<lambda>a. data_values (bs ! seg ! column_at meta a)) attrs))"
proof -
  have "attribute_Read (r_as r ! i) (int seg) = Some (Inr (data_values (bs ! seg ! i)))"
    if i: "i < length (md_Attrs meta)" for i
  proof -
    have "a_vs (r_as r ! i) = map (\<lambda>b. data_array (b ! i)) bs" using r i by (simp add: stores_def)
    moreover have "list_all2 fits (md_Attrs meta) (bs ! seg)" using bs seg by (simp add: list_all_length)
    then have "fits (md_Attrs meta ! i) (bs ! seg ! i)" using i by (rule list_all2_nthD)
    ultimately show ?thesis
      using seg by (simp add: attribute_Read_def slice_at_def ValueList_data_array)
  qed
  then have "attribute_Read (r_as r ! column_at meta a) (int seg) =
      Some (Inr (data_values (bs ! seg ! column_at meta a)))" for a
    using column_at_bound [OF ne] by blast
  then have "read_columns (int seg) (map (\<lambda>a. r_as r ! column_at meta a) attrs) =
      Some (Inr (map (\<lambda>a. data_values (bs ! seg ! column_at meta a)) attrs))"
    by (induction attrs) simp_all
  then show ?thesis
    by (simp add: relation_Read_def select_columns_stores [OF r ne])
qed

text \<open>Adding segments one after another.\<close>

fun add_segments :: "column_data list list \<Rightarrow> relation \<Rightarrow> (vm_error option \<times> relation) run" where
  "add_segments [] r = Some (None, r)"
| "add_segments (b # bs) r =
    do { res \<leftarrow> AddTuples b r;
         case res of (Some err, r') \<Rightarrow> Some (Some err, r') | (None, r') \<Rightarrow> add_segments bs r' }"

lemma add_segments_stores:
  "stores meta done' r \<Longrightarrow> list_all (list_all2 fits (md_Attrs meta)) bs \<Longrightarrow>
    \<exists>r'. add_segments bs r = Some (None, r') \<and> stores meta (done' @ bs) r'"
proof (induction bs arbitrary: done' r)
  case (Cons b bs)
  then obtain r1 where "AddTuples b r = Some (None, r1)" "stores meta (done' @ [b]) r1"
    using AddTuples_stores [of meta done' r b] by auto
  with Cons.IH [of "done' @ [b]" r1] Cons.prems(2) show ?case by simp
qed simp

end
