(* ===== verification/Query_Ops.thy ===== *)
theory Query_Ops
  imports Extend Column_Store
begin

text \<open>
  The operators of a query (\<^verbatim>\<open>vm/op\<close>): the relation of \<^verbatim>\<open>op/block/relation\<close>, which hands out one
  segment of a stored relation once, and the projection of \<^verbatim>\<open>op/origin/projection\<close>, which
  evaluates named expressions over what the operator below it reads. An operator is a
  pointer to a struct that \<^verbatim>\<open>Read\<close> changes, so \<^verbatim>\<open>Read\<close> returns the changed operator; a
  Go map that may be nil is an option of the column map.
\<close>

section \<open>Operators\<close>

record Named =
  Alias :: string
  expr :: Extend

text \<open>
  The implementations of the interface \<^verbatim>\<open>op.OP\<close>: a relation operator (its segment and the
  relation, nil once read) and a projection (whether it was checked, the operator below, its
  expressions).
\<close>

datatype OP =
    Relation int "relation option"
  | Projection bool OP "Named list"

definition relation_New :: "int \<Rightarrow> relation \<Rightarrow> OP" where
  "relation_New sg r = Relation sg (Some r)"

definition projection_New :: "OP \<Rightarrow> Named list \<Rightarrow> OP" where
  "projection_New prev es = Projection False prev es"

primrec OP_Name :: "OP \<Rightarrow> string" where
  "OP_Name (Relation sg r) = ''R''"
| "OP_Name (Projection chk prev es) = OP_Name prev"

definition output_name :: "Named \<Rightarrow> string" where
  "output_name e = (case expr e of Attribute t n \<Rightarrow> if Alias e = [] then n else Alias e | _ \<Rightarrow> Alias e)"

definition aliasList :: "Named list \<Rightarrow> string list" where
  "aliasList es = map output_name es"

definition projection_Attributes :: "Named list \<Rightarrow> meta_attribute list" where
  "projection_Attributes es =
    (let ns = aliasList es
     in map (\<lambda>(n, e). \<lparr>m_Type = Extend_ReturnType (expr e), m_Name = n\<rparr>) (zip ns es))"

primrec OP_Attributes :: "OP \<Rightarrow> meta_attribute list run" where
  "OP_Attributes (Relation sg r) = (case r of None \<Rightarrow> panic | Some r \<Rightarrow> Some (relation_Attributes r))"
| "OP_Attributes (Projection chk prev es) = Some (projection_Attributes es)"

section \<open>The helpers of the projection\<close>

definition attributeList :: "Named list \<Rightarrow> string list" where
  "attributeList es = merge_loop {} (concat (map (\<lambda>e. Attributes (expr e)) es))"

definition subExtend :: "Named list \<Rightarrow> string list \<Rightarrow> Named list" where
  "subExtend es attrs = filter (\<lambda>e. output_name e \<in> set attrs) es"

fun missing_attribute :: "string list \<Rightarrow> string set \<Rightarrow> vm_error option" where
  "missing_attribute [] have = None"
| "missing_attribute (a # rest) have =
    (if a \<notin> have then Some (Failed_to_find_attribute a) else missing_attribute rest have)"

definition check :: "OP \<Rightarrow> Named list \<Rightarrow> string list \<Rightarrow> vm_error option run" where
  "check prev es attrs =
    (if \<exists>e \<in> set es. length (Attributes (expr e)) \<le> 0 then Some (Some Must_act_on_attributes)
     else do { below \<leftarrow> OP_Attributes prev;
               Some (missing_attribute attrs (m_Name ` set below)) })"

text \<open>\<open>rq[name] = append(rq[name], vs...)\<close>, for each expression in turn.\<close>

definition append_column :: "string \<Rightarrow> Value list \<Rightarrow> columns \<Rightarrow> columns" where
  "append_column n vs rq =
    AList.update n ((case map_of rq n of Some old \<Rightarrow> old | None \<Rightarrow> []) @ vs) rq"

fun eval_extends ::
  "nat \<Rightarrow> (nat list \<Rightarrow> nat) \<Rightarrow> Named list \<Rightarrow> columns \<Rightarrow> columns \<Rightarrow> (vm_error + columns) run" where
  "eval_extends i d [] mp rq = Some (Inr rq)"
| "eval_extends i d (e # es) mp rq =
    do { res \<leftarrow> Eval (\<lambda>p. d (Suc i # p)) (expr e) mp;
         case res of
           Inl err \<Rightarrow> Some (Inl err)
         | Inr (vs, t) \<Rightarrow> eval_extends (Suc i) d es mp (append_column (output_name e) vs rq) }"

section \<open>Read\<close>

text \<open>\<open>rp[attr] = vs[i]\<close>, for each requested attribute.\<close>

definition block_map :: "string list \<Rightarrow> Value list list \<Rightarrow> columns" where
  "block_map attrs vss = fold (\<lambda>(a, v). AList.update a v) (zip attrs vss) []"

definition block_Read ::
  "int \<Rightarrow> relation option \<Rightarrow> string list \<Rightarrow> ((vm_error + columns option) \<times> OP) run" where
  "block_Read sg r attrs =
    (case r of
       None \<Rightarrow> Some (Inr None, Relation sg None)
     | Some rel \<Rightarrow>
         do { res \<leftarrow> relation_Read rel sg attrs;
              Some (case res of
                      Inl err \<Rightarrow> Inl err
                    | Inr vss \<Rightarrow> Inr (Some (block_map attrs vss)), Relation sg None) })"

text \<open>The checks of the first \<^verbatim>\<open>Read\<close>; \<^verbatim>\<open>isCheck\<close> is set when they pass.\<close>

definition first_check :: "OP \<Rightarrow> Named list \<Rightarrow> string list \<Rightarrow> string list \<Rightarrow> vm_error option run" where
  "first_check prev es attrs below =
    do { c \<leftarrow> check prev es below;
         Some (case c of Some err \<Rightarrow> Some err | None \<Rightarrow> Contain attrs (aliasList es)) }"

text \<open>The column map the operator below returned, after the test for an empty one.\<close>

definition project ::
  "(nat list \<Rightarrow> nat) \<Rightarrow> Named list \<Rightarrow> string list \<Rightarrow> columns option \<Rightarrow> (vm_error + columns option) run" where
  "project d es attrs res =
    (case res of
       None \<Rightarrow> Some (Inr None)
     | Some mp \<Rightarrow>
         (case attrs of
            [] \<Rightarrow> panic
          | a # _ \<Rightarrow>
              if (case map_of mp a of Some c \<Rightarrow> c | None \<Rightarrow> []) = [] then Some (Inr None)
              else map_option (map_sum id Some) (eval_extends 0 d es mp [])))"

primrec OP_Read ::
  "(nat list \<Rightarrow> nat) \<Rightarrow> OP \<Rightarrow> string list \<Rightarrow> ((vm_error + columns option) \<times> OP) run" where
  "OP_Read d (Relation sg r) attrs = block_Read sg r attrs"
| "OP_Read d (Projection isCheck prev es0) attrs0 =
    (let attrs = MergeAttributes attrs0 [];
         es = subExtend es0 attrs;
         below = attributeList es
     in do { c \<leftarrow> (if \<not> isCheck then first_check prev es0 attrs below else Some None);
             case c of
               Some err \<Rightarrow> Some (Inl err, Projection isCheck prev es0)
             | None \<Rightarrow>
                 do { (res, prev') \<leftarrow> OP_Read (\<lambda>p. d (0 # p)) prev below;
                      case res of
                        Inl err \<Rightarrow> Some (Inl err, Projection True prev' es0)
                      | Inr mp \<Rightarrow>
                          do { rq \<leftarrow> project d es attrs mp;
                               Some (rq, Projection True prev' es0) } } })"

end
