(* ===== verification/Extend_Typing.thy ===== *)
theory Extend_Typing
  imports Extend
begin

text \<open>
  The typing of expressions and what it says of their evaluation. \<open>expr_type\<close> reads the operator
  table: an expression over the attributes \<open>S\<close> has a type, or the error its evaluation stops
  with. \<open>denote\<close> is the value of an expression at one row.
\<close>

section \<open>Typing\<close>

definition op_type :: "int \<Rightarrow> u32 \<Rightarrow> u32 \<Rightarrow> u32 option" where
  "op_type op l r =
    (if op \<noteq> Plus \<and> op \<noteq> Minus then None
     else if l = T_int \<and> r = T_int then Some T_int
     else if l = T_int \<and> r = T_float \<or> l = T_float \<and> r = T_int then Some T_float
     else None)"

primrec expr_type :: "string set \<Rightarrow> Extend \<Rightarrow> vm_error + u32" where
  "expr_type S (BinaryExtend op l r) =
    (case expr_type S l of
       Inl err \<Rightarrow> Inl err
     | Inr lt \<Rightarrow>
         (case expr_type S r of
            Inl err \<Rightarrow> Inl err
          | Inr rt \<Rightarrow>
              (case op_type op lt rt of
                 Some t \<Rightarrow> Inr t
               | None \<Rightarrow> Inl (Not_yet_implemented (if op = Plus then ''+'' else ''-'')
                   \<lparr>Oid = lt\<rparr> \<lparr>Oid = rt\<rparr>))))"
| "expr_type S (Attribute t n) = (if n \<in> S then Inr t else Inl (Attribute_not_exist n))"
| "expr_type S (Constant v) = Inr (Value_ReturnType v)"

definition column :: "nat \<Rightarrow> u32 \<Rightarrow> Value list \<Rightarrow> bool" where
  "column N t vs \<longleftrightarrow> length vs = N \<and> (\<forall>v \<in> set vs. Value_ReturnType v = t)"

definition uniform :: "nat \<Rightarrow> columns \<Rightarrow> bool" where
  "uniform N mp \<longleftrightarrow> (\<forall>(n, c) \<in> set mp. length c = N) \<and> (mp = [] \<longrightarrow> N = 0)"

text \<open>The operators of \<open>e\<close> exist, and the columns it names hold values of the types it gives them.\<close>

primrec conforms :: "nat \<Rightarrow> columns \<Rightarrow> Extend \<Rightarrow> bool" where
  "conforms N mp (BinaryExtend op l r) \<longleftrightarrow>
    (op = Plus \<or> op = Minus) \<and> conforms N mp l \<and> conforms N mp r"
| "conforms N mp (Attribute t n) \<longleftrightarrow>
    (case map_of mp n of Some c \<Rightarrow> column N t c | None \<Rightarrow> True)"
| "conforms N mp (Constant v) \<longleftrightarrow> True"

section \<open>The value at a row\<close>

fun row_op :: "int \<Rightarrow> Value \<Rightarrow> Value \<Rightarrow> Value" where
  "row_op op (IntV x) (IntV y) = IntV (if op = Plus then x + y else x - y)"
| "row_op op (IntV x) (FloatV y) =
    FloatV (if op = Plus then f64_add (f64_of_int x) y else f64_sub (f64_of_int x) y)"
| "row_op op (FloatV x) (IntV y) =
    FloatV (if op = Plus then f64_add x (f64_of_int y) else f64_sub x (f64_of_int y))"
| "row_op op (FloatV x) (FloatV y) = FloatV (if op = Plus then f64_add x y else f64_sub x y)"

primrec denote :: "Extend \<Rightarrow> (string \<Rightarrow> Value) \<Rightarrow> Value" where
  "denote (BinaryExtend op l r) \<rho> = row_op op (denote l \<rho>) (denote r \<rho>)"
| "denote (Attribute t n) \<rho> = \<rho> n"
| "denote (Constant v) \<rho> = v"

definition row :: "columns \<Rightarrow> nat \<Rightarrow> string \<Rightarrow> Value" where
  "row mp i n = the (map_of mp n) ! i"

section \<open>The operator table\<close>

lemma return_type_T_int [simp]: "Value_ReturnType v = T_int \<longleftrightarrow> (\<exists>i. v = IntV i)"
  by (cases v) simp_all

lemma return_type_T_float [simp]: "Value_ReturnType v = T_float \<longleftrightarrow> (\<exists>f. v = FloatV f)"
  by (cases v) simp_all

lemma Plus_not_Minus [simp]: "Plus \<noteq> Minus" "Minus \<noteq> Plus"
  by (simp_all add: Plus_def Minus_def)

lemmas op_fn_defs =
  plus_int_int_def plus_int_float_def plus_float_int_def
  minus_int_int_def minus_int_float_def minus_float_int_def
  MustBeInt_def MustBeFloat_def NewInt_def NewFloat_def

lemma each_total:
  "list_all2 (\<lambda>a b. f a b = Some (g a b)) as bs \<Longrightarrow> each f as bs = Some (map2 g as bs)"
  by (induction rule: list_all2_induct) simp_all

lemma each_short: "length bs < length as \<Longrightarrow> each f as bs = panic"
  by (induction f as bs rule: each.induct) auto

text \<open>Each entry of the table applies the row operation, and its declared type is right.\<close>

definition implements :: "int \<Rightarrow> u32 \<Rightarrow> u32 \<Rightarrow> u32 \<Rightarrow> (Value \<Rightarrow> Value \<Rightarrow> Value run) \<Rightarrow> bool" where
  "implements op l r t f \<longleftrightarrow>
    (\<forall>a b. Value_ReturnType a = l \<and> Value_ReturnType b = r \<longrightarrow>
      f a b = Some (row_op op a b) \<and> Value_ReturnType (row_op op a b) = t)"

lemma table_implements:
  "implements Plus T_int T_int T_int plus_int_int"
  "implements Plus T_int T_float T_float plus_int_float"
  "implements Plus T_float T_int T_float plus_float_int"
  "implements Minus T_int T_int T_int minus_int_int"
  "implements Minus T_int T_float T_float minus_int_float"
  "implements Minus T_float T_int T_float minus_float_int"
  by (auto simp: implements_def op_fn_defs)

lemma find_op_row:
  assumes "op_type op l r = Some t"
  obtains o' f where "find_op op l r = Some o'" and "ReturnType o' = t" and "Fn o' = bin_fn f"
    and "implements op l r t f"
proof -
  have "\<exists>o' f. find_op op l r = Some o' \<and> ReturnType o' = t \<and> Fn o' = bin_fn f \<and> implements op l r t f"
    using assms
    by (auto simp: op_type_def find_op_def BinOps_def PlusOps_def MinusOps_def binaryCheck_def
        intro: table_implements split: if_splits)
  with that show ?thesis by blast
qed

lemma find_op_None: "op_type op l r = None \<Longrightarrow> find_op op l r = None"
  by (auto simp: op_type_def find_op_def BinOps_def PlusOps_def MinusOps_def binaryCheck_def
      split: if_splits)

section \<open>One operator on two columns\<close>

lemma column_nth: "column N t vs \<Longrightarrow> i < N \<Longrightarrow> Value_ReturnType (vs ! i) = t"
  by (simp add: column_def)

lemma BinaryEval_typed:
  assumes op: "op_type op l r = Some t" and as: "column N l as" and bs: "column N r bs"
  shows "BinaryEval op l r as bs = Some (Inr (map2 (row_op op) as bs, t))"
    and "column N t (map2 (row_op op) as bs)"
proof -
  obtain o' f where o: "find_op op l r = Some o'" "ReturnType o' = t" "Fn o' = bin_fn f"
    and f: "implements op l r t f" using find_op_row [OF op] by blast
  have "list_all2 (\<lambda>a b. f a b = Some (row_op op a b)) as bs"
    using as bs f by (auto simp: list_all2_conv_all_nth column_def implements_def)
  then have "each f as bs = Some (map2 (row_op op) as bs)" by (rule each_total)
  then show "BinaryEval op l r as bs = Some (Inr (map2 (row_op op) as bs, t))"
    by (simp add: BinaryEval_def o bin_fn_def)
  show "column N t (map2 (row_op op) as bs)"
    using as bs f by (fastforce simp: column_def implements_def dest: set_zip_leftD set_zip_rightD)
qed

lemma BinaryEval_untyped:
  assumes "op_type op l r = None" and "op = Plus \<or> op = Minus"
  shows "BinaryEval op l r as bs =
    Some (Inl (Not_yet_implemented (if op = Plus then ''+'' else ''-'') \<lparr>Oid = l\<rparr> \<lparr>Oid = r\<rparr>))"
  using assms by (auto simp: BinaryEval_def find_op_None OpName_def)

text \<open>Outside the table there is no name to report, and a right column that is too short is no error value either.\<close>

lemma BinaryEval_unknown: "op \<noteq> Plus \<Longrightarrow> op \<noteq> Minus \<Longrightarrow> BinaryEval op l r as bs = panic"
  by (simp add: BinaryEval_def find_op_def BinOps_def OpName_def)

lemma BinaryEval_short:
  assumes "op_type op l r = Some t" and "length bs < length as"
  shows "BinaryEval op l r as bs = panic"
proof -
  obtain o' f where "find_op op l r = Some o'" "Fn o' = bin_fn f" using find_op_row [OF assms(1)] by blast
  with assms(2) show ?thesis by (simp add: BinaryEval_def bin_fn_def each_short)
qed

section \<open>Evaluation follows the typing, row by row\<close>

definition eval_spec :: "nat \<Rightarrow> columns \<Rightarrow> Extend \<Rightarrow> vm_error + Value list \<times> u32" where
  "eval_spec N mp e =
    (case expr_type (fst ` set mp) e of
       Inl err \<Rightarrow> Inl err
     | Inr t \<Rightarrow> Inr (map (\<lambda>i. denote e (row mp i)) [0..<N], t))"

lemma map2_rows: "map2 f (map g [0..<N]) (map h [0..<N]) = map (\<lambda>i. f (g i) (h i)) [0..<N]"
  by (simp add: zip_map_map zip_same_conv_map comp_def)

lemma Value_Eval_replicate:
  "Value_Eval n v mp = Some (Inr (replicate (columns_length n mp) v, Value_ReturnType v))"
  by (cases v) simp_all

lemma Eval_rows:
  assumes "uniform N mp" and "conforms N mp e"
  shows "Eval d e mp = Some (eval_spec N mp e)"
    and "expr_type (fst ` set mp) e = Inr t \<Longrightarrow> column N t (map (\<lambda>i. denote e (row mp i)) [0..<N])"
proof -
  have "Eval d e mp = Some (eval_spec N mp e) \<and>
    (\<forall>t. expr_type (fst ` set mp) e = Inr t \<longrightarrow> column N t (map (\<lambda>i. denote e (row mp i)) [0..<N]))"
    using assms(2)
  proof (induction e arbitrary: d)
    case (BinaryExtend op l r)
    then have known: "op = Plus \<or> op = Minus" by simp
    show ?case
    proof (cases "expr_type (fst ` set mp) l")
      case (Inl err)
      with BinaryExtend show ?thesis by (simp add: eval_spec_def)
    next
      case l: (Inr lt)
      show ?thesis
      proof (cases "expr_type (fst ` set mp) r")
        case (Inl err)
        with l BinaryExtend show ?thesis by (simp add: eval_spec_def)
      next
        case r: (Inr rt)
        have cols: "column N lt (map (\<lambda>i. denote l (row mp i)) [0..<N])"
          "column N rt (map (\<lambda>i. denote r (row mp i)) [0..<N])"
          using BinaryExtend l r by auto
        show ?thesis
        proof (cases "op_type op lt rt")
          case None
          with known l r BinaryExtend show ?thesis
            by (simp add: eval_spec_def BinaryEval_untyped)
        next
          case (Some t)
          note b = BinaryEval_typed [OF Some cols, unfolded map2_rows]
          with Some l r BinaryExtend show ?thesis by (simp add: eval_spec_def)
        qed
      qed
    qed
  next
    case (Attribute t n)
    show ?case
    proof (cases "map_of mp n")
      case None
      then have "n \<notin> fst ` set mp" by (simp add: map_of_eq_None_iff)
      with None show ?thesis by (simp add: eval_spec_def Attribute_Eval_def)
    next
      case (Some c)
      then have "n \<in> fst ` set mp" by (force dest: map_of_SomeD)
      moreover have "map (\<lambda>i. row mp i n) [0..<N] = c"
        using Attribute Some map_nth [of c] by (auto simp: row_def column_def)
      ultimately show ?thesis
        using Attribute Some by (simp add: eval_spec_def Attribute_Eval_def)
    qed
  next
    case (Constant v)
    have "columns_length (d []) mp = N"
      using assms(1) by (intro columns_length_all) (auto simp: uniform_def)
    then show ?case
      by (auto simp: eval_spec_def Value_Eval_replicate map_replicate_const column_def)
  qed
  then show "Eval d e mp = Some (eval_spec N mp e)"
    and "expr_type (fst ` set mp) e = Inr t \<Longrightarrow> column N t (map (\<lambda>i. denote e (row mp i)) [0..<N])"
    by blast+
qed

section \<open>ReturnType\<close>

text \<open>
  \<^verbatim>\<open>ReturnType\<close> computes the type another way. It agrees with the evaluation unless an operator
  has a float on its left and an integer on its right.
\<close>

primrec float_on_left :: "string set \<Rightarrow> Extend \<Rightarrow> bool" where
  "float_on_left S (BinaryExtend op l r) \<longleftrightarrow>
    expr_type S l = Inr T_float \<and> expr_type S r = Inr T_int \<or> float_on_left S l \<or> float_on_left S r"
| "float_on_left S (Attribute t n) \<longleftrightarrow> False"
| "float_on_left S (Constant v) \<longleftrightarrow> False"

lemma returnType_op_type:
  "op_type op l r = Some t \<Longrightarrow> returnType l r = (if l = T_float \<and> r = T_int then T_int else t)"
  by (auto simp: op_type_def returnType_def split: if_splits)

lemma ReturnType_agrees:
  "expr_type S e = Inr t \<Longrightarrow> \<not> float_on_left S e \<Longrightarrow> Extend_ReturnType e = t"
proof (induction e arbitrary: t)
  case (BinaryExtend op l r)
  then obtain lt rt where "expr_type S l = Inr lt" "expr_type S r = Inr rt" "op_type op lt rt = Some t"
    by (auto split: sum.splits option.splits)
  with BinaryExtend show ?case
    by (auto simp: returnType_op_type op_type_def split: if_splits)
qed (auto split: if_splits)

end
