(* ===== verification/Query_Rows.thy ===== *)
theory Query_Rows
  imports Query_Ops Extend_Typing
begin

text \<open>
  What a query over a stored relation reads: the column map of a segment, the columns a
  projection builds from it, and the two ways a projection returns nothing (the relation
  was read before, or the first requested name is no column of the operator below).
\<close>

section \<open>Column maps\<close>

lemma update_new: "k \<notin> fst ` set ps \<Longrightarrow> AList.update k v ps = ps @ [(k, v)]"
  by (induction ps) auto

lemma fold_update_new:
  "distinct ks \<Longrightarrow> length vs = length ks \<Longrightarrow> set ks \<inter> fst ` set ps = {} \<Longrightarrow>
    fold (\<lambda>(k, v). AList.update k v) (zip ks vs) ps = ps @ zip ks vs"
proof (induction ks arbitrary: vs ps)
  case (Cons k ks)
  then obtain v vs' where "vs = v # vs'" by (cases vs) auto
  with Cons show ?case by (simp add: update_new)
qed simp

lemma block_map_zip: "distinct attrs \<Longrightarrow> length vss = length attrs \<Longrightarrow> block_map attrs vss = zip attrs vss"
  by (simp add: block_map_def fold_update_new)

text \<open>The columns a relation's segment \<open>b\<close> has for the names \<open>attrs\<close>.\<close>

definition segment_map :: "Metadata \<Rightarrow> column_data list \<Rightarrow> string list \<Rightarrow> columns" where
  "segment_map meta b attrs = map (\<lambda>a. (a, data_values (b ! column_at meta a))) attrs"

lemma block_Read_stores:
  assumes "stores meta bs r" "md_Attrs meta \<noteq> []" "list_all (list_all2 fits (md_Attrs meta)) bs"
    and "seg < length bs" and "distinct attrs"
  shows "block_Read (int seg) (Some r) attrs =
    Some (Inr (Some (segment_map meta (bs ! seg) attrs)), Relation (int seg) None)"
proof -
  have "zip attrs (map f attrs) = map (\<lambda>a. (a, f a)) attrs" for f :: "string \<Rightarrow> Value list"
    by (simp add: zip_map2 zip_same_conv_map)
  then show ?thesis
    using assms by (simp add: block_Read_def relation_Read_stores block_map_zip segment_map_def)
qed

lemma block_Read_again: "block_Read sg None attrs = Some (Inr None, Relation sg None)"
  by (simp add: block_Read_def)

lemma Value_Attributes_Nil [simp]: "Value_Attributes v = []"
  by (cases v) simp_all

section \<open>Typing over part of the attributes\<close>

lemma expr_type_UNIV: "set (Attributes e) \<subseteq> S \<Longrightarrow> expr_type S e = expr_type UNIV e"
  by (induction e) (auto split: sum.splits)

lemma set_attributeList: "set (attributeList es) = (\<Union>e \<in> set es. set (Attributes (expr e)))"
  by (simp add: attributeList_def)

lemma distinct_attributeList [simp]: "distinct (attributeList es)"
  by (simp add: attributeList_def)

section \<open>The columns of a projection\<close>

definition row_column :: "nat \<Rightarrow> columns \<Rightarrow> Named \<Rightarrow> Value list" where
  "row_column N mp e = map (\<lambda>i. denote (expr e) (row mp i)) [0..<N]"

lemma Eval_row_column:
  assumes "uniform N mp" "conforms N mp e" "set (Attributes e) \<subseteq> fst ` set mp" "expr_type UNIV e = Inr t"
  shows "Eval d e mp = Some (Inr (map (\<lambda>i. denote e (row mp i)) [0..<N], t))"
  using Eval_rows(1) [OF assms(1,2)] expr_type_UNIV [OF assms(3)] assms(4)
  by (simp add: eval_spec_def)

definition evaluable :: "nat \<Rightarrow> columns \<Rightarrow> Named \<Rightarrow> bool" where
  "evaluable N mp e \<longleftrightarrow>
    conforms N mp (expr e) \<and> set (Attributes (expr e)) \<subseteq> fst ` set mp \<and> (\<exists>t. expr_type UNIV (expr e) = Inr t)"

lemma eval_extends_rows:
  assumes "uniform N mp" and "list_all (evaluable N mp) es"
    and "distinct (aliasList es)" and "set (aliasList es) \<inter> fst ` set rq = {}"
  shows "eval_extends i d es mp rq =
    Some (Inr (rq @ map (\<lambda>e. (output_name e, row_column N mp e)) es))"
  using assms(2-)
proof (induction es arbitrary: i rq)
  case (Cons e es)
  from Cons.prems obtain t where
    ev: "Eval (\<lambda>p. d (Suc i # p)) (expr e) mp = Some (Inr (row_column N mp e, t))"
    using Eval_row_column [OF assms(1), of "expr e"] by (auto simp: evaluable_def row_column_def)
  have "output_name e \<notin> fst ` set rq"
    using Cons.prems by (auto simp: aliasList_def)
  then have "output_name e \<notin> fst ` set rq" "map_of rq (output_name e) = None"
    by (simp_all add: map_of_eq_None_iff)
  then have "append_column (output_name e) (row_column N mp e) rq = rq @ [(output_name e, row_column N mp e)]"
    by (simp add: append_column_def update_new)
  with ev Cons show ?case by (simp add: aliasList_def)
qed simp

lemma map_of_segment:
  "map_of (segment_map meta b attrs) a =
    (if a \<in> set attrs then Some (data_values (b ! column_at meta a)) else None)"
  by (induction attrs) (auto simp: segment_map_def)

lemma fst_segment [simp]: "fst ` set (segment_map meta b attrs) = set attrs"
  by (force simp: segment_map_def)

section \<open>Queries\<close>

text \<open>The attributes of an expression are attributes of the relation, with the types it gives them.\<close>

primrec over :: "Metadata \<Rightarrow> Extend \<Rightarrow> bool" where
  "over meta (BinaryExtend op l r) \<longleftrightarrow> (op = Plus \<or> op = Minus) \<and> over meta l \<and> over meta r"
| "over meta (Attribute t n) \<longleftrightarrow> \<lparr>m_Type = t, m_Name = n\<rparr> \<in> set (md_Attrs meta)"
| "over meta (Constant v) \<longleftrightarrow> True"

lemma over_Attributes: "over meta e \<Longrightarrow> set (Attributes e) \<subseteq> m_Name ` set (md_Attrs meta)"
  by (induction e) force+

definition rectangular :: "nat \<Rightarrow> column_data list \<Rightarrow> bool" where
  "rectangular N b \<longleftrightarrow> (\<forall>t \<in> set b. length (data_values t) = N)"

definition good_query :: "Metadata \<Rightarrow> Named list \<Rightarrow> bool" where
  "good_query meta es \<longleftrightarrow>
    distinct (map m_Name (md_Attrs meta)) \<and> distinct (aliasList es) \<and>
    (\<forall>e \<in> set es. over meta (expr e) \<and> Attributes (expr e) \<noteq> [] \<and> (\<exists>t. expr_type UNIV (expr e) = Inr t))"

lemma column_data_values:
  "fits m t \<Longrightarrow> column (length (data_values t)) (m_Type m) (data_values t)"
  by (cases t) (auto simp: fits_def column_def)

lemma segment_column:
  assumes "distinct (map m_Name (md_Attrs meta))" "list_all2 fits (md_Attrs meta) b" "rectangular N b"
    and "\<lparr>m_Type = t, m_Name = n\<rparr> \<in> set (md_Attrs meta)"
  shows "column N t (data_values (b ! column_at meta n))"
proof -
  obtain i where i: "i < length (md_Attrs meta)" "md_Attrs meta ! i = \<lparr>m_Type = t, m_Name = n\<rparr>"
    using assms(4) by (metis in_set_conv_nth)
  have at: "column_at meta n = i" using column_at_name [OF assms(1) i(1)] i(2) by simp
  have "i < length b" using i(1) assms(2) by (simp add: list_all2_lengthD)
  then have "length (data_values (b ! i)) = N" using assms(3) by (simp add: rectangular_def)
  moreover have "fits (md_Attrs meta ! i) (b ! i)" using assms(2) i(1) by (rule list_all2_nthD)
  ultimately show ?thesis using column_data_values [of "md_Attrs meta ! i" "b ! i"] i(2) at by simp
qed

lemma over_conforms:
  assumes "distinct (map m_Name (md_Attrs meta))" "list_all2 fits (md_Attrs meta) b" "rectangular N b"
  shows "over meta e \<Longrightarrow> conforms N (segment_map meta b attrs) e"
  by (induction e) (auto simp: map_of_segment intro: segment_column [OF assms])

lemma uniform_segment:
  assumes "distinct (map m_Name (md_Attrs meta))" "list_all2 fits (md_Attrs meta) b" "rectangular N b"
    and "set attrs \<subseteq> m_Name ` set (md_Attrs meta)" and "attrs \<noteq> []"
  shows "uniform N (segment_map meta b attrs)"
proof -
  have "length (data_values (b ! column_at meta a)) = N" if a: "a \<in> set attrs" for a
  proof -
    obtain m where "m \<in> set (md_Attrs meta)" "m_Name m = a" using a assms(4) by blast
    moreover have "m = \<lparr>m_Type = m_Type m, m_Name = m_Name m\<rparr>" by (cases m) simp
    ultimately have "\<lparr>m_Type = m_Type m, m_Name = a\<rparr> \<in> set (md_Attrs meta)" by metis
    from segment_column [OF assms(1-3) this] show ?thesis by (simp add: column_def)
  qed
  then show ?thesis using assms(5) by (auto simp: uniform_def segment_map_def)
qed

text \<open>
  The checks of a good query pass, and its first \<^verbatim>\<open>Read\<close> asks the segment for the attributes of
  the requested expressions.
\<close>

lemma missing_attribute_None: "missing_attribute xs S = None \<longleftrightarrow> set xs \<subseteq> S"
  by (induction xs) auto

lemma subExtend_subset [simp]: "set (subExtend es attrs) \<subseteq> set es"
  by (auto simp: subExtend_def)

lemma aliasList_subExtend:
  "aliasList (subExtend es attrs) = filter (\<lambda>n. n \<in> set attrs) (aliasList es)"
  by (simp add: aliasList_def subExtend_def filter_map comp_def)

definition checkable :: "Metadata \<Rightarrow> Named list \<Rightarrow> bool" where
  "checkable meta es \<longleftrightarrow>
    (\<forall>e \<in> set es. Attributes (expr e) \<noteq> [] \<and> set (Attributes (expr e)) \<subseteq> m_Name ` set (md_Attrs meta))"

lemma good_checkable: "good_query meta es \<Longrightarrow> checkable meta es"
  using over_Attributes by (auto simp: good_query_def checkable_def)

lemma checkable_attributes:
  assumes "checkable meta es"
  shows "set (attributeList (subExtend es attrs)) \<subseteq> m_Name ` set (md_Attrs meta)"
  using assms subExtend_subset [of es attrs] unfolding checkable_def set_attributeList by blast

lemma first_check_passes:
  assumes es: "checkable meta es" and names: "md_Attrs (r_md r) = md_Attrs meta"
    and attrs: "set attrs \<subseteq> set (aliasList es)"
  shows "first_check (Relation sg (Some r)) es attrs (attributeList (subExtend es attrs)) = Some None"
proof -
  have "\<not> (\<exists>e \<in> set es. length (Attributes (expr e)) \<le> 0)" using es by (simp add: checkable_def)
  then have "check (Relation sg (Some r)) es (attributeList (subExtend es attrs)) = Some None"
    using checkable_attributes [OF es, of attrs]
    by (simp add: check_def relation_Attributes_def names missing_attribute_None)
  then show ?thesis using attrs by (simp add: first_check_def)
qed

text \<open>The first \<^verbatim>\<open>Read\<close> of a query over an unread relation, up to the projection of the segment.\<close>

lemma query_Read_segment:
  assumes r: "stores meta bs r" and bs: "list_all (list_all2 fits (md_Attrs meta)) bs"
    and seg: "seg < length bs" and es: "checkable meta es" "es \<noteq> []"
    and attrs: "distinct attrs" "set attrs \<subseteq> set (aliasList es)"
  shows "OP_Read d (projection_New (relation_New (int seg) r) es) attrs =
    map_option (\<lambda>rq. (rq, Projection True (Relation (int seg) None) es))
      (project d (subExtend es attrs) attrs
        (Some (segment_map meta (bs ! seg) (attributeList (subExtend es attrs)))))"
proof -
  have m: "md_Attrs (r_md r) = md_Attrs meta" using r by (simp add: stores_def)
  obtain e where e: "e \<in> set es" using es(2) by (cases es) auto
  with es(1) obtain a where "a \<in> set (Attributes (expr e))"
    by (cases "Attributes (expr e)") (auto simp: checkable_def)
  with e have "md_Attrs meta \<noteq> []" using es(1) by (auto simp: checkable_def)
  note read = block_Read_stores [OF r this bs seg distinct_attributeList]
  show ?thesis
    by (simp add: projection_New_def relation_New_def Let_def MergeAttributes_id [OF attrs(1)]
        first_check_passes [OF es(1) m attrs(2)] read map_option_case split: option.split)
qed

text \<open>An alias that is no attribute of the operator below makes the projection return nothing.\<close>

lemma query_Read_alias:
  assumes "stores meta bs r" "list_all (list_all2 fits (md_Attrs meta)) bs" "seg < length bs"
    and "checkable meta es" "es \<noteq> []" and "distinct attrs" "set attrs \<subseteq> set (aliasList es)"
    and "attrs \<noteq> []" "hd attrs \<notin> set (attributeList (subExtend es attrs))"
  shows "OP_Read d (projection_New (relation_New (int seg) r) es) attrs =
    Some (Inr None, Projection True (Relation (int seg) None) es)"
proof -
  have "project d (subExtend es attrs) attrs
      (Some (segment_map meta (bs ! seg) (attributeList (subExtend es attrs)))) = Some (Inr None)"
    using assms(8,9) by (cases attrs) (simp_all add: project_def map_of_segment)
  then show ?thesis by (simp add: query_Read_segment [OF assms(1-7)])
qed

text \<open>What the operator below the projection returns, and what the projection makes of it.\<close>

definition projected ::
  "nat \<Rightarrow> Metadata \<Rightarrow> column_data list \<Rightarrow> Named list \<Rightarrow> string list \<Rightarrow> columns option" where
  "projected N meta b es attrs =
    (let sub = subExtend es attrs; mp = segment_map meta b (attributeList sub)
     in if hd attrs \<in> set (attributeList sub) \<and> 0 < N
        then Some (map (\<lambda>e. (output_name e, row_column N mp e)) sub) else None)"

lemma project_segment:
  assumes good: "good_query meta es" and b: "list_all2 fits (md_Attrs meta) b" "rectangular N b"
    and attrs: "attrs \<noteq> []" "set attrs \<subseteq> set (aliasList es)"
  shows "project d (subExtend es attrs) attrs
      (Some (segment_map meta b (attributeList (subExtend es attrs)))) =
    Some (Inr (projected N meta b es attrs))"
proof -
  let ?sub = "subExtend es attrs"
  let ?mp = "segment_map meta b (attributeList ?sub)"
  have names: "distinct (map m_Name (md_Attrs meta))" using good by (simp add: good_query_def)
  note below = checkable_attributes [OF good_checkable [OF good], of attrs]
  have N: "length (data_values (b ! column_at meta a)) = N" if "a \<in> set (attributeList ?sub)" for a
  proof -
    have "uniform N (segment_map meta b [a])"
      using that below by (intro uniform_segment [OF names b]) auto
    then show ?thesis by (simp add: uniform_def segment_map_def)
  qed
  have rows: "eval_extends 0 d ?sub ?mp [] =
      Some (Inr (map (\<lambda>e. (output_name e, row_column N ?mp e)) ?sub))"
    if "hd attrs \<in> set (attributeList ?sub)"
  proof -
    have "uniform N ?mp" using below that by (intro uniform_segment [OF names b]) auto
    moreover have "list_all (evaluable N ?mp) ?sub"
    proof -
      have "evaluable N ?mp e" if "e \<in> set ?sub" for e
      proof -
        have "e \<in> set es" using that subExtend_subset by blast
        then have "over meta (expr e)" "\<exists>t. expr_type UNIV (expr e) = Inr t"
          using good by (auto simp: good_query_def)
        moreover have "set (Attributes (expr e)) \<subseteq> set (attributeList ?sub)" using that by (auto simp: set_attributeList)
        ultimately show ?thesis
          by (simp add: evaluable_def over_conforms [OF names b])
      qed
      then show ?thesis by (simp add: list_all_iff)
    qed
    moreover have "distinct (aliasList ?sub)" using good by (simp add: good_query_def aliasList_subExtend)
    ultimately have "eval_extends 0 d ?sub ?mp [] =
        Some (Inr ([] @ map (\<lambda>e. (output_name e, row_column N ?mp e)) ?sub))"
      by (intro eval_extends_rows) simp_all
    then show ?thesis by simp
  qed
  obtain a as' where a: "attrs = a # as'" using attrs(1) by (cases attrs) auto
  have head: "(case map_of ?mp a of Some c \<Rightarrow> c | None \<Rightarrow> []) = [] \<longleftrightarrow>
      \<not> (a \<in> set (attributeList ?sub) \<and> 0 < N)"
    using N by (auto simp: map_of_segment)
  then show ?thesis
    using rows by (simp add: project_def a projected_def Let_def)
qed

lemma query_Read:
  assumes r: "stores meta bs r" and bs: "list_all (list_all2 fits (md_Attrs meta)) bs"
    and seg: "seg < length bs" and rect: "rectangular N (bs ! seg)"
    and good: "good_query meta es" and ne: "es \<noteq> []"
    and attrs: "attrs \<noteq> []" "distinct attrs" "set attrs \<subseteq> set (aliasList es)"
  shows "OP_Read d (projection_New (relation_New (int seg) r) es) attrs =
    Some (Inr (projected N meta (bs ! seg) es attrs), Projection True (Relation (int seg) None) es)"
proof -
  have b: "list_all2 fits (md_Attrs meta) (bs ! seg)" using bs seg by (simp add: list_all_length)
  show ?thesis
    by (simp add: query_Read_segment [OF r bs seg good_checkable [OF good] ne attrs(2,3)]
        project_segment [OF good b rect attrs(1,3)])
qed

text \<open>The relation is handed out once: a later \<^verbatim>\<open>Read\<close> returns nil for any attributes.\<close>

lemma query_Read_again:
  "OP_Read d (Projection True (Relation sg None) es) attrs = Some (Inr None, Projection True (Relation sg None) es)"
  by (simp add: Let_def block_Read_again project_def)

end
