(* ===== verification/Query_Main.thy ===== *)
theory Query_Main
  imports Query_Rows
begin

text \<open>
  The program of \<^verbatim>\<open>execution/homework/pkg/cmd/test/main.go\<close>: a relation of three columns is
  filled, and the query \<^verbatim>\<open>a - 99.88 + b + c\<close> is read as \<^verbatim>\<open>A\<close> until a read returns no rows, each
  result being compared with the expected values. The constant \<^verbatim>\<open>Num\<close> of rows is the parameter \<open>num\<close>
  of the model, and what the program does is a value of \<open>main_result\<close>.
\<close>

section \<open>Data and query\<close>

definition Num :: nat where
  "Num = 10000000"

definition R_attrs :: "meta_attribute list" where
  "R_attrs =
    [\<lparr>m_Type = T_int, m_Name = ''a''\<rparr>, \<lparr>m_Type = T_int, m_Name = ''b''\<rparr>, \<lparr>m_Type = T_float, m_Name = ''c''\<rparr>]"

text \<open>The doubles nearest to 99.88, 1.1 and 0.0001.\<close>

definition f99_88 :: float64 where
  "f99_88 = 0x4058F851EB851EB8"

definition f1_1 :: float64 where
  "f1_1 = 0x3FF199999999999A"

definition f0_0001 :: float64 where
  "f0_0001 = 0x3F1A36E2EB1C432D"

definition R_rows :: "nat \<Rightarrow> column_data list" where
  "R_rows num =
    [Int64s (map word_of_nat [0..<num]),
     Int64s (map (\<lambda>i. word_of_nat i + 1) [0..<num]),
     Float64s (map (\<lambda>i. f64_add (f64_of_int (word_of_nat i)) f1_1) [0..<num])]"

definition load :: "nat \<Rightarrow> relation \<Rightarrow> (vm_error option \<times> relation) run" where
  "load num r = AddTuples (R_rows num) r"

definition query_expr :: Extend where
  "query_expr =
    (let l = BinaryExtend Minus (Attribute T_int ''a'') (Constant (NewFloat f99_88));
         r = BinaryExtend Plus (Attribute T_int ''b'') (Attribute T_float ''c'')
     in BinaryExtend Plus l r)"

definition query :: "Named list" where
  "query = [\<lparr>Alias = ''A'', expr = query_expr\<rparr>]"

section \<open>The program\<close>

definition f64_abs :: "float64 \<Rightarrow> float64" where
  "f64_abs x = fmake False (fmag x)"

definition expected :: "nat \<Rightarrow> float64" where
  "expected i =
    (let x = f64_of_int (word_of_nat i); one = f64_of_int 1
     in f64_add (f64_sub x f99_88) (f64_add (f64_add (f64_add x one) x) f1_1))"

fun verify_from :: "nat \<Rightarrow> nat \<Rightarrow> Value list \<Rightarrow> bool run" where
  "verify_from 0 i vs = Some True"
| "verify_from (Suc n) i vs =
    do { v \<leftarrow> slice_at vs (int i);
         a \<leftarrow> MustBeFloat v;
         if f64_less f0_0001 (f64_abs (f64_sub (expected i) a)) then Some False
         else verify_from n (Suc i) vs }"

text \<open>Whether the answer is right; indexing beyond the column panics.\<close>

definition verify :: "nat \<Rightarrow> Value list \<Rightarrow> bool run" where
  "verify num vs = verify_from num 0 vs"

datatype main_result =
    Fatal vm_error
  | Wrong_answer
  | Processed nat

text \<open>
  The loop, with the number of batches that were read and verified so far. Each \<^verbatim>\<open>Read\<close> has
  numbers \<open>d k\<close> of its own drawn by the runtime.
\<close>

fun main_loop ::
  "nat \<Rightarrow> nat \<Rightarrow> nat \<Rightarrow> (nat \<Rightarrow> nat list \<Rightarrow> nat) \<Rightarrow> OP \<Rightarrow> main_result option run" where
  "main_loop 0 num k d o' = Some None"
| "main_loop (Suc fuel) num k d o' =
    do { (res, o'') \<leftarrow> OP_Read (d k) o' [''A''];
         case res of
           Inl err \<Rightarrow> Some (Some (Fatal err))
         | Inr mp \<Rightarrow>
             (let rows = (case mp of None \<Rightarrow> [] | Some m \<Rightarrow> m)
              in if rows = [] then Some (Some (Processed k))
                 else do { ok \<leftarrow> verify num (case map_of rows ''A'' of Some c \<Rightarrow> c | None \<Rightarrow> []);
                           if \<not> ok then Some (Some Wrong_answer)
                           else main_loop fuel num (Suc k) d o'' }) }"

definition main :: "nat \<Rightarrow> nat \<Rightarrow> (nat \<Rightarrow> nat list \<Rightarrow> nat) \<Rightarrow> main_result option run" where
  "main fuel num d =
    do { (err, r) \<leftarrow> load num (storage_New \<lparr>md_Num = 0, md_Attrs = R_attrs\<rparr>);
         case err of
           Some e \<Rightarrow> Some (Some (Fatal e))
         | None \<Rightarrow> main_loop fuel num 0 d (projection_New (relation_New 0 r) query) }"

section \<open>What it does\<close>

abbreviation R_meta :: Metadata where
  "R_meta \<equiv> \<lparr>md_Num = 0, md_Attrs = R_attrs\<rparr>"

lemma R_rows_fit: "list_all2 fits R_attrs (R_rows num)"
  by (simp add: R_attrs_def R_rows_def fits_def)

lemma R_rows_rectangular: "rectangular num (R_rows num)"
  by (simp add: rectangular_def R_rows_def)

lemma loaded: "\<exists>r. load num (storage_New R_meta) = Some (None, r) \<and> stores R_meta [R_rows num] r"
  using AddTuples_stores [OF stores_New, of R_meta "R_rows num"] R_rows_fit by (simp add: load_def)

text \<open>The outermost sum adds a float to a float, for which the table has no operator.\<close>

lemma query_expr_type:
  "set [''a'', ''b'', ''c''] \<subseteq> S \<Longrightarrow>
    expr_type S query_expr = Inl (Not_yet_implemented ''+'' types_Float types_Float)"
  by (simp add: query_expr_def expr_type_def op_type_def NewFloat_def types_Float_def Let_def)

lemma query_attributes: "attributeList query = [''a'', ''b'', ''c'']"
  by (simp add: attributeList_def query_def query_expr_def MergeAttributes_def Let_def)

lemma subExtend_query: "subExtend query [''A''] = query"
  by (simp add: subExtend_def query_def query_expr_def output_name_def Let_def)

lemma query_checkable: "checkable R_meta query"
  by (simp add: checkable_def query_def query_expr_def R_attrs_def MergeAttributes_def Let_def)

lemma aliasList_query: "aliasList query = [''A'']"
  by (simp add: aliasList_def query_def query_expr_def output_name_def Let_def)

text \<open>The first read looks for rows under the alias \<^verbatim>\<open>A\<close>, which the relation does not have.\<close>

lemma main_reads_nothing: "main (Suc fuel) num d = Some (Some (Processed 0))"
proof -
  obtain r where load: "load num (storage_New R_meta) = Some (None, r)" and r: "stores R_meta [R_rows num] r"
    using loaded by blast
  have "OP_Read (d 0) (projection_New (relation_New (int 0) r) query) [''A''] =
      Some (Inr None, Projection True (Relation (int 0) None) query)"
    by (rule query_Read_alias [OF r])
      (simp_all add: R_rows_fit query_checkable aliasList_query subExtend_query query_attributes,
        simp add: query_def)
  then show ?thesis by (simp add: main_def load)
qed

end
