(* ===== verification/Int_Text.thy ===== *)
theory Int_Text
  imports Vm_Value "HOL-Library.Char_ord"
begin

text \<open>
  The text of integer values: \<^verbatim>\<open>(*Int).String\<close> and \<^verbatim>\<open>ParseInt\<close> of \<^verbatim>\<open>vm/value/int.go\<close>, over the
  functions of Go's \<^verbatim>\<open>strconv\<close> they call. \<^verbatim>\<open>strconv.ParseInt\<close> with base 0 takes the base from a
  prefix and allows underscores between digits. Printing and parsing is the identity.
\<close>

section \<open>strconv.FormatInt in base 10\<close>

definition digit_char :: "nat \<Rightarrow> char" where
  "digit_char d = char_of (48 + d)"

fun dec_nat :: "nat \<Rightarrow> string" where
  "dec_nat n = (if n < 10 then [digit_char n] else dec_nat (n div 10) @ [digit_char (n mod 10)])"

declare dec_nat.simps [simp del]

definition strconv_FormatInt :: "u64 \<Rightarrow> string" where
  "strconv_FormatInt i =
    (if sint i < 0 then CHR ''-'' # dec_nat (nat (- sint i)) else dec_nat (nat (sint i)))"

section \<open>strconv.ParseInt in base 0 and 64 bits\<close>

definition lower :: "char \<Rightarrow> char" where
  "lower c = char_of (or (of_char c) 32 :: nat)"

definition digit_value :: "char \<Rightarrow> nat option" where
  "digit_value c =
    (if CHR ''0'' \<le> c \<and> c \<le> CHR ''9'' then Some (of_char c - 48)
     else if CHR ''a'' \<le> lower c \<and> lower c \<le> CHR ''z'' then Some (of_char (lower c) - 97 + 10)
     else None)"

fun parse_digits :: "nat \<Rightarrow> nat \<Rightarrow> bool \<Rightarrow> string \<Rightarrow> num_error + nat \<times> bool" where
  "parse_digits base n us [] = Inr (n, us)"
| "parse_digits base n us (c # s) =
    (if c = CHR ''_'' then parse_digits base n True s
     else case digit_value c of
       None \<Rightarrow> Inl Syntax_error
     | Some d \<Rightarrow>
         if base \<le> d then Inl Syntax_error
         else if (2 ^ 64 - 1) div base + 1 \<le> n then Inl Range_error
         else if 2 ^ 64 \<le> n * base + d then Inl Range_error
         else parse_digits base (n * base + d) us s)"

definition base_prefix :: "string \<Rightarrow> nat option" where
  "base_prefix s =
    (if length s < 2 \<or> hd s \<noteq> CHR ''0'' then None
     else if lower (s ! 1) = CHR ''b'' then Some 2
     else if lower (s ! 1) = CHR ''o'' then Some 8
     else if lower (s ! 1) = CHR ''x'' then Some 16
     else None)"

definition split_base :: "string \<Rightarrow> nat \<times> string" where
  "split_base s =
    (if hd s \<noteq> CHR ''0'' then (10, s)
     else case (if length s < 3 then None else base_prefix s) of
       Some b \<Rightarrow> (b, drop 2 s)
     | None \<Rightarrow> (8, tl s))"

text \<open>\<^verbatim>\<open>underscoreOK\<close>: an underscore stands between two digits or after the base prefix.\<close>

datatype seen = Begin | Digit | Underscore | Other

fun underscore_loop :: "bool \<Rightarrow> seen \<Rightarrow> string \<Rightarrow> bool" where
  "underscore_loop hex saw [] \<longleftrightarrow> saw \<noteq> Underscore"
| "underscore_loop hex saw (c # s) \<longleftrightarrow>
    (if (CHR ''0'' \<le> c \<and> c \<le> CHR ''9'') \<or> (hex \<and> CHR ''a'' \<le> lower c \<and> lower c \<le> CHR ''f'')
     then underscore_loop hex Digit s
     else if c = CHR ''_'' then saw = Digit \<and> underscore_loop hex Underscore s
     else saw \<noteq> Underscore \<and> underscore_loop hex Other s)"

definition strip_sign :: "string \<Rightarrow> string" where
  "strip_sign s = (if s \<noteq> [] \<and> (hd s = CHR ''-'' \<or> hd s = CHR ''+'') then tl s else s)"

definition underscoreOK :: "string \<Rightarrow> bool" where
  "underscoreOK s =
    (let s = strip_sign s
     in case base_prefix s of
       Some b \<Rightarrow> underscore_loop (b = 16) Digit (drop 2 s)
     | None \<Rightarrow> underscore_loop False Begin s)"

definition strconv_ParseUint :: "string \<Rightarrow> num_error + nat" where
  "strconv_ParseUint s =
    (if s = [] then Inl Syntax_error
     else case parse_digits (fst (split_base s)) 0 False (snd (split_base s)) of
       Inl e \<Rightarrow> Inl e
     | Inr (n, us) \<Rightarrow> if us \<and> \<not> underscoreOK s then Inl Syntax_error else Inr n)"

text \<open>A magnitude beyond 64 bits is a range error of the signed number too.\<close>

definition strconv_ParseInt :: "string \<Rightarrow> num_error + u64" where
  "strconv_ParseInt s =
    (if s = [] then Inl Syntax_error
     else case strconv_ParseUint (strip_sign s) of
       Inl e \<Rightarrow> Inl e
     | Inr un \<Rightarrow>
         if hd s \<noteq> CHR ''-'' \<and> 2 ^ 63 \<le> un then Inl Range_error
         else if hd s = CHR ''-'' \<and> 2 ^ 63 < un then Inl Range_error
         else Inr (if hd s = CHR ''-'' then - word_of_nat un else word_of_nat un))"

section \<open>vm/value/int.go\<close>

definition Int_String :: "u64 \<Rightarrow> string" where
  "Int_String a = strconv_FormatInt a"

definition makeParseError :: "string \<Rightarrow> T \<Rightarrow> num_error \<Rightarrow> vm_error" where
  "makeParseError s typ err = Could_not_parse s typ err"

definition ParseInt :: "string \<Rightarrow> vm_error + Value" where
  "ParseInt s =
    (case strconv_ParseInt s of
       Inl err \<Rightarrow> Inl (makeParseError s types_Int err)
     | Inr i \<Rightarrow> Inr (NewInt i))"

section \<open>Printing and parsing\<close>

lemma digit_char_value:
  assumes "d < 10"
  shows "digit_value (digit_char d) = Some d" and "digit_char d \<noteq> CHR ''_''"
    and "digit_char d = CHR ''0'' \<longleftrightarrow> d = 0"
    and "digit_char d \<noteq> CHR ''-''" and "digit_char d \<noteq> CHR ''+''"
proof -
  have "d \<in> {0, 1, 2, 3, 4, 5, 6, 7, 8, 9}" using assms by auto
  then have "digit_value (digit_char d) = Some d \<and> digit_char d \<noteq> CHR ''_'' \<and>
      (digit_char d = CHR ''0'' \<longleftrightarrow> d = 0) \<and> digit_char d \<noteq> CHR ''-'' \<and> digit_char d \<noteq> CHR ''+''"
    by (elim insertE emptyE; simp only:; code_simp)
  then show "digit_value (digit_char d) = Some d" "digit_char d \<noteq> CHR ''_''"
    "digit_char d = CHR ''0'' \<longleftrightarrow> d = 0" "digit_char d \<noteq> CHR ''-''" "digit_char d \<noteq> CHR ''+''" by blast+
qed

lemma dec_nat_not_Nil [simp]: "dec_nat n \<noteq> []"
  by (simp add: dec_nat.simps [of n])

lemma hd_dec_nat: "\<exists>d. hd (dec_nat n) = digit_char d \<and> d < 10 \<and> (d = 0 \<longrightarrow> n = 0)"
proof (induction n rule: dec_nat.induct)
  case (1 n)
  then show ?case
    by (cases "n < 10") (force simp: dec_nat.simps [of n])+
qed

lemma parse_digits_append:
  "parse_digits b n us (xs @ ys) =
    (case parse_digits b n us xs of Inl e \<Rightarrow> Inl e | Inr (n', us') \<Rightarrow> parse_digits b n' us' ys)"
  by (induction xs arbitrary: n us) (auto split: option.splits)

lemma parse_dec_nat: "m < 2 ^ 64 \<Longrightarrow> parse_digits 10 0 us (dec_nat m) = Inr (m, us)"
proof (induction m rule: dec_nat.induct)
  case (1 m)
  show ?case
  proof (cases "m < 10")
    case True
    then show ?thesis by (simp add: dec_nat.simps [of m] digit_char_value)
  next
    case False
    have "m div 10 < 2 ^ 64" "m div 10 < (2 ^ 64 - 1) div 10 + 1" using 1(2) by simp_all
    moreover have "m div 10 * 10 + m mod 10 = m" by simp
    ultimately show ?thesis
      using 1 False by (simp add: dec_nat.simps [of m] parse_digits_append digit_char_value)
  qed
qed

lemma ParseUint_dec_nat:
  assumes "m < 2 ^ 64"
  shows "strconv_ParseUint (dec_nat m) = Inr m"
proof (cases "m = 0")
  case True
  then show ?thesis
    by (simp add: dec_nat.simps strconv_ParseUint_def split_base_def digit_char_value)
next
  case False
  then have "hd (dec_nat m) \<noteq> CHR ''0''"
    using hd_dec_nat [of m] digit_char_value(3) by metis
  then show ?thesis
    by (simp add: strconv_ParseUint_def split_base_def parse_dec_nat [OF assms])
qed

lemma dec_nat_no_sign:
  "hd (dec_nat m) \<noteq> CHR ''-''" "hd (dec_nat m) \<noteq> CHR ''+''" "strip_sign (dec_nat m) = dec_nat m"
  using hd_dec_nat [of m] digit_char_value(4,5) unfolding strip_sign_def by metis+

lemma strconv_round_trip [roundtrip]: "strconv_ParseInt (strconv_FormatInt x) = Inr x"
proof (cases "sint x < 0")
  case True
  have "- (2 ^ 63) \<le> sint x" using sint_ge [of x] by simp
  then have b: "nat (- sint x) \<le> 2 ^ 63" by (simp add: nat_le_iff)
  then have b': "nat (- sint x) < 2 ^ 64" by (rule order.strict_trans1) simp
  have s: "strip_sign (CHR ''-'' # s) = s" for s by (simp add: strip_sign_def)
  have w: "- word_of_nat (nat (- sint x)) = x"
    using True by (simp add: of_nat_nat)
  from True b show ?thesis
    by (simp add: strconv_ParseInt_def strconv_FormatInt_def s ParseUint_dec_nat [OF b'] w)
next
  case False
  have "sint x < 2 ^ 63" using sint_less [of x] by simp
  then have b: "nat (sint x) < 2 ^ 63" by (simp add: nat_less_iff)
  then have b': "nat (sint x) < 2 ^ 64" by (rule order.strict_trans) simp
  have w: "word_of_nat (nat (sint x)) = x" using False by (simp add: of_nat_nat)
  from False b show ?thesis
    by (simp add: strconv_ParseInt_def strconv_FormatInt_def ParseUint_dec_nat [OF b'] dec_nat_no_sign w)
qed

end
