(* ===== verification/Float_Text.thy ===== *)
theory Float_Text
  imports Int_Text
begin

text \<open>
  The text of doubles: \<^verbatim>\<open>(*Float).String\<close> and \<^verbatim>\<open>ParseFloat\<close> of \<^verbatim>\<open>vm/value/float.go\<close>, over the
  functions of Go's \<^verbatim>\<open>strconv\<close> and \<^verbatim>\<open>fmt\<close> they call: the shortest decimal that rounds to the
  double (\<^verbatim>\<open>%g\<close>), and the double nearest to a decimal or hexadecimal number. Printing and
  parsing is the identity on every double that is not a NaN.

  A number in the text is a ratio of naturals; \<open>fpack_ratio\<close> rounds the ratio \<open>n / d\<close>, in units
  of \<open>2^-1074\<close>, as \<open>fpack\<close> rounds an integer. The nearest double is what \<^verbatim>\<open>strconv\<close> documents; its
  fast paths are not modelled.
\<close>

section \<open>Rounding a ratio\<close>

definition round_even :: "nat \<Rightarrow> nat \<Rightarrow> nat" where
  "round_even n D =
    (let q = n div D; r = n mod D in if D < 2 * r \<or> (D = 2 * r \<and> odd q) then q + 1 else q)"

definition fpack_ratio :: "nat \<Rightarrow> nat \<Rightarrow> nat" where
  "fpack_ratio n d =
    (let k = bit_length (n div d) - 53
     in min (2047 * 2 ^ 52) (k * 2 ^ 52 + round_even n (d * 2 ^ k)))"

text \<open>A ratio within half a unit of \<open>S\<close> rounds to \<open>S\<close>; on the boundary when \<open>S\<close> is even.\<close>

lemma round_even_near:
  assumes D: "0 < D" and S: "0 < S" and lo: "(2 * S - 1) * D \<le> 2 * n" and hi: "2 * n \<le> (2 * S + 1) * D"
    and tie: "odd S \<Longrightarrow> (2 * S - 1) * D < 2 * n \<and> 2 * n < (2 * S + 1) * D"
  shows "round_even n D = S"
proof (cases "S * D \<le> n")
  case True
  then obtain t where n: "n = S * D + t" using le_Suc_ex by blast
  have t: "2 * t \<le> D" using hi by (simp add: n algebra_simps)
  with D have "t < D" by simp
  then have q: "n div D = S" "n mod D = t" by (simp_all add: n)
  have "odd S \<Longrightarrow> 2 * t < D" using tie by (simp add: n algebra_simps)
  with t show ?thesis by (auto simp: round_even_def q Let_def)
next
  case False
  obtain s where s: "S = Suc s" using S by (cases S) auto
  have "2 * s * D \<le> 2 * n" using lo by (simp add: s algebra_simps)
  then have "s * D \<le> n" by simp
  then obtain t where n: "n = s * D + t" using le_Suc_ex by blast
  have t: "t < D" "D \<le> 2 * t" using False lo by (simp_all add: n s algebra_simps)
  then have q: "n div D = s" "n mod D = t" by (simp_all add: n)
  have "even s \<Longrightarrow> D < 2 * t" using tie by (simp add: n s algebra_simps)
  with t show ?thesis by (auto simp: round_even_def q Let_def s)
qed

text \<open>
  The fields of a finite double and the interval around it: half a unit of the last place to both
  sides, a quarter below a power of two, in quarters. The ends belong to it when the significand is
  even.
\<close>

definition gap_below :: "nat \<Rightarrow> nat" where
  "gap_below m = (if fsig m = 2 ^ 52 \<and> 1 < m div 2 ^ 52 then 2 ^ fexp m else 2 * 2 ^ fexp m)"

definition in_interval :: "nat \<Rightarrow> nat \<Rightarrow> nat \<Rightarrow> bool" where
  "in_interval m n d \<longleftrightarrow>
    (let lo = (4 * fman m - gap_below m) * d; hi = (4 * fman m + 2 * 2 ^ fexp m) * d
     in if even (fsig m) then lo \<le> 4 * n \<and> 4 * n \<le> hi else lo < 4 * n \<and> 4 * n < hi)"

lemma fields_sig: "m = fexp m * 2 ^ 52 + fsig m"
proof (cases "m div 2 ^ 52 = 0")
  case False
  then obtain e where e: "m div 2 ^ 52 = Suc e" by (cases "m div 2 ^ 52") auto
  have "m = m div 2 ^ 52 * 2 ^ 52 + m mod 2 ^ 52" by simp
  then show ?thesis unfolding fexp_def fsig_def e by simp
qed (simp add: fexp_def fsig_def)

lemma fsig_bounds: "fsig m < 2 ^ 53" "0 < fexp m \<Longrightarrow> 2 ^ 52 \<le> fsig m"
proof -
  have "m mod 2 ^ 52 < 2 ^ 52" by simp
  moreover have "fsig m \<le> 2 ^ 52 + m mod 2 ^ 52"
    by (cases "m div 2 ^ 52 = 0") (simp_all only: fsig_def simp_thms if_True if_False le_add2 order_refl)
  ultimately show "fsig m < 2 ^ 53" by simp
  show "0 < fexp m \<Longrightarrow> 2 ^ 52 \<le> fsig m" by (auto simp: fsig_def fexp_def)
qed

lemma bit_length_quotient:
  assumes d: "0 < d" and hi: "n < 2 ^ 53 * (d * 2 ^ k)" and lo: "k = 0 \<or> 2 ^ 52 * (d * 2 ^ k) \<le> n"
  shows "bit_length (n div d) - 53 = k"
proof -
  have h: "n div d < 2 ^ (53 + k)"
    using hi d by (simp add: div_less_iff_less_mult power_add mult.assoc mult.left_commute mult.commute)
  show ?thesis
  proof (cases "k = 0")
    case True
    then show ?thesis using bit_length_bound [OF h] by simp
  next
    case False
    then have "2 ^ (52 + k) * d \<le> n" using lo by (simp add: power_add mult.assoc mult.left_commute mult.commute)
    then have "2 ^ (52 + k) \<le> n div d" using d by (simp add: less_eq_div_iff_mult_less_eq)
    from bit_length_unique [OF this] h show ?thesis by simp
  qed
qed

theorem fpack_ratio_interval:
  assumes m: "0 < m" "m < 2047 * 2 ^ 52" and d: "0 < d" and i: "in_interval m n d"
  shows "fpack_ratio n d = m"
proof -
  define k S D where "k = fexp m" and "S = fsig m" and "D = d * 2 ^ k"
  note f = fields_sig [of m, folded k_def S_def]
  have S: "S < 2 ^ 53" "0 < k \<Longrightarrow> 2 ^ 52 \<le> S" using fsig_bounds [of m] by (simp_all add: S_def k_def)
  have D: "0 < D" using d by (simp add: D_def)
  have S0: "0 < S"
  proof (rule Nat.gr0I)
    assume "S = 0"
    with S(2) have "k = 0" by (cases k) auto
    with f \<open>S = 0\<close> m(1) show False by simp
  qed
  have fm: "fman m * d = S * D" by (simp add: fman_def k_def S_def D_def mult.assoc mult.left_commute mult.commute)
  have hi: "4 * n \<le> (4 * S + 2) * D" "odd S \<Longrightarrow> 4 * n < (4 * S + 2) * D"
    using i fm by (auto simp: in_interval_def Let_def k_def S_def D_def algebra_simps split: if_splits)
  have lo: "(4 * fman m - gap_below m) * d \<le> 4 * n" "odd S \<Longrightarrow> (4 * fman m - gap_below m) * d < 4 * n"
    using i by (auto simp: in_interval_def Let_def S_def split: if_splits)
  obtain s where s: "S = Suc s" using S0 by (cases S) auto
  have g: "(4 * s + 2) * D \<le> (4 * fman m - gap_below m) * d"
  proof -
    have "(4 * s + 2) * D = (4 * (S * 2 ^ k) - 2 * 2 ^ k) * d"
      by (simp add: s D_def diff_mult_distrib algebra_simps)
    moreover have "gap_below m \<le> 2 * 2 ^ k" "fman m = S * 2 ^ k"
      by (simp_all add: gap_below_def k_def S_def fman_def)
    then have "4 * (S * 2 ^ k) - 2 * 2 ^ k \<le> 4 * fman m - gap_below m" by (simp only: diff_le_mono2)
    ultimately show ?thesis by (simp only: mult_le_mono1)
  qed
  have le: "(2 * S - 1) * D \<le> 2 * n" "odd S \<Longrightarrow> (2 * S - 1) * D < 2 * n"
    using g lo by (fastforce simp: s algebra_simps)+
  have he: "2 * n \<le> (2 * S + 1) * D" "odd S \<Longrightarrow> 2 * n < (2 * S + 1) * D"
    using hi by (fastforce simp: algebra_simps)+
  have up: "n < 2 ^ 53 * D"
  proof -
    have "2 * n \<le> D + 2 * (S * D)" using he(1) by (simp add: algebra_simps)
    moreover have "S * D \<le> 9007199254740991 * D" using S(1) by (intro mult_le_mono1) simp
    ultimately have "n < 9007199254740992 * D" using D by linarith
    then show ?thesis by simp
  qed
  show ?thesis
  proof (cases "k = 0 \<or> 2 ^ 52 * D \<le> n")
    case True
    then have b: "bit_length (n div d) - 53 = k"
      using bit_length_quotient [OF d, of n k] up by (simp add: D_def)
    have "round_even n D = S" using round_even_near [OF D S0 le(1) he(1)] le(2) he(2) by blast
    then show ?thesis using m(2) f by (simp add: fpack_ratio_def b D_def [symmetric])
  next
    case False
    then obtain j where j: "k = Suc j" by (cases k) auto
    define D' where "D' = d * 2 ^ j"
    have DD: "D = 2 * D'" and D': "0 < D'" using d by (simp_all add: D_def D'_def j)
    have S52: "S = 2 ^ 52"
    proof (rule ccontr)
      assume "S \<noteq> 2 ^ 52"
      then have "4503599627370496 \<le> s" using S(2) j by (simp add: s)
      then have "4503599627370496 * D \<le> s * D" by (rule mult_le_mono1)
      moreover have "D + 2 * (s * D) \<le> 2 * n" using le(1) by (simp add: s algebra_simps)
      moreover have "n < 4503599627370496 * D" using False by simp
      ultimately show False by linarith
    qed
    have "1 < m div 2 ^ 52" using j by (simp add: k_def fexp_def)
    then have "gap_below m = 2 ^ k" using S52 by (simp add: gap_below_def k_def S_def)
    then have "(4 * fman m - gap_below m) * d = (2 * 2 ^ 53 - 1) * D"
      using S52 by (simp add: diff_mult_distrib D_def fman_def k_def S_def)
    then have l: "(2 * 2 ^ 53 - 1) * D' \<le> 2 * n" using lo(1) by (simp add: DD)
    have h: "n < 2 ^ 53 * D'" using False DD by simp
    have "2 ^ 52 * D' \<le> n" using l D' by (simp add: diff_mult_distrib)
    then have b: "bit_length (n div d) - 53 = j"
      using bit_length_quotient [OF d, of n j] h by (simp add: D'_def)
    have "round_even n D' = 2 ^ 53"
      by (rule round_even_near [OF D' _ l]) (use h in simp_all)
    then show ?thesis using m(2) f S52 j by (simp add: fpack_ratio_def b D'_def [symmetric])
  qed
qed

text \<open>Only the value of the ratio matters.\<close>

lemma fpack_ratio_scale:
  assumes "0 < c"
  shows "fpack_ratio (n * c) (d * c) = fpack_ratio n d"
proof -
  have r: "round_even (n * c) (D * c) = round_even n D" for D
  proof -
    have "n * c mod (D * c) = n mod D * c" by (simp only: mult_mod_left)
    moreover have "n * c div (D * c) = n div D" using assms by simp
    moreover have "D * c < 2 * (r * c) \<longleftrightarrow> D < 2 * r" "D * c = 2 * (r * c) \<longleftrightarrow> D = 2 * r" for r
      using assms by (simp_all add: mult.assoc [symmetric] del: mult.assoc)
    ultimately show ?thesis by (simp add: round_even_def Let_def)
  qed
  have e: "d * c * 2 ^ k = d * 2 ^ k * c" for k by simp
  show ?thesis using assms by (simp only: fpack_ratio_def div_mult_mult2 e r)
qed

lemma fpack_ratio_cong:
  assumes "0 < d" "0 < d'" "n * d' = n' * d"
  shows "fpack_ratio n d = fpack_ratio n' d'"
proof -
  have "fpack_ratio n d = fpack_ratio (n' * d) (d' * d)"
    using fpack_ratio_scale [OF assms(2), of n d] by (simp only: assms(3) mult.commute [of d])
  then show ?thesis using fpack_ratio_scale [OF assms(1)] by simp
qed

lemma fpack_ratio_0 [simp]: "fpack_ratio 0 d = 0"
  by (simp add: fpack_ratio_def round_even_def)

lemma in_interval_exact:
  assumes "0 < d"
  shows "in_interval m (fman m * d) d"
proof -
  have "(4 * fman m - gap_below m) * d \<le> 4 * fman m * d" by (intro mult_le_mono1) simp
  moreover have "(4 * fman m - gap_below m) * d < 4 * fman m * d" if "odd (fsig m)"
  proof (intro mult_less_mono1 assms diff_less)
    show "0 < gap_below m" by (simp add: gap_below_def)
    show "0 < 4 * fman m" using that by (cases "fsig m") (simp_all add: fman_def)
  qed
  moreover have "4 * fman m * d < (4 * fman m + 2 * 2 ^ fexp m) * d"
    using assms by (intro mult_less_mono1) simp
  ultimately show ?thesis by (auto simp: in_interval_def Let_def mult.assoc)
qed

section \<open>Formatting\<close>

fun strip_zeros :: "nat \<Rightarrow> nat \<Rightarrow> nat \<times> nat" where
  "strip_zeros t z = (if t \<noteq> 0 \<and> t mod 10 = 0 then strip_zeros (t div 10) (Suc z) else (t, z))"

declare strip_zeros.simps [simp del]

text \<open>
  The digits of \<^verbatim>\<open>%g\<close>, as \<^verbatim>\<open>roundShortest\<close> finds them: the double is \<open>fman m * 5 ^ 1074\<close> units of
  \<open>10^-1074\<close>; the first number of leading digits that suffices is taken, rounded down or up to a
  decimal in the interval, to the nearer one when both are. The result \<open>(t, z)\<close> is \<open>t * 10 ^ z\<close> units.
\<close>

definition digit_place :: "nat \<Rightarrow> nat \<Rightarrow> nat" where
  "digit_place M n = 10 ^ (length (dec_nat M) - n)"

definition digits_fit :: "nat \<Rightarrow> nat \<Rightarrow> nat \<Rightarrow> nat \<Rightarrow> bool" where
  "digits_fit m M n t \<longleftrightarrow> in_interval m (t * digit_place M n) (5 ^ 1074)"

definition cut_digits :: "nat \<Rightarrow> nat \<Rightarrow> nat \<Rightarrow> nat" where
  "cut_digits m M n =
    (let down = M div digit_place M n; up = down + 1
     in if digits_fit m M n down \<and> digits_fit m M n up then round_even M (digit_place M n)
        else if digits_fit m M n down then down else up)"

definition enough_digits :: "nat \<Rightarrow> nat \<Rightarrow> nat \<Rightarrow> bool" where
  "enough_digits m M n \<longleftrightarrow> digits_fit m M n (M div digit_place M n) \<or> digits_fit m M n (M div digit_place M n + 1)"

definition shortest :: "nat \<Rightarrow> nat \<times> nat" where
  "shortest m =
    (let M = fman m * 5 ^ 1074
     in case find (enough_digits m M) [1..<length (dec_nat M)] of
          None \<Rightarrow> strip_zeros M 0
        | Some n \<Rightarrow> strip_zeros (cut_digits m M n) (length (dec_nat M) - n))"

text \<open>\<^verbatim>\<open>fmtE\<close> and \<^verbatim>\<open>fmtF\<close>: the digits, the position of the decimal point.\<close>

definition fmtE :: "string \<Rightarrow> int \<Rightarrow> string" where
  "fmtE ds dp =
    hd ds # (if tl ds = [] then [] else CHR ''.'' # tl ds) @
    CHR ''e'' # (if dp - 1 < 0 then CHR ''-'' else CHR ''+'') #
    (let e = nat \<bar>dp - 1\<bar> in if e < 10 then CHR ''0'' # dec_nat e else dec_nat e)"

definition fmtF :: "string \<Rightarrow> int \<Rightarrow> string" where
  "fmtF ds dp =
    (if 0 < dp then
       (if int (length ds) \<le> dp then ds @ replicate (nat dp - length ds) (CHR ''0'')
        else take (nat dp) ds @ CHR ''.'' # drop (nat dp) ds)
     else CHR ''0'' # CHR ''.'' # replicate (nat (- dp)) (CHR ''0'') @ ds)"

definition format_shortest :: "nat \<Rightarrow> string" where
  "format_shortest m =
    (if fman m = 0 then ''0''
     else let (t, z) = shortest m; ds = dec_nat t; dp = int (length ds) + int z - 1074
          in if dp - 1 < -4 \<or> 6 \<le> dp - 1 then fmtE ds dp else fmtF ds dp)"

definition float_sign :: "float64 \<Rightarrow> string" where
  "float_sign x = (if fneg x then ''-'' else [])"

text \<open>\<^verbatim>\<open>fmt.Sprintf\<close> of \<^verbatim>\<open>%g\<close>, and of \<^verbatim>\<open>%.1f\<close> for an integral value.\<close>

definition fmt_g :: "float64 \<Rightarrow> string" where
  "fmt_g x =
    (if is_nan x then ''NaN''
     else if is_inf x then (if fneg x then ''-Inf'' else ''+Inf'')
     else float_sign x @ format_shortest (fmag x))"

definition fmt_1f :: "float64 \<Rightarrow> string" where
  "fmt_1f x = float_sign x @ dec_nat (fman (fmag x) div 2 ^ 1074) @ ''.0''"

text \<open>Whether \<^verbatim>\<open>math.Modf\<close> gives a fraction equal to zero; it is NaN for an infinity.\<close>

definition modf_frac_0 :: "float64 \<Rightarrow> bool" where
  "modf_frac_0 x \<longleftrightarrow> \<not> is_nan x \<and> \<not> is_inf x \<and> fman (fmag x) mod 2 ^ 1074 = 0"

definition Float_String :: "float64 \<Rightarrow> string" where
  "Float_String a =
    (if modf_frac_0 a \<and> f64_less (f64_of_int (- 1000000)) a \<and> f64_less a (f64_of_int 1000000)
     then fmt_1f a else fmt_g a)"

section \<open>Parsing\<close>

text \<open>\<^verbatim>\<open>strconv.ParseFloat\<close>: special values first.\<close>

definition special :: "string \<Rightarrow> float64 option" where
  "special s =
    (if s = [] then None
     else if map lower (strip_sign s) \<in> {''inf'', ''infinity''} then Some (fmake (hd s = CHR ''-'') (2047 * 2 ^ 52))
     else if map lower s = ''nan'' then Some qnan
     else None)"

definition base_digit :: "nat \<Rightarrow> char \<Rightarrow> nat option" where
  "base_digit b c = (case digit_value c of Some d \<Rightarrow> if d < b then Some d else None | None \<Rightarrow> None)"

text \<open>
  The loop of \<^verbatim>\<open>readFloat\<close>: the number that the digits make, how many of them follow the point,
  whether there were digits and underscores, and the rest of the text.
\<close>

fun float_digits ::
    "nat \<Rightarrow> string \<Rightarrow> nat \<Rightarrow> nat option \<Rightarrow> bool \<Rightarrow> bool \<Rightarrow> nat \<times> nat option \<times> bool \<times> bool \<times> string" where
  "float_digits b [] n fr sd us = (n, fr, sd, us, [])"
| "float_digits b (c # s) n fr sd us =
    (if c = CHR ''_'' then float_digits b s n fr sd True
     else if c = CHR ''.'' then
       (if fr = None then float_digits b s n (Some 0) sd us else (n, fr, sd, us, c # s))
     else case base_digit b c of
       Some d \<Rightarrow> float_digits b s (n * b + d) (map_option Suc fr) True us
     | None \<Rightarrow> (n, fr, sd, us, c # s))"

fun exp_digits :: "string \<Rightarrow> nat \<Rightarrow> bool \<Rightarrow> nat \<times> bool \<times> string" where
  "exp_digits [] e us = (e, us, [])"
| "exp_digits (c # s) e us =
    (if c = CHR ''_'' then exp_digits s e True
     else case base_digit 10 c of
       Some d \<Rightarrow> exp_digits s (if e < 10000 then e * 10 + d else e) us
     | None \<Rightarrow> (e, us, c # s))"

text \<open>The exponent, if there is one: its value, whether it is there, underscores, the rest.\<close>

definition read_exp :: "char \<Rightarrow> string \<Rightarrow> (int \<times> bool \<times> bool \<times> string) option" where
  "read_exp expChar s =
    (if s = [] \<or> lower (hd s) \<noteq> expChar then Some (0, False, False, s)
     else let s1 = tl s; s2 = strip_sign s1
          in if s2 = [] \<or> base_digit 10 (hd s2) = None then None
             else case exp_digits s2 0 False of
               (e, us, s3) \<Rightarrow> Some (if hd s1 = CHR ''-'' then - int e else int e, True, us, s3))"

text \<open>A number: its sign, radix, digits, and the exponent of the radix.\<close>

definition readFloat :: "string \<Rightarrow> (bool \<times> nat \<times> nat \<times> int) option" where
  "readFloat s =
    (let s1 = strip_sign s;
         hex = (2 < length s1 \<and> hd s1 = CHR ''0'' \<and> lower (s1 ! 1) = CHR ''x'')
     in case float_digits (if hex then 16 else 10) (if hex then drop 2 s1 else s1) 0 None False False of
          (n, fr, sd, us, rest) \<Rightarrow>
            let frac = int (case fr of Some k \<Rightarrow> k | None \<Rightarrow> 0)
            in if \<not> sd then None
               else case read_exp (if hex then CHR ''p'' else CHR ''e'') rest of
                 None \<Rightarrow> None
               | Some (e, has_exp, us', rest') \<Rightarrow>
                   if hex \<and> \<not> has_exp \<or> rest' \<noteq> [] \<or> ((us \<or> us') \<and> \<not> underscoreOK s) then None
                   else Some (hd s = CHR ''-'', if hex then 2 else 10, n, if hex then e - 4 * frac else e - frac))"

definition number_fields :: "nat \<Rightarrow> nat \<Rightarrow> int \<Rightarrow> nat" where
  "number_fields radix n x = fpack_ratio (n * 2 ^ 1074 * radix ^ nat x) (radix ^ nat (- x))"

definition strconv_ParseFloat :: "string \<Rightarrow> num_error + float64" where
  "strconv_ParseFloat s =
    (case special s of
       Some f \<Rightarrow> Inr f
     | None \<Rightarrow>
         (case readFloat s of
            None \<Rightarrow> Inl Syntax_error
          | Some (neg, radix, n, x) \<Rightarrow>
              if number_fields radix n x = 2047 * 2 ^ 52 then Inl Range_error
              else Inr (fmake neg (number_fields radix n x))))"

definition ParseFloat :: "string \<Rightarrow> vm_error + Value" where
  "ParseFloat s =
    (case strconv_ParseFloat s of
       Inl err \<Rightarrow> Inl (makeParseError s types_Float err)
     | Inr f \<Rightarrow> Inr (NewFloat f))"

section \<open>Digit strings\<close>

definition dec_string :: "string \<Rightarrow> bool" where
  "dec_string s \<longleftrightarrow> list_all (\<lambda>c. \<exists>d < 10. c = digit_char d) s"

definition dec_value :: "string \<Rightarrow> nat" where
  "dec_value s = foldl (\<lambda>a c. a * 10 + the (digit_value c)) 0 s"

lemma dec_string_append [simp]: "dec_string (s @ t) \<longleftrightarrow> dec_string s \<and> dec_string t"
  by (simp add: dec_string_def)

lemma dec_string_Nil [simp]: "dec_string []"
  by (simp add: dec_string_def)

lemma dec_string_zeros [simp]: "dec_string (replicate n (CHR ''0''))"
proof -
  have "CHR ''0'' = digit_char 0" by code_simp
  then show ?thesis by (auto simp: dec_string_def list_all_iff intro: exI [of _ 0])
qed

lemma dec_string_take_drop: "dec_string s \<Longrightarrow> dec_string (take n s) \<and> dec_string (drop n s)"
  by (metis append_take_drop_id dec_string_append)

lemma foldl_digits: "foldl (\<lambda>a c. a * 10 + the (digit_value c)) n s = n * 10 ^ length s + dec_value s"
proof (induction s arbitrary: n)
  case (Cons c s)
  show ?case
    using Cons [of "n * 10 + the (digit_value c)"] Cons [of "the (digit_value c)"]
    by (simp add: dec_value_def algebra_simps)
qed (simp add: dec_value_def)

lemma dec_value_append [simp]: "dec_value (s @ t) = dec_value s * 10 ^ length t + dec_value t"
  using foldl_digits [of "dec_value s" t] by (simp add: dec_value_def)

lemma dec_value_simps [simp]: "dec_value [] = 0" "d < 10 \<Longrightarrow> dec_value [digit_char d] = d"
  by (simp_all add: dec_value_def digit_char_value)

lemma dec_value_zeros [simp]: "dec_value (replicate n (CHR ''0'')) = 0"
proof -
  have "digit_value (CHR ''0'') = Some 0" by code_simp
  then have "foldl (\<lambda>a c. a * 10 + the (digit_value c)) 0 (replicate n (CHR ''0'')) = 0"
    by (induction n) simp_all
  then show ?thesis by (simp add: dec_value_def)
qed

lemma dec_zero [simp]:
  "dec_string (CHR ''0'' # s) = dec_string s" "dec_value (CHR ''0'' # s) = dec_value s"
  using dec_string_append [of "replicate 1 (CHR ''0'')" s] dec_value_append [of "replicate 1 (CHR ''0'')" s]
    dec_string_zeros [of 1] dec_value_zeros [of 1] by (simp_all del: dec_string_append dec_value_append)

lemma dec_nat_digits [simp]: "dec_string (dec_nat n)" "dec_value (dec_nat n) = n"
proof -
  have "dec_string (dec_nat n) \<and> dec_value (dec_nat n) = n"
  proof (induction n rule: dec_nat.induct)
    case (1 n)
    have "dec_string [digit_char (n mod 10)]"
      by (auto simp: dec_string_def intro: exI [of _ "n mod 10"])
    then show ?case using 1
      by (cases "n < 10") (auto simp: dec_nat.simps [of n])
  qed
  then show "dec_string (dec_nat n)" "dec_value (dec_nat n) = n" by blast+
qed

lemma dec_nat_bound: "n < 10 ^ k \<Longrightarrow> 0 < k \<Longrightarrow> length (dec_nat n) \<le> k"
proof (induction n arbitrary: k rule: dec_nat.induct)
  case (1 n)
  show ?case
  proof (cases "n < 10")
    case False
    then obtain j where k: "k = Suc j" "0 < j" using 1(2,3) by (cases k; cases "k - 1") auto
    then have "n div 10 < 10 ^ j" using 1(2) by (simp add: div_less_iff_less_mult mult.commute)
    then show ?thesis using 1(1) False k by (simp add: dec_nat.simps [of n])
  qed (use 1(3) in \<open>simp add: dec_nat.simps [of n]\<close>)
qed

lemma digit_char_base:
  assumes "d < 10"
  shows "base_digit 10 (digit_char d) = Some d" and "digit_char d \<noteq> CHR ''.''" and "digit_char d \<noteq> CHR ''_''"
    and "lower (digit_char d) = digit_char d" and "digit_char d \<noteq> CHR ''x''" and "digit_char d \<noteq> CHR ''i''"
    and "digit_char d \<noteq> CHR ''n''" and "digit_char d \<noteq> CHR ''-''" and "digit_char d \<noteq> CHR ''+''"
proof -
  have "d \<in> {0, 1, 2, 3, 4, 5, 6, 7, 8, 9}" using assms by auto
  then have "base_digit 10 (digit_char d) = Some d \<and> digit_char d \<noteq> CHR ''.'' \<and> digit_char d \<noteq> CHR ''_'' \<and>
      lower (digit_char d) = digit_char d \<and> digit_char d \<noteq> CHR ''x'' \<and> digit_char d \<noteq> CHR ''i'' \<and>
      digit_char d \<noteq> CHR ''n'' \<and> digit_char d \<noteq> CHR ''-'' \<and> digit_char d \<noteq> CHR ''+''"
    by (elim insertE emptyE; simp only:; code_simp)
  then show "base_digit 10 (digit_char d) = Some d" "digit_char d \<noteq> CHR ''.''" "digit_char d \<noteq> CHR ''_''"
    "lower (digit_char d) = digit_char d" "digit_char d \<noteq> CHR ''x''" "digit_char d \<noteq> CHR ''i''"
    "digit_char d \<noteq> CHR ''n''" "digit_char d \<noteq> CHR ''-''" "digit_char d \<noteq> CHR ''+''" by blast+
qed

text \<open>What the loops make of digits.\<close>

lemma float_digits_dec:
  "dec_string s \<Longrightarrow> float_digits 10 (s @ rest) n fr sd us =
    float_digits 10 rest (n * 10 ^ length s + dec_value s) (map_option (\<lambda>k. k + length s) fr) (sd \<or> s \<noteq> []) us"
proof (induction s arbitrary: n fr sd)
  case (Cons c s)
  then obtain d where d: "d < 10" "c = digit_char d" "dec_string s" by (auto simp: dec_string_def)
  have v: "dec_value (c # s) = d * 10 ^ length s + dec_value s"
    using dec_value_append [of "[c]" s] d by simp
  show ?case
    using Cons.IH [OF d(3)] d v
    by (simp add: digit_char_base [OF d(1)] option.map_comp comp_def algebra_simps)
qed (simp add: option.map_ident)

lemma exp_digits_dec:
  "dec_string s \<Longrightarrow> n * 10 ^ length s + dec_value s < 10 ^ 5 \<Longrightarrow>
   exp_digits s n us = (n * 10 ^ length s + dec_value s, us, [])"
proof (induction s arbitrary: n)
  case (Cons c s)
  then obtain d where d: "d < 10" "c = digit_char d" "dec_string s" by (auto simp: dec_string_def)
  have v: "dec_value (c # s) = d * 10 ^ length s + dec_value s"
    using dec_value_append [of "[c]" s] d by simp
  have b: "(n * 10 + d) * 10 ^ length s + dec_value s < 10 ^ 5"
    using Cons.prems(2) v by (simp add: algebra_simps)
  define x where "x = (n * 10 + d) * 10 ^ length s"
  have "n * 10 + d \<le> x" by (simp add: x_def)
  then have "n < 10000" using b [folded x_def] by simp
  then show ?case
    using Cons.IH [OF d(3) b] d v by (simp add: digit_char_base [OF d(1)] algebra_simps)
qed simp

section \<open>Printing and parsing\<close>

text \<open>A number in the text: digits, perhaps a point and more digits, perhaps an exponent.\<close>

definition point_part :: "string option \<Rightarrow> string" where
  "point_part f = (case f of None \<Rightarrow> [] | Some ds \<Rightarrow> CHR ''.'' # ds)"

definition exp_part :: "int option \<Rightarrow> string" where
  "exp_part e =
    (case e of None \<Rightarrow> []
     | Some x \<Rightarrow> CHR ''e'' # (if x < 0 then CHR ''-'' else CHR ''+'') #
         (if nat \<bar>x\<bar> < 10 then CHR ''0'' # dec_nat (nat \<bar>x\<bar>) else dec_nat (nat \<bar>x\<bar>)))"

lemma stop_chars:
  "base_digit 10 (CHR ''e'') = None" "lower (CHR ''e'') = CHR ''e''" "lower (CHR ''.'') = CHR ''.''"
  "lower (CHR ''-'') = CHR ''-''" "lower (CHR ''+'') = CHR ''+''" "digit_char 0 = CHR ''0''"
  by code_simp+

lemma float_digits_text:
  assumes "dec_string a" "a \<noteq> []" "\<And>ds. f = Some ds \<Longrightarrow> dec_string ds"
  shows "float_digits 10 (a @ point_part f @ exp_part e) 0 None False False =
    (dec_value (a @ (case f of None \<Rightarrow> [] | Some ds \<Rightarrow> ds)), map_option length f, True, False, exp_part e)"
proof -
  have stop: "float_digits 10 (exp_part e) n fr True False = (n, fr, True, False, exp_part e)" for n fr
    by (simp add: exp_part_def stop_chars split: option.split)
  show ?thesis
  proof (cases f)
    case None
    then show ?thesis using float_digits_dec [OF assms(1), of "exp_part e"] assms(2)
      by (simp add: point_part_def stop)
  next
    case (Some ds)
    from float_digits_dec [OF assms(3) [OF Some], of "exp_part e" "dec_value a" "Some 0" True False]
    show ?thesis using Some float_digits_dec [OF assms(1), of "point_part f @ exp_part e"] assms(2)
      by (simp add: point_part_def stop)
  qed
qed

lemma read_exp_text:
  assumes "\<And>x. e = Some x \<Longrightarrow> \<bar>x\<bar> < 10000"
  shows "\<exists>h. read_exp (CHR ''e'') (exp_part e) = Some (case e of None \<Rightarrow> 0 | Some x \<Rightarrow> x, h, False, [])"
proof (cases e)
  case None
  then show ?thesis by (intro exI [of _ False]) (simp add: read_exp_def exp_part_def)
next
  case (Some x)
  define ds where "ds = (if nat \<bar>x\<bar> < 10 then CHR ''0'' # dec_nat (nat \<bar>x\<bar>) else dec_nat (nat \<bar>x\<bar>))"
  have v: "dec_string ds" "dec_value ds = nat \<bar>x\<bar>" "ds \<noteq> []" by (auto simp: ds_def)
  have "exp_digits ds 0 False = (nat \<bar>x\<bar>, False, [])"
    using exp_digits_dec [OF v(1), of 0 False] v(2) assms [OF Some] by simp
  moreover obtain d s where "ds = digit_char d # s" "d < 10" using v(1,3) by (cases ds) (auto simp: dec_string_def)
  moreover have "exp_part e = CHR ''e'' # (if x < 0 then CHR ''-'' else CHR ''+'') # ds"
    using Some by (simp add: exp_part_def ds_def)
  ultimately show ?thesis
    using Some by (auto simp: read_exp_def Let_def stop_chars strip_sign_def digit_char_base)
qed

lemma text_chars:
  assumes "dec_string a" "\<And>ds. f = Some ds \<Longrightarrow> dec_string ds" "c \<in> set (a @ point_part f @ exp_part e)"
  shows "lower c \<noteq> CHR ''x''"
proof -
  have d: "lower c \<noteq> CHR ''x''" if "dec_string s" "c \<in> set s" for s
    using that digit_char_base(4,5) by (auto simp: dec_string_def list_all_iff)
  have "c \<in> set a \<or> (\<exists>ds. f = Some ds \<and> c \<in> set ds) \<or> c \<in> {CHR ''.'', CHR ''e'', CHR ''-'', CHR ''+''} \<or>
      (\<exists>n. c \<in> set (dec_nat n)) \<or> c \<in> set (replicate 1 (CHR ''0''))"
    using assms(3) by (auto simp: point_part_def exp_part_def split: option.splits if_splits)
  then show ?thesis
    using d [OF assms(1)] d [OF assms(2)] d [OF dec_nat_digits(1)] d [OF dec_string_zeros] stop_chars
    by (elim disjE exE) (auto simp del: replicate.simps)
qed

theorem ParseFloat_text:
  assumes a: "dec_string a" "a \<noteq> []" and f: "\<And>ds. f = Some ds \<Longrightarrow> dec_string ds"
    and e: "\<And>x. e = Some x \<Longrightarrow> \<bar>x\<bar> < 10000"
    and v: "number_fields 10 (dec_value (a @ (case f of None \<Rightarrow> [] | Some ds \<Rightarrow> ds)))
      ((case e of None \<Rightarrow> 0 | Some x \<Rightarrow> x) - int (case f of None \<Rightarrow> 0 | Some ds \<Rightarrow> length ds)) = m"
    and m: "m < 2047 * 2 ^ 52"
  shows "strconv_ParseFloat ((if neg then ''-'' else []) @ a @ point_part f @ exp_part e) = Inr (fmake neg m)"
proof -
  define u where "u = a @ point_part f @ exp_part e"
  let ?s = "(if neg then ''-'' else []) @ u"
  obtain d as where ad: "a = digit_char d # as" "d < 10" using a by (cases a) (auto simp: dec_string_def)
  note dc = digit_char_base [OF ad(2)]
  have st: "strip_sign ?s = u" using ad dc by (simp add: strip_sign_def u_def)
  have sp: "special ?s = None" using ad dc stop_chars by (simp add: special_def st) (simp add: u_def)
  have nx: "lower (u ! 1) \<noteq> CHR ''x''" if "2 < length u"
  proof -
    have "u ! 1 \<in> set (a @ point_part f @ exp_part e)" using that by (simp add: u_def [symmetric])
    with a(1) f show ?thesis by (rule text_chars)
  qed
  then have hx: "(2 < length u \<and> hd u = CHR ''0'' \<and> lower (u ! 1) = CHR ''x'') = False" by blast
  obtain h where r: "read_exp (CHR ''e'') (exp_part e) = Some (case e of None \<Rightarrow> 0 | Some x \<Rightarrow> x, h, False, [])"
    using read_exp_text [OF e] by blast
  have hd: "(hd ?s = CHR ''-'') = neg" using ad dc by (simp add: u_def)
  have fd: "float_digits 10 u 0 None False False =
      (dec_value (a @ (case f of None \<Rightarrow> [] | Some ds \<Rightarrow> ds)), map_option length f, True, False, exp_part e)"
    unfolding u_def using a f by (rule float_digits_text)
  have rf: "readFloat ?s = Some (neg, 10, dec_value (a @ (case f of None \<Rightarrow> [] | Some ds \<Rightarrow> ds)),
      (case e of None \<Rightarrow> 0 | Some x \<Rightarrow> x) - int (case f of None \<Rightarrow> 0 | Some ds \<Rightarrow> length ds))"
    unfolding readFloat_def Let_def st hx if_False fd prod.case r option.case hd
    by (cases f) (simp_all del: dec_value_append)
  show ?thesis
    unfolding u_def [symmetric] strconv_ParseFloat_def sp option.case rf prod.case v using m by simp
qed

section \<open>The round trip\<close>

lemma fman_pos: "fman m = 0 \<longleftrightarrow> m = 0"
proof
  assume "fman m = 0"
  then have "fsig m = 0" by (simp add: fman_def)
  then have "fexp m = 0" using fsig_bounds(2) [of m] by (cases "fexp m") auto
  then show "m = 0" using fields_sig [of m] \<open>fsig m = 0\<close> by simp
qed (simp add: fman_def fsig_def)

text \<open>A decimal in the interval is read as the double.\<close>

lemma units_of_ten:
  fixes n :: nat
  shows "n * a * 10 ^ p = c * b \<Longrightarrow> n * 2 ^ p * a * 5 ^ p = c * b"
    and "n * 10 ^ k = t \<Longrightarrow> i + p = z + k \<Longrightarrow> n * 10 ^ i * 10 ^ p = t * 10 ^ z"
    and "n * 10 ^ k = t \<Longrightarrow> p = z + k + j \<Longrightarrow> n * 10 ^ p = t * 10 ^ z * 10 ^ j"
proof -
  have "(10::nat) ^ p = 2 ^ p * 5 ^ p" by (simp add: power_mult_distrib [symmetric])
  then show "n * a * 10 ^ p = c * b \<Longrightarrow> n * 2 ^ p * a * 5 ^ p = c * b" by (simp add: mult.assoc mult.left_commute)
  show "n * 10 ^ i * 10 ^ p = t * 10 ^ z" if "n * 10 ^ k = t" "i + p = z + k"
  proof -
    have "n * 10 ^ i * 10 ^ p = n * 10 ^ (z + k)" by (simp only: mult.assoc power_add [symmetric] that(2))
    then show ?thesis by (simp only: that(1) [symmetric] power_add mult.assoc mult.commute [of "10 ^ z"])
  qed
  show "n * 10 ^ p = t * 10 ^ z * 10 ^ j" if "n * 10 ^ k = t" "p = z + k + j"
    by (simp add: that(1) [symmetric] that(2) power_add)
qed

lemma number_fields_interval:
  assumes "0 < m" "m < 2047 * 2 ^ 52" "in_interval m c (5 ^ 1074)"
    and "n * 10 ^ nat x * 10 ^ 1074 = c * 10 ^ nat (- x)"
  shows "number_fields 10 n x = m"
proof -
  have p: "(0::nat) < 10 ^ k" "(0::nat) < 5 ^ k" for k by simp_all
  show ?thesis
    unfolding number_fields_def fpack_ratio_cong [OF p units_of_ten(1) [OF assms(4)]]
    by (rule fpack_ratio_interval [OF assms(1,2) p(2) assms(3)])
qed

lemma number_fields_units:
  assumes "0 < m" "m < 2047 * 2 ^ 52" "in_interval m (t * 10 ^ z) (5 ^ 1074)"
    and "n * 10 ^ k = t" "x = int z + int k - 1074"
  shows "number_fields 10 n x = m"
proof (rule number_fields_interval [OF assms(1-3)])
  show "n * 10 ^ nat x * 10 ^ 1074 = t * 10 ^ z * 10 ^ nat (- x)"
  proof (cases "0 \<le> x")
    case True
    then have "nat x + 1074 = z + k" and n: "nat (- x) = 0" using assms(5) by simp_all
    from units_of_ten(2) [OF assms(4) this(1)] show ?thesis by (simp only: n power_0 mult_1_right)
  next
    case False
    then have "1074 = z + k + nat (- x)" and n: "nat x = 0" using assms(5) by simp_all
    from units_of_ten(3) [OF assms(4) this(1)] show ?thesis by (simp only: n power_0 mult_1_right)
  qed
qed

lemma strip_zeros_value:
  "strip_zeros t z = (t', z') \<Longrightarrow> t' * 10 ^ z' = t * 10 ^ z \<and> (t \<noteq> 0 \<longrightarrow> t' \<noteq> 0)"
proof (induction t z rule: strip_zeros.induct)
  case (1 t z)
  show ?case
  proof (cases "t \<noteq> 0 \<and> t mod 10 = 0")
    case True
    have "t div 10 * 10 = t" "t div 10 \<noteq> 0" using True by auto
    moreover have "t' * 10 ^ z' = t div 10 * 10 ^ Suc z \<and> (t div 10 \<noteq> 0 \<longrightarrow> t' \<noteq> 0)"
      using 1 True by (simp add: strip_zeros.simps [of t])
    ultimately show ?thesis by (metis mult.assoc power_Suc)
  next
    case False
    then show ?thesis using 1(2) by (auto simp: strip_zeros.simps [of t])
  qed
qed

lemma gap_below_le: "gap_below m \<le> 2 * 2 ^ fexp m"
  by (simp add: gap_below_def)

lemma in_interval_pos:
  assumes "0 < m" "0 < d" "in_interval m c d"
  shows "c \<noteq> 0"
proof
  assume "c = 0"
  have "0 < fsig m" using assms(1) fman_pos [of m] by (auto simp: fman_def)
  then have "4 * 2 ^ fexp m \<le> 4 * fman m" by (simp add: fman_def)
  moreover have "2 * 2 ^ fexp m < (4::nat) * 2 ^ fexp m" by simp
  ultimately have "gap_below m < 4 * fman m" using gap_below_le [of m] by linarith
  then have "0 < (4 * fman m - gap_below m) * d" using assms(2) by simp
  then show False using assms(3) \<open>c = 0\<close> by (simp add: in_interval_def Let_def split: if_splits)
qed

lemma fexp_bound: "m < 2047 * 2 ^ 52 \<Longrightarrow> fexp m \<le> 2045"
proof -
  assume "m < 2047 * 2 ^ 52"
  then have "m div 2 ^ 52 < 2047" by (simp only: div_less_iff_less_mult zero_less_power zero_less_numeral)
  then show ?thesis by (simp add: fexp_def)
qed

lemma power_split:
  fixes S k :: nat
  assumes "S < 2 ^ 53" "k \<le> j"
  shows "4 * (S * 2 ^ k) + 2 * 2 ^ k \<le> 10 ^ (56 + j)"
proof -
  have "4 * (S * 2 ^ k) + 2 * 2 ^ k = (4 * S + 2) * 2 ^ k" by (simp add: algebra_simps)
  also have "\<dots> \<le> 2 ^ 56 * 2 ^ j"
    using assms by (intro mult_le_mono power_increasing) simp_all
  also have "\<dots> = 2 ^ (56 + j)" by (simp only: power_add)
  also have "\<dots> \<le> 10 ^ (56 + j)" by (intro power_mono) simp_all
  finally show ?thesis .
qed

lemma power_five: "5 ^ j \<le> (10 :: nat) ^ j"
  by (intro power_mono) simp_all

lemma in_interval_bound:
  assumes "m < 2047 * 2 ^ 52" "in_interval m c (5 ^ j)"
  shows "c \<le> 10 ^ (56 + 2045 + j)"
proof -
  have "4 * c \<le> (4 * fman m + 2 * 2 ^ fexp m) * 5 ^ j"
    using assms(2) by (auto simp: in_interval_def Let_def split: if_splits)
  also have "\<dots> \<le> 10 ^ (56 + 2045) * 10 ^ j"
    unfolding fman_def by (intro mult_le_mono power_split fsig_bounds fexp_bound assms power_five)
  also have "\<dots> = 10 ^ (56 + 2045 + j)" by (simp only: power_add)
  finally show ?thesis by (rule order_trans [rotated]) simp
qed

lemma dec_length_bound:
  assumes "t \<noteq> 0" "t * 10 ^ z \<le> 10 ^ j"
  shows "length (dec_nat t) + z \<le> Suc j"
proof -
  have "1 * 10 ^ z \<le> t * 10 ^ z" using assms(1) by (intro mult_le_mono1) simp
  from order_trans [OF this assms(2)] have "(10::nat) ^ z \<le> 10 ^ j" by simp
  then have z: "z \<le> j" by simp
  then have "(10::nat) ^ j = 10 ^ (j - z) * 10 ^ z" by (simp add: power_add [symmetric])
  with assms(2) have "t \<le> 10 ^ (j - z)" by simp
  then have "t < 10 ^ Suc (j - z)" by (rule le_less_trans) simp
  from dec_nat_bound [OF this] z show ?thesis by simp
qed

lemma round_even_cases: "round_even n D = n div D \<or> round_even n D = n div D + 1"
  by (simp add: round_even_def Let_def)

lemma shortest_interval:
  assumes m: "0 < m" and s: "shortest m = (t, z)"
  shows "in_interval m (t * 10 ^ z) (5 ^ 1074)" and "t \<noteq> 0"
proof -
  define M where "M = fman m * 5 ^ 1074"
  have p: "(0::nat) < 5 ^ 1074" by (rule zero_less_power) simp
  have e: "shortest m = (case find (enough_digits m M) [1..<length (dec_nat M)] of
      None \<Rightarrow> strip_zeros M 0 | Some n \<Rightarrow> strip_zeros (cut_digits m M n) (length (dec_nat M) - n))"
    unfolding shortest_def Let_def M_def by (rule refl)
  obtain t0 z0 where st: "strip_zeros t0 z0 = (t, z)" and ok: "in_interval m (t0 * 10 ^ z0) (5 ^ 1074)"
  proof (cases "find (enough_digits m M) [1..<length (dec_nat M)]")
    case None
    then have "strip_zeros M 0 = (t, z)" using s e by simp
    moreover have "in_interval m (M * 10 ^ 0) (5 ^ 1074)"
      unfolding M_def power_0 mult_1_right by (rule in_interval_exact [OF p])
    ultimately show ?thesis by (rule that)
  next
    case (Some n)
    then have "enough_digits m M n" by (auto simp: find_Some_iff)
    then have "digits_fit m M n (cut_digits m M n)"
      using round_even_cases [of M "digit_place M n"] by (auto simp: cut_digits_def enough_digits_def Let_def)
    moreover have "strip_zeros (cut_digits m M n) (length (dec_nat M) - n) = (t, z)" using s e Some by simp
    ultimately show ?thesis unfolding digits_fit_def digit_place_def by (intro that)
  qed
  have "t0 \<noteq> 0" using in_interval_pos [OF m p ok] by auto
  then show "t \<noteq> 0" using strip_zeros_value [OF st] by blast
  show "in_interval m (t * 10 ^ z) (5 ^ 1074)"
    using ok by (simp only: conjunct1 [OF strip_zeros_value [OF st]])
qed

text \<open>The text of the digits, in each of its layouts.\<close>

lemma format_shortest_parse:
  assumes m: "0 < m" "m < 2047 * 2 ^ 52"
  shows "strconv_ParseFloat ((if neg then ''-'' else []) @ format_shortest m) = Inr (fmake neg m)"
proof -
  obtain t z where tz: "shortest m = (t, z)" by (cases "shortest m")
  note i = shortest_interval [OF m(1) tz]
  define ds dp where "ds = dec_nat t" and "dp = int (length ds) + int z - 1074"
  have len: "length ds + z \<le> Suc (56 + 2045 + 1074)"
    unfolding ds_def by (rule dec_length_bound [OF i(2) in_interval_bound [OF m(2) i(1)]])
  have ds: "dec_string ds" "dec_value ds = t" "ds \<noteq> []" "0 < length ds" by (simp_all add: ds_def)
  have x: "\<bar>dp - 1\<bar> < 10000" using len ds(4) by (simp add: dp_def)
  have nf: "number_fields 10 t (int z - 1074) = m"
    by (rule number_fields_units [OF m i(1), of t 0]) simp_all
  have f: "format_shortest m = (if dp - 1 < -4 \<or> 6 \<le> dp - 1 then fmtE ds dp else fmtF ds dp)"
    using m(1) fman_pos [of m] by (simp add: format_shortest_def tz ds_def dp_def Let_def)
  show ?thesis
  proof (cases "dp - 1 < -4 \<or> 6 \<le> dp - 1")
    case True
    let ?f = "if tl ds = [] then None else Some (tl ds)"
    have e: "fmtE ds dp = [hd ds] @ point_part ?f @ exp_part (Some (dp - 1))"
      by (simp add: fmtE_def point_part_def exp_part_def Let_def)
    have d: "dec_string [hd ds]" "dec_string (tl ds)" "[hd ds] @ tl ds = ds"
      using ds(1,3) by (cases ds; simp add: dec_string_def)+
    have nv: "number_fields 10 (dec_value ([hd ds] @ (case ?f of None \<Rightarrow> [] | Some ds \<Rightarrow> ds)))
        ((case Some (dp - 1) of None \<Rightarrow> 0 | Some x \<Rightarrow> x) - int (case ?f of None \<Rightarrow> 0 | Some ds \<Rightarrow> length ds)) = m"
    proof -
      have "[hd ds] @ (case ?f of None \<Rightarrow> [] | Some ds \<Rightarrow> ds) = ds" using ds(3) by (cases ds) auto
      moreover have "dp - 1 - int (case ?f of None \<Rightarrow> 0 | Some ds \<Rightarrow> length ds) = int z - 1074"
        using ds(3) by (cases ds; cases "tl ds") (simp_all add: dp_def)
      ultimately show ?thesis using nf ds(2) by (simp only: option.case)
    qed
    have "strconv_ParseFloat ((if neg then ''-'' else []) @ [hd ds] @ point_part ?f @ exp_part (Some (dp - 1))) =
        Inr (fmake neg m)"
      by (rule ParseFloat_text [where f = ?f, OF d(1) _ _ _ nv m(2)]) (use d(2) x in \<open>auto split: if_splits\<close>)
    then show ?thesis by (simp only: f if_P [OF True] e)
  next
    case False
    then have e: "format_shortest m = fmtF ds dp" by (simp only: f if_False)
    consider (whole) "0 < dp" "int (length ds) \<le> dp" | (split) "0 < dp" "dp < int (length ds)" | (small) "dp \<le> 0"
      by linarith
    then show ?thesis
    proof cases
      case whole
      define j where "j = nat dp - length ds"
      have j: "z = j + 1074" using whole by (simp add: j_def dp_def)
      have i': "in_interval m (t * 10 ^ j * 10 ^ 1074) (5 ^ 1074)"
        using i(1) by (simp only: j power_add mult.assoc)
      have "number_fields 10 (t * 10 ^ j) 0 = m" by (rule number_fields_units [OF m i', of _ 0]) simp_all
      then have v: "number_fields 10 (dec_value ((ds @ replicate j (CHR ''0'')) @ (case None of None \<Rightarrow> [] | Some ds \<Rightarrow> ds)))
          ((case None of None \<Rightarrow> 0 | Some x \<Rightarrow> x) - int (case None of None \<Rightarrow> 0 | Some ds \<Rightarrow> length ds)) = m"
        using ds(2) by simp
      have "fmtF ds dp = (ds @ replicate j (CHR ''0'')) @ point_part None @ exp_part None"
        using whole by (simp add: fmtF_def point_part_def exp_part_def j_def)
      with ParseFloat_text [OF _ _ _ _ v m(2)] ds(1,3) show ?thesis by (simp add: e)
    next
      case split
      have d: "dec_string (take (nat dp) ds)" "dec_string (drop (nat dp) ds)" "take (nat dp) ds \<noteq> []"
        using dec_string_take_drop [OF ds(1)] ds(3) split by simp_all
      have "int 0 - int (length (drop (nat dp) ds)) = int z - 1074" using split by (simp add: dp_def)
      then have v: "number_fields 10 (dec_value (take (nat dp) ds @ (case Some (drop (nat dp) ds) of None \<Rightarrow> [] | Some ds \<Rightarrow> ds)))
          ((case None of None \<Rightarrow> 0 | Some x \<Rightarrow> x) - int (case Some (drop (nat dp) ds) of None \<Rightarrow> 0 | Some ds \<Rightarrow> length ds)) = m"
        using nf ds(2) by (simp only: option.case append_take_drop_id) simp
      have "fmtF ds dp = take (nat dp) ds @ point_part (Some (drop (nat dp) ds)) @ exp_part None"
        using split by (simp add: fmtF_def point_part_def exp_part_def)
      with ParseFloat_text [OF d(1,3) _ _ v m(2)] d(2) show ?thesis by (simp add: e)
    next
      case small
      let ?b = "replicate (nat (- dp)) (CHR ''0'') @ ds"
      have "int 0 - int (length ?b) = int z - 1074" using small by (simp add: dp_def)
      then have v: "number_fields 10 (dec_value ([CHR ''0''] @ (case Some ?b of None \<Rightarrow> [] | Some ds \<Rightarrow> ds)))
          ((case None of None \<Rightarrow> 0 | Some x \<Rightarrow> x) - int (case Some ?b of None \<Rightarrow> 0 | Some ds \<Rightarrow> length ds)) = m"
        using nf ds(2) by (simp only: option.case append_Cons append_Nil dec_zero dec_value_append dec_value_zeros) simp
      have "fmtF ds dp = [CHR ''0''] @ point_part (Some ?b) @ exp_part None"
        using small by (simp add: fmtF_def point_part_def exp_part_def)
      with ParseFloat_text [OF _ _ _ _ v m(2)] ds(1) show ?thesis by (simp add: e)
    qed
  qed
qed

lemma nat_units: "nat (- 1) = 0" "nat (- (- 1)) = 1"
  by simp_all

lemma integral_fields:
  assumes "0 < m" "m < 2047 * 2 ^ 52" "fman m = n * 2 ^ j"
  shows "fpack_ratio (n * 10 * 2 ^ j * b ^ 0) (10 ^ 1) = m"
proof -
  have "fpack_ratio (n * 10 * 2 ^ j * b ^ 0) (10 ^ 1) = fpack_ratio (fman m * 1) 1"
    by (rule fpack_ratio_cong) (simp_all add: assms(3))
  then show ?thesis using fpack_ratio_interval [OF assms(1,2) _ in_interval_exact, of 1] by simp
qed

lemma fmt_1f_parse:
  assumes "m < 2047 * 2 ^ 52" "fman m mod 2 ^ 1074 = 0"
  shows "strconv_ParseFloat ((if neg then ''-'' else []) @ dec_nat (fman m div 2 ^ 1074) @ ''.0'') = Inr (fmake neg m)"
proof -
  define n where "n = fman m div 2 ^ 1074"
  have n: "fman m = n * 2 ^ 1074" unfolding n_def using assms(2) by (metis div_mult_mod_eq add_0_right)
  have "number_fields 10 (n * 10) (- 1) = m"
  proof (cases "m = 0")
    case True
    then have "fman m = 0" by (simp add: fman_pos)
    then have "n = 0" by (simp add: n_def)
    then show ?thesis using True by (simp add: number_fields_def)
  next
    case False
    from integral_fields [OF _ assms(1) n] False show ?thesis
      by (simp only: number_fields_def nat_units)
  qed
  then have v: "number_fields 10 (dec_value (dec_nat n @ (case Some (replicate 1 (CHR ''0'')) of None \<Rightarrow> [] | Some ds \<Rightarrow> ds)))
      ((case None of None \<Rightarrow> 0 | Some x \<Rightarrow> x) - int (case Some (replicate 1 (CHR ''0'')) of None \<Rightarrow> 0 | Some ds \<Rightarrow> length ds)) = m"
    by (simp del: replicate.simps)
  from ParseFloat_text [OF _ _ _ _ v assms(1)] show ?thesis
    unfolding n_def [symmetric] by (simp add: point_part_def exp_part_def)
qed

lemma special_chars:
  "lower (CHR ''N'') = CHR ''n''" "lower (CHR ''a'') = CHR ''a''" "lower (CHR ''I'') = CHR ''i''"
  "lower (CHR ''n'') = CHR ''n''" "lower (CHR ''f'') = CHR ''f''" "lower (CHR ''-'') = CHR ''-''"
  "lower (CHR ''+'') = CHR ''+''"
  by code_simp+

theorem float_round_trip [roundtrip]:
  "strconv_ParseFloat (Float_String x) = Inr (if is_nan x then qnan else x)"
proof -
  define m where "m = fmag x"
  have x: "fmake (fneg x) m = x" by (simp add: m_def)
  consider (nan) "is_nan x" | (inf) "is_inf x" | (finite) "\<not> is_nan x" "\<not> is_inf x" by blast
  then show ?thesis
  proof cases
    case nan
    then have "Float_String x = ''NaN''" by (simp add: Float_String_def f64_less_def fmt_g_def)
    moreover have "special ''NaN'' = Some qnan" by (simp add: special_def strip_sign_def special_chars)
    ultimately show ?thesis using nan by (simp add: strconv_ParseFloat_def)
  next
    case inf
    then have n: "\<not> is_nan x" "m = 2047 * 2 ^ 52" by (simp_all add: is_nan_def is_inf_def m_def)
    have t: "Float_String x = (if fneg x then ''-Inf'' else ''+Inf'')"
      using inf n(1) by (simp add: Float_String_def modf_frac_0_def fmt_g_def)
    have "special ''-Inf'' = Some (fmake True (2047 * 2 ^ 52))" "special ''+Inf'' = Some (fmake False (2047 * 2 ^ 52))"
      by (simp_all add: special_def strip_sign_def special_chars)
    then have "strconv_ParseFloat (Float_String x) = Inr (fmake (fneg x) m)"
      unfolding t n(2) by (simp add: strconv_ParseFloat_def)
    then show ?thesis using x n(1) by simp
  next
    case finite
    then have m: "m < 2047 * 2 ^ 52" by (simp add: is_nan_def is_inf_def m_def)
    have g: "strconv_ParseFloat (fmt_g x) = Inr x" if "m \<noteq> 0"
    proof -
      have "fmt_g x = (if fneg x then ''-'' else []) @ format_shortest m"
        using finite by (simp add: fmt_g_def float_sign_def m_def)
      then show ?thesis using format_shortest_parse [OF _ m, of "fneg x"] that x by (simp only: neq0_conv)
    qed
    have f: "strconv_ParseFloat (fmt_1f x) = Inr x" if "modf_frac_0 x"
    proof -
      have "fmt_1f x = (if fneg x then ''-'' else []) @ dec_nat (fman m div 2 ^ 1074) @ ''.0''"
        unfolding fmt_1f_def float_sign_def m_def by (rule refl)
      moreover have "fman m mod 2 ^ 1074 = 0" using that unfolding modf_frac_0_def m_def by blast
      ultimately show ?thesis using fmt_1f_parse [OF m, of "fneg x"] x by (simp only:)
    qed
    have z: "modf_frac_0 x \<and> f64_less (f64_of_int (- 1000000)) x \<and> f64_less x (f64_of_int 1000000)" if "m = 0"
    proof -
      have "fman (fmag x) = 0" using that by (simp add: m_def [symmetric] fman_pos)
      then have "fval x = 0" "modf_frac_0 x" using finite by (simp_all add: fval_def with_sign_def modf_frac_0_def)
      moreover have "sint (- 1000000 :: u64) = - 1000000" "sint (1000000 :: u64) = 1000000" by simp_all
      ultimately show ?thesis
        using f64_of_int_exact [of "- 1000000"] f64_of_int_exact [of 1000000] finite(1)
        by (simp add: f64_less_def)
    qed
    from f g z finite(1) show ?thesis unfolding Float_String_def by auto
  qed
qed

end
