(* ===== verification/Engine_Text.thy ===== *)
theory Engine_Text
  imports Float_Text Query_Ops
begin

text \<open>
  The texts of the execution engine: the \<^verbatim>\<open>String\<close> methods of values, expressions, attributes and
  projections (\<^verbatim>\<open>vm/value\<close>, \<^verbatim>\<open>vm/extend\<close>, \<^verbatim>\<open>storage/metadata\<close>, \<^verbatim>\<open>vm/op/origin/projection\<close>) and the
  message of a comparison of unlike values. Go strings are bytes, so the letter of a projection is
  its two bytes of UTF-8. \<^verbatim>\<open>fmt\<close> recovers from a \<^verbatim>\<open>String\<close> method that panics and writes the panic
  into the text.
\<close>

section \<open>Values and types\<close>

fun Value_String :: "Value \<Rightarrow> string" where
  "Value_String (IntV i) = Int_String i"
| "Value_String (FloatV x) = Float_String x"

text \<open>The verb \<^verbatim>\<open>%s\<close> for a type.\<close>

definition fmt_type :: "T \<Rightarrow> string" where
  "fmt_type t =
    (case T_String t of
       Some s \<Rightarrow> s
     | None \<Rightarrow> ''%!s(PANIC=String method: unexpected oid: '' @ dec_nat (unat (Oid t)) @ '')'')"

definition makeUnsupportedComparisonMessage :: "Value \<Rightarrow> Value \<Rightarrow> string" where
  "makeUnsupportedComparisonMessage d1 d2 =
    ''unsupported comparison: '' @ fmt_type (ResolvedType d1) @ '' to '' @ fmt_type (ResolvedType d2)"

definition metadata_String :: "meta_attribute \<Rightarrow> string" where
  "metadata_String a = m_Name a @ ''('' @ fmt_type \<lparr>Oid = m_Type a\<rparr> @ '')''"

section \<open>Expressions\<close>

primrec Extend_String :: "Extend \<Rightarrow> string" where
  "Extend_String (BinaryExtend op l r) =
    (if op = Plus then Extend_String l @ '' + '' @ Extend_String r
     else if op = Minus then Extend_String l @ '' - '' @ Extend_String r
     else [])"
| "Extend_String (Attribute t n) = n"
| "Extend_String (Constant v) = Value_String v"

definition Paren_String :: "ParenExtend \<Rightarrow> string" where
  "Paren_String e = ''('' @ Extend_String (E e) @ '')''"

section \<open>Projections\<close>

definition named_String :: "Named \<Rightarrow> string" where
  "named_String e =
    (if Alias e = [] then Extend_String (expr e)
     else Extend_String (expr e) @ '' -> '' @ Alias e)"

fun named_list_String :: "nat \<Rightarrow> Named list \<Rightarrow> string" where
  "named_list_String i [] = []"
| "named_list_String i (e # es) =
    (case i of 0 \<Rightarrow> named_String e | Suc _ \<Rightarrow> '', '' @ named_String e) @ named_list_String (Suc i) es"

text \<open>
  The block relation has no \<^verbatim>\<open>String\<close> method; what \<^verbatim>\<open>fmt\<close> prints for its struct, addresses
  included, is the parameter \<open>struct\<close>.
\<close>

primrec OP_String :: "(int \<Rightarrow> relation option \<Rightarrow> string) \<Rightarrow> OP \<Rightarrow> string" where
  "OP_String struct (Relation sg r) = struct sg r"
| "OP_String struct (Projection chk prev es) =
    [CHR 0xCF, CHR 0x80] @ ''(['' @ named_list_String 0 es @ ''], '' @ OP_String struct prev @ '')''"

section \<open>What the texts show\<close>

text \<open>The type of every value has a name, so the message of a comparison names both.\<close>

lemma fmt_ResolvedType: "fmt_type (ResolvedType v) = (case v of IntV _ \<Rightarrow> ''INT'' | FloatV _ \<Rightarrow> ''FLOAT'')"
  by (cases v) (simp_all add: fmt_type_def T_String_def SQLString_def types_Int_def types_Float_def
      T_int_def T_float_def T_null_def T_bool_def T_timestamp_def)

text \<open>
  The text of an expression is the list of its operands and operators from left to right: the
  grouping is lost, and with it the value of a difference.
\<close>

primrec known_ops :: "Extend \<Rightarrow> bool" where
  "known_ops (BinaryExtend op l r) \<longleftrightarrow> op \<in> {Plus, Minus} \<and> known_ops l \<and> known_ops r"
| "known_ops (Attribute t n) \<longleftrightarrow> True"
| "known_ops (Constant v) \<longleftrightarrow> True"

primrec spelled :: "Extend \<Rightarrow> string list" where
  "spelled (BinaryExtend op l r) = spelled l @ [the (OpName op)] @ spelled r"
| "spelled (Attribute t n) = [n]"
| "spelled (Constant v) = [Value_String v]"

fun unwords :: "string list \<Rightarrow> string" where
  "unwords [] = []"
| "unwords [s] = s"
| "unwords (s # t # ss) = s @ '' '' @ unwords (t # ss)"

lemma unwords_append: "ss \<noteq> [] \<Longrightarrow> ts \<noteq> [] \<Longrightarrow> unwords (ss @ ts) = unwords ss @ '' '' @ unwords ts"
  by (induction ss rule: unwords.induct) (auto simp: neq_Nil_conv)

lemma spelled_not_Nil [simp]: "spelled e \<noteq> []"
  by (cases e) simp_all

lemma Extend_String_spelled: "known_ops e \<Longrightarrow> Extend_String e = unwords (spelled e)"
proof (induction e)
  case (BinaryExtend op l r)
  then show ?case
    using unwords_append [of "spelled l" "the (OpName op) # spelled r"] unwords_append [of "[the (OpName op)]" "spelled r"]
    by (auto simp: OpName_def Plus_def Minus_def)
qed simp_all

lemma grouping_not_shown:
  "Extend_String (BinaryExtend Minus (BinaryExtend Minus a b) c) =
   Extend_String (BinaryExtend Minus a (BinaryExtend Minus b c))"
  by (simp add: Minus_def Plus_def)

end
