(* ===== verification/Http_Text.thy ===== *)
theory Http_Text
  imports Prelude
begin

text \<open>
  The text formats between the HTTP client and the server, as Go's standard library and its
  users here have them: what \<^verbatim>\<open>encoding/json\<close> makes of a string that is no UTF-8, the base64 in
  which it carries a byte slice, and the query string of a URL (\<^verbatim>\<open>net/url\<close>). JSON text itself is represented by
  the object it stands for. Nothing here is code of the repository.
\<close>

section \<open>UTF-8\<close>

definition cont :: "byte \<Rightarrow> bool" where
  "cont b \<longleftrightarrow> 0x80 \<le> b \<and> b \<le> 0xBF"

text \<open>The length of the UTF-8 sequence a string starts with, if it starts with one.\<close>

fun rune_length :: "bytes \<Rightarrow> nat option" where
  "rune_length [] = None"
| "rune_length (a # s) =
    (if a < 0x80 then Some 1
     else case s of
       [] \<Rightarrow> None
     | b # s \<Rightarrow>
         if 0xC2 \<le> a \<and> a \<le> 0xDF then (if cont b then Some 2 else None)
         else (case s of
           [] \<Rightarrow> None
         | c # s \<Rightarrow>
             if 0xE0 \<le> a \<and> a \<le> 0xEF then
               (if cont b \<and> cont c \<and> (a = 0xE0 \<longrightarrow> 0xA0 \<le> b) \<and> (a = 0xED \<longrightarrow> b \<le> 0x9F) then Some 3 else None)
             else (case s of
               [] \<Rightarrow> None
             | d # _ \<Rightarrow>
                 if 0xF0 \<le> a \<and> a \<le> 0xF4 \<and> cont b \<and> cont c \<and> cont d \<and>
                   (a = 0xF0 \<longrightarrow> 0x90 \<le> b) \<and> (a = 0xF4 \<longrightarrow> b \<le> 0x8F) then Some 4 else None)))"

lemma rune_length_pos: "rune_length s = Some n \<Longrightarrow> 0 < n \<and> n \<le> length s"
  by (cases s rule: rune_length.cases) (auto split: if_splits list.splits)

text \<open>A string through JSON: every byte that starts no sequence becomes the replacement character.\<close>

function json_string :: "bytes \<Rightarrow> bytes" where
  "json_string s =
    (if s = [] then []
     else case rune_length s of
       Some n \<Rightarrow> take n s @ json_string (drop n s)
     | None \<Rightarrow> [0xEF, 0xBF, 0xBD] @ json_string (tl s))"
  by auto

termination
  by (relation "measure length") (auto dest: rune_length_pos)

declare json_string.simps [simp del]

function valid_utf8 :: "bytes \<Rightarrow> bool" where
  "valid_utf8 s \<longleftrightarrow>
    (if s = [] then True
     else case rune_length s of Some n \<Rightarrow> valid_utf8 (drop n s) | None \<Rightarrow> False)"
  by auto

termination
  by (relation "measure length") (auto dest: rune_length_pos)

declare valid_utf8.simps [simp del]

lemma json_string_valid: "valid_utf8 s \<Longrightarrow> json_string s = s"
proof (induction s rule: valid_utf8.induct)
  case (1 s)
  then show ?case
    by (cases "s = []"; subst json_string.simps)
      (auto simp: valid_utf8.simps [of s] split: option.splits)
qed

lemma json_string_empty: "json_string s = [] \<longleftrightarrow> s = []"
  by (subst json_string.simps) (auto split: option.splits dest: rune_length_pos)

lemma valid_utf8_ascii: "list_all (\<lambda>b. b < 0x80) s \<Longrightarrow> valid_utf8 s"
proof (induction s)
  case (Cons b s)
  then show ?case by (simp add: valid_utf8.simps [of "b # s"])
qed (simp add: valid_utf8.simps)

section \<open>Base64\<close>

definition alphabet :: string where
  "alphabet = ''ABCDEFGHIJKLMNOPQRSTUVWXYZabcdefghijklmnopqrstuvwxyz0123456789+/''"

definition b64_char :: "nat \<Rightarrow> char" where
  "b64_char i = alphabet ! i"

definition b64_index :: "char \<Rightarrow> nat option" where
  "b64_index c =
    (case List.find (\<lambda>i. alphabet ! i = c) [0..<64] of Some i \<Rightarrow> Some i | None \<Rightarrow> None)"

fun b64_encode :: "bytes \<Rightarrow> string" where
  "b64_encode [] = []"
| "b64_encode [a] =
    (let n = unat a * 65536
     in [b64_char (n div 262144), b64_char (n div 4096 mod 64), CHR ''='', CHR ''=''])"
| "b64_encode [a, b] =
    (let n = unat a * 65536 + unat b * 256
     in [b64_char (n div 262144), b64_char (n div 4096 mod 64), b64_char (n div 64 mod 64), CHR ''=''])"
| "b64_encode (a # b # c # s) =
    (let n = unat a * 65536 + unat b * 256 + unat c
     in b64_char (n div 262144) # b64_char (n div 4096 mod 64) # b64_char (n div 64 mod 64) #
        b64_char (n mod 64) # b64_encode s)"

text \<open>Decoding skips line breaks; padding ends the text.\<close>

fun b64_quads :: "string \<Rightarrow> bytes option" where
  "b64_quads [] = Some []"
| "b64_quads (p # q # r # s # t) =
    do { i \<leftarrow> b64_index p;
         j \<leftarrow> b64_index q;
         if r = CHR ''='' then
           (if s = CHR ''='' \<and> t = []
            then Some [word_of_nat ((i * 262144 + j * 4096) div 65536)] else None)
         else do {
           k \<leftarrow> b64_index r;
           if s = CHR ''='' then
             (if t = []
              then (let n = i * 262144 + j * 4096 + k * 64
                    in Some [word_of_nat (n div 65536), word_of_nat (n div 256 mod 256)])
              else None)
           else do {
             l \<leftarrow> b64_index s;
             rest \<leftarrow> b64_quads t;
             let n = i * 262144 + j * 4096 + k * 64 + l;
             Some (word_of_nat (n div 65536) # word_of_nat (n div 256 mod 256) #
               word_of_nat (n mod 256) # rest) } } }"
| "b64_quads _ = None"

definition b64_decode :: "string \<Rightarrow> bytes option" where
  "b64_decode s = b64_quads (filter (\<lambda>c. c \<noteq> CHR 0x0A \<and> c \<noteq> CHR 0x0D) s)"

lemma b64_chars:
  assumes "i < 64"
  shows "b64_index (b64_char i) = Some i" and "b64_char i \<noteq> CHR ''=''"
    and "b64_char i \<noteq> CHR 0x0A" and "b64_char i \<noteq> CHR 0x0D"
proof -
  have "list_all (\<lambda>i. b64_index (b64_char i) = Some i \<and> b64_char i \<noteq> CHR ''='' \<and>
      b64_char i \<noteq> CHR 0x0A \<and> b64_char i \<noteq> CHR 0x0D) [0..<64]"
    by code_simp
  with assms have "b64_index (b64_char i) = Some i \<and> b64_char i \<noteq> CHR ''='' \<and>
      b64_char i \<noteq> CHR 0x0A \<and> b64_char i \<noteq> CHR 0x0D"
    by (auto simp: list_all_iff)
  then show "b64_index (b64_char i) = Some i" "b64_char i \<noteq> CHR ''=''"
    "b64_char i \<noteq> CHR 0x0A" "b64_char i \<noteq> CHR 0x0D" by blast+
qed

lemma b64_digits:
  "n div 262144 * 262144 + n div 4096 mod 64 * 4096 + n div 64 mod 64 * 64 + n mod 64 = (n::nat)"
proof -
  have "n div 64 mod 64 * 64 + n mod 64 = n mod 4096"
    using mod_mult2_eq [of n 64 64] by simp
  moreover have "n div 4096 mod 64 * 4096 + n mod 4096 = n mod 262144"
    using mod_mult2_eq [of n 4096 64] by simp
  moreover have "n div 262144 * 262144 + n mod 262144 = n" by (rule div_mult_mod_eq)
  ultimately show ?thesis by linarith
qed

lemma unat_byte: "unat (b::byte) < 256"
  using unsigned_less [of b] by simp

lemma three_bytes:
  fixes a b c :: nat
  assumes "b < 256" "c < 256"
  shows "(a * 65536 + b * 256 + c) div 65536 = a" "(a * 65536 + b * 256 + c) div 256 mod 256 = b"
    "(a * 65536 + b * 256 + c) mod 256 = c"
proof -
  have e: "a * 65536 + b * 256 + c = (a * 256 + b) * 256 + c" by simp
  have d: "(a * 65536 + b * 256 + c) div 256 = a * 256 + b" unfolding e using assms(2) by simp
  have "(a * 65536 + b * 256 + c) div (256 * 256) = (a * 65536 + b * 256 + c) div 256 div 256"
    by (rule div_mult2_eq)
  then show "(a * 65536 + b * 256 + c) div 65536 = a" using assms(1) by (simp only: d) simp
  show "(a * 65536 + b * 256 + c) div 256 mod 256 = b" using assms(1) by (simp only: d) simp
  show "(a * 65536 + b * 256 + c) mod 256 = c"
    unfolding e mod_mult_self3 using assms(2) by (rule mod_less)
qed

lemma b64_quads_encode: "b64_quads (b64_encode bs) = Some bs"
proof (induction bs rule: b64_encode.induct)
  case (2 a)
  let ?n = "unat a * 65536"
  have "?n div 262144 < 64" using unat_byte [of a] by simp
  moreover have "?n div 262144 * 262144 + ?n div 4096 mod 64 * 4096 = ?n"
    using b64_digits [of ?n] by (simp add: mod_eq_0_iff_dvd [THEN iffD2])
  ultimately show ?case by (simp add: b64_chars Let_def)
next
  case (3 a b)
  let ?n = "unat a * 65536 + unat b * 256"
  have "?n div 262144 < 64" using unat_byte [of a] unat_byte [of b] by simp
  moreover have "?n div 262144 * 262144 + ?n div 4096 mod 64 * 4096 + ?n div 64 mod 64 * 64 = ?n"
    using b64_digits [of ?n] by simp
  ultimately show ?case using unat_byte [of b] by (simp add: b64_chars Let_def)
next
  case (4 a b c s)
  let ?n = "unat a * 65536 + unat b * 256 + unat c"
  have "?n div 262144 < 64" using unat_byte [of a] unat_byte [of b] unat_byte [of c] by simp
  then show ?case
    using 4 by (simp add: b64_chars b64_digits three_bytes unat_byte Let_def)
qed simp

lemma b64_no_breaks: "filter (\<lambda>c. c \<noteq> CHR 0x0A \<and> c \<noteq> CHR 0x0D) (b64_encode bs) = b64_encode bs"
proof (induction bs rule: b64_encode.induct)
  case (2 a)
  have "unat a * 65536 div 262144 < 64" using unat_byte [of a] by simp
  then show ?case by (simp add: b64_chars Let_def)
next
  case (3 a b)
  have "(unat a * 65536 + unat b * 256) div 262144 < 64" using unat_byte [of a] unat_byte [of b] by simp
  then show ?case by (simp add: b64_chars Let_def)
next
  case (4 a b c s)
  have "(unat a * 65536 + unat b * 256 + unat c) div 262144 < 64"
    using unat_byte [of a] unat_byte [of b] unat_byte [of c] by simp
  then show ?case using 4 by (simp add: b64_chars Let_def)
qed simp

lemma b64_round_trip [simp, roundtrip]: "b64_decode (b64_encode bs) = Some bs"
  by (simp only: b64_decode_def b64_no_breaks b64_quads_encode)

section \<open>Query strings\<close>

text \<open>
  \<^verbatim>\<open>net/url\<close> of Go 1.15, the release the repository builds with: pairs are separated by \<open>&\<close> or \<open>;\<close>, a
  pair that does not unescape is skipped. What follows a \<open>#\<close> is a fragment and is not sent.
\<close>

definition hex_digit :: "byte \<Rightarrow> byte option" where
  "hex_digit b =
    (if 48 \<le> b \<and> b \<le> 57 then Some (b - 48)
     else if 97 \<le> b \<and> b \<le> 102 then Some (b - 97 + 10)
     else if 65 \<le> b \<and> b \<le> 70 then Some (b - 65 + 10)
     else None)"

fun query_unescape :: "bytes \<Rightarrow> bytes option" where
  "query_unescape [] = Some []"
| "query_unescape (b # s) =
    (if b = 37 then
       (case s of
          h # l # t \<Rightarrow>
            do { x \<leftarrow> hex_digit h; y \<leftarrow> hex_digit l; r \<leftarrow> query_unescape t; Some ((x * 16 + y) # r) }
        | _ \<Rightarrow> None)
     else map_option (\<lambda>r. (if b = 43 then 32 else b) # r) (query_unescape s))"

definition cut_at :: "(byte \<Rightarrow> bool) \<Rightarrow> bytes \<Rightarrow> bytes \<times> bytes" where
  "cut_at P s = (takeWhile (\<lambda>b. \<not> P b) s, drop 1 (dropWhile (\<lambda>b. \<not> P b) s))"

lemma length_cut_at: "q \<noteq> [] \<Longrightarrow> length (snd (cut_at P q)) < length q"
proof -
  assume "q \<noteq> []"
  then have "0 < length q" by simp
  moreover have "length (dropWhile (\<lambda>b. \<not> P b) q) \<le> length q" by (rule length_dropWhile_le)
  ultimately have "length (dropWhile (\<lambda>b. \<not> P b) q) - 1 < length q" by linarith
  then show ?thesis by (simp add: cut_at_def)
qed

function parse_query :: "bytes \<Rightarrow> (bytes \<times> bytes) list" where
  "parse_query q =
    (if q = [] then []
     else let (kv, rest) = cut_at (\<lambda>b. b = 38 \<or> b = 59) q;
              (k, v) = cut_at (\<lambda>b. b = 61) kv
          in (if kv = [] then []
              else case (query_unescape k, query_unescape v) of
                (Some k', Some v') \<Rightarrow> [(k', v')]
              | _ \<Rightarrow> []) @ parse_query rest)"
  by auto

termination
  by (relation "measure length") (auto dest: length_cut_at [where P = "\<lambda>b. b = 38 \<or> b = 59"] simp: prod_eq_iff)

declare parse_query.simps [simp del]

definition query_value :: "bytes \<Rightarrow> bytes \<Rightarrow> bytes" where
  "query_value name q = (case map_of (parse_query q) name of Some v \<Rightarrow> v | None \<Rightarrow> [])"

definition raw_query :: "bytes \<Rightarrow> bytes" where
  "raw_query uri = (let no_fragment = fst (cut_at (\<lambda>b. b = 35) uri) in snd (cut_at (\<lambda>b. b = 63) no_fragment))"

text \<open>The bytes that stand for themselves in a query value.\<close>

definition plain :: "byte \<Rightarrow> bool" where
  "plain b \<longleftrightarrow> 33 \<le> b \<and> b \<noteq> 127 \<and> b \<notin> {35, 37, 38, 43, 59}"

lemma unescape_plain: "list_all plain s \<Longrightarrow> query_unescape s = Some s"
  by (induction s) (auto simp: plain_def)

lemma cut_at_none: "list_all (\<lambda>b. \<not> P b) s \<Longrightarrow> cut_at P s = (s, [])"
proof -
  assume "list_all (\<lambda>b. \<not> P b) s"
  then have "takeWhile (\<lambda>b. \<not> P b) s = s" "dropWhile (\<lambda>b. \<not> P b) s = []"
    by (auto simp: list_all_iff)
  then show ?thesis unfolding cut_at_def by (simp only: drop_Nil)
qed

lemma cut_at_first: "list_all (\<lambda>b. \<not> P b) s \<Longrightarrow> P b \<Longrightarrow> cut_at P (s @ b # t) = (s, t)"
  by (simp add: cut_at_def list_all_iff takeWhile_append dropWhile_append)

lemma query_value_plain:
  assumes "list_all plain k" and "list_all plain name" and "61 \<notin> set name"
  shows "query_value name (name @ 61 # k) = k"
proof -
  have "list_all (\<lambda>b. \<not> (b = 38 \<or> b = 59)) (name @ 61 # k)"
    using assms(1,2) by (auto simp: list_all_iff plain_def)
  note c = cut_at_none [OF this]
  have "list_all (\<lambda>b. \<not> b = 61) name" using assms(3) by (auto simp: list_all_iff)
  note e = cut_at_first [OF this, of 61 k]
  have "parse_query (name @ 61 # k) = [(name, k)]"
    by (simp add: parse_query.simps [of "name @ 61 # k"] c e unescape_plain assms parse_query.simps [of "[]"])
  then show ?thesis by (simp add: query_value_def)
qed

end
