(* ===== verification/Fold_Text.thy ===== *)
theory Fold_Text
  imports Http_Text
begin

text \<open>
  Comparing strings without regard to case (\<^verbatim>\<open>vm/value/value.go\<close>): \<^verbatim>\<open>isCaseInsensitivePrefix\<close> with
  \<^verbatim>\<open>strings.EqualFold\<close> as Go 1.17 has it. The table of Unicode's simple case foldings is a
  parameter, \<^verbatim>\<open>unicode.SimpleFold\<close>; what its documentation says of it is enough for the loop over
  it to end and for the comparison to be that of the strings' runes up to folding.
\<close>

section \<open>Runes\<close>

definition rune_value :: "nat \<Rightarrow> bytes \<Rightarrow> nat" where
  "rune_value n s =
    foldl (\<lambda>r b. r * 64 + unat b mod 64)
      (unat (hd s) mod (if n = 1 then 128 else if n = 2 then 32 else if n = 3 then 16 else 8))
      (take (n - 1) (tl s))"

text \<open>\<^verbatim>\<open>utf8.DecodeRuneInString\<close>: a byte that starts no sequence is one replacement character.\<close>

definition decode_rune :: "bytes \<Rightarrow> nat \<times> nat" where
  "decode_rune s =
    (case rune_length s of
       None \<Rightarrow> (0xFFFD, if s = [] then 0 else 1)
     | Some n \<Rightarrow> (rune_value n s, n))"

lemma decode_rune_size: "s \<noteq> [] \<Longrightarrow> 0 < snd (decode_rune s)"
  by (auto simp: decode_rune_def dest: rune_length_pos split: option.splits)

definition next_rune :: "bytes \<Rightarrow> nat \<times> bytes" where
  "next_rune s =
    (if hd s < 0x80 then (unat (hd s), tl s)
     else (case decode_rune s of (r, n) \<Rightarrow> (r, drop n s)))"

lemma next_rune_shorter: "s \<noteq> [] \<Longrightarrow> length (snd (next_rune s)) < length s"
  using decode_rune_size [of s] by (auto simp: next_rune_def split: prod.splits)

lemma next_rune_rest: "(r, s') = next_rune s \<Longrightarrow> s \<noteq> [] \<Longrightarrow> length s' < length s"
  using next_rune_shorter [of s] by (metis snd_conv)

function runes :: "bytes \<Rightarrow> nat list" where
  "runes s = (if s = [] then [] else case next_rune s of (r, s') \<Rightarrow> r # runes s')"
  by auto
termination
  by (relation "measure length") (auto dest: next_rune_rest)

declare runes.simps [simp del]

section \<open>EqualFold\<close>

text \<open>The loop over the foldings of the smaller rune.\<close>

partial_function (option) fold_loop :: "(nat \<Rightarrow> nat) \<Rightarrow> nat \<Rightarrow> nat \<Rightarrow> nat \<Rightarrow> nat option" where
  "fold_loop SimpleFold sr tr r =
    (if r \<noteq> sr \<and> r < tr then fold_loop SimpleFold sr tr (SimpleFold r) else Some r)"

definition rune_EqualFold :: "(nat \<Rightarrow> nat) \<Rightarrow> nat \<Rightarrow> nat \<Rightarrow> bool run" where
  "rune_EqualFold SimpleFold sr tr =
    (if tr = sr then Some True
     else let (sr, tr) = (if tr < sr then (tr, sr) else (sr, tr)) in
       if tr < 0x80 then Some (0x41 \<le> sr \<and> sr \<le> 0x5A \<and> tr = sr + 0x61 - 0x41)
       else do { r \<leftarrow> fold_loop SimpleFold sr tr (SimpleFold sr); Some (r = tr) })"

function EqualFold :: "(nat \<Rightarrow> nat) \<Rightarrow> bytes \<Rightarrow> bytes \<Rightarrow> bool run" where
  "EqualFold SimpleFold s t =
    (if s \<noteq> [] \<and> t \<noteq> [] then
       (let (sr, s') = next_rune s; (tr, t') = next_rune t
        in do { b \<leftarrow> rune_EqualFold SimpleFold sr tr;
                if b then EqualFold SimpleFold s' t' else Some False })
     else Some (s = t))"
  by auto
termination
  by (relation "measure (\<lambda>(_, s, _). length s)") (auto dest: next_rune_rest)

declare EqualFold.simps [simp del]

definition isCaseInsensitivePrefix :: "(nat \<Rightarrow> nat) \<Rightarrow> bytes \<Rightarrow> bytes \<Rightarrow> bool run" where
  "isCaseInsensitivePrefix SimpleFold pre s =
    (if length pre > length s then Some False
     else EqualFold SimpleFold pre (take (length pre) s))"

section \<open>What SimpleFold promises\<close>

text \<open>
  \<open>E\<close> is Unicode's equivalence under simple case folding: \<^verbatim>\<open>SimpleFold\<close> iterates over the runes of a
  class, returning the smallest one above its argument if there is one and else the smallest one.
  Among ASCII, a class relates a letter to its other case and nothing else.
\<close>

definition simple_fold :: "(nat \<Rightarrow> nat \<Rightarrow> bool) \<Rightarrow> (nat \<Rightarrow> nat) \<Rightarrow> bool" where
  "simple_fold E F \<longleftrightarrow> equivp E \<and>
     (\<forall>r. F r = (if \<exists>q>r. E r q then LEAST q. r < q \<and> E r q else LEAST q. E r q)) \<and>
     (\<forall>a b. a < b \<longrightarrow> b < 0x80 \<longrightarrow> E a b \<longleftrightarrow> 0x41 \<le> a \<and> a \<le> 0x5A \<and> b = a + 0x61 - 0x41)"

lemma simple_fold_next:
  assumes "simple_fold E F" "E r q" "r < q"
  shows "r < F r" "F r \<le> q" "E r (F r)"
proof -
  have f: "F r = (LEAST q. r < q \<and> E r q)" using assms unfolding simple_fold_def by metis
  have "r < F r \<and> E r (F r)" unfolding f by (rule LeastI [of _ q]) (use assms in simp)
  then show "r < F r" "E r (F r)" by auto
  show "F r \<le> q" unfolding f by (rule Least_le) (use assms in simp)
qed

lemma simple_fold_class: "simple_fold E F \<Longrightarrow> E r (F r)"
proof -
  assume a: "simple_fold E F"
  then have r: "E r r" by (simp add: simple_fold_def equivp_reflp)
  show "E r (F r)"
  proof (cases "\<exists>q>r. E r q")
    case True
    then show ?thesis using simple_fold_next [OF a] by blast
  next
    case False
    then have "F r = (LEAST q. E r q)" using a unfolding simple_fold_def by metis
    then show ?thesis using LeastI [of "E r" r] r by simp
  qed
qed

lemma simple_fold_wraps: "simple_fold E F \<Longrightarrow> \<not> (\<exists>q>r. E r q) \<Longrightarrow> E r s \<Longrightarrow> F r \<le> s"
  unfolding simple_fold_def by (metis Least_le)

text \<open>Below the start the loop climbs to it.\<close>

lemma fold_loop_below:
  assumes F: "simple_fold E F" and lt: "sr < tr"
  shows "E sr r \<Longrightarrow> r \<le> sr \<Longrightarrow> fold_loop F sr tr r = Some sr"
proof (induction "sr - r" arbitrary: r rule: less_induct)
  case less
  have eq: "equivp E" using F by (simp add: simple_fold_def)
  show ?case
  proof (cases "r = sr")
    case True
    then show ?thesis by (subst fold_loop.simps) simp
  next
    case False
    then have "r < sr" "E r sr" using less.prems eq by (auto dest: equivp_symp)
    from simple_fold_next [OF F this(2,1)] have n: "r < F r" "F r \<le> sr" "E r (F r)" .
    then have "fold_loop F sr tr (F r) = Some sr"
      using less.prems eq False by (intro less.hyps) (auto dest: equivp_transp)
    then show ?thesis using False less.prems lt by (subst fold_loop.simps) simp
  qed
qed

text \<open>Above it the loop ends at the other rune exactly when that is in the class.\<close>

lemma fold_loop_above:
  assumes F: "simple_fold E F" and lt: "sr < tr"
  shows "E sr r \<Longrightarrow> sr < r \<Longrightarrow> r \<le> tr \<or> \<not> E sr tr \<Longrightarrow>
    \<exists>r'. fold_loop F sr tr r = Some r' \<and> (r' = tr \<longleftrightarrow> E sr tr)"
proof (induction "tr - r" arbitrary: r rule: less_induct)
  case less
  have eq: "equivp E" using F by (simp add: simple_fold_def)
  show ?case
  proof (cases "r < tr")
    case False
    then show ?thesis using less.prems by (subst fold_loop.simps) auto
  next
    case True
    then have step: "fold_loop F sr tr r = fold_loop F sr tr (F r)"
      using less.prems(2) by (subst fold_loop.simps) simp
    have c: "E sr (F r)" using simple_fold_class [OF F, of r] less.prems(1) eq by (auto dest: equivp_transp)
    show ?thesis
    proof (cases "\<exists>q>r. E r q")
      case up: True
      then have n: "r < F r" using simple_fold_next(1) [OF F] by blast
      have "E sr tr \<Longrightarrow> F r \<le> tr"
        using simple_fold_next(2) [OF F _ True] less.prems(1) eq by (metis equivp_symp equivp_transp)
      then show ?thesis
        unfolding step using c n less.prems(2) True by (intro less.hyps) auto
    next
      case top: False
      have "E r sr" using less.prems(1) eq by (auto dest: equivp_symp)
      then have "F r \<le> sr" by (rule simple_fold_wraps [OF F top])
      moreover have "\<not> E sr tr" using top True less.prems(1) eq by (metis equivp_symp equivp_transp)
      ultimately show ?thesis unfolding step using fold_loop_below [OF F lt c] lt by auto
    qed
  qed
qed

lemma rune_EqualFold_class:
  assumes F: "simple_fold E F"
  shows "rune_EqualFold F sr tr = Some (E sr tr)"
proof -
  have eq: "equivp E" using F by (simp add: simple_fold_def)
  have ascii: "a < b \<Longrightarrow> b < 0x80 \<Longrightarrow> E a b \<longleftrightarrow> 0x41 \<le> a \<and> a \<le> 0x5A \<and> b = a + 0x61 - 0x41" for a b
    using F by (auto simp: simple_fold_def)
  have less: "rune_EqualFold F a b = Some (E a b) \<and> rune_EqualFold F b a = Some (E a b)" if "a < b" for a b
  proof (cases "b < 0x80")
    case True
    then show ?thesis using that ascii [of a b] by (auto simp: rune_EqualFold_def)
  next
    case False
    have "\<exists>r'. fold_loop F a b (F a) = Some r' \<and> (r' = b \<longleftrightarrow> E a b)"
    proof (cases "\<exists>q>a. E a q")
      case True
      then have "a < F a" using simple_fold_next(1) [OF F] by blast
      moreover have "E a b \<Longrightarrow> F a \<le> b" using simple_fold_next(2) [OF F _ that] .
      ultimately show ?thesis
        using fold_loop_above [OF F that simple_fold_class [OF F]] by blast
    next
      case top: False
      have "F a \<le> a" using simple_fold_wraps [OF F top] eq by (simp add: equivp_reflp)
      then show ?thesis
        using fold_loop_below [OF F that simple_fold_class [OF F]] top that by auto
    qed
    then show ?thesis using that False by (auto simp: rune_EqualFold_def)
  qed
  show ?thesis
    using less [of sr tr] less [of tr sr] eq
    by (cases sr tr rule: linorder_cases) (auto simp: rune_EqualFold_def equivp_reflp dest: equivp_symp)
qed

text \<open>The comparison always returns, and compares the strings rune by rune up to folding.\<close>

theorem EqualFold_runes:
  assumes F: "simple_fold E F"
  shows "EqualFold F s t = Some (list_all2 E (runes s) (runes t))"
proof (induction "length s" arbitrary: s t rule: less_induct)
  case less
  show ?case
  proof (cases "s \<noteq> [] \<and> t \<noteq> []")
    case False
    have "runes x = [] \<longleftrightarrow> x = []" for x by (subst runes.simps) (simp split: prod.split)
    with False have "list_all2 E (runes s) (runes t) \<longleftrightarrow> s = t"
      by (cases "s = []"; cases "t = []"; cases "runes s"; cases "runes t") (metis list.distinct(1) list_all2_Nil list_all2_Nil2)+
    with False show ?thesis by (subst EqualFold.simps) (simp only: if_False)
  next
    case True
    obtain a s' where a: "next_rune s = (a, s')" by fastforce
    obtain b t' where b: "next_rune t = (b, t')" by fastforce
    have "length s' < length s" using True a next_rune_shorter [of s] by simp
    then have "EqualFold F s' t' = Some (list_all2 E (runes s') (runes t'))" by (rule less.hyps)
    then show ?thesis
      using True a b
      by (subst EqualFold.simps)
        (simp add: rune_EqualFold_class [OF F] runes.simps [of s] runes.simps [of t] del: EqualFold.simps)
  qed
qed

text \<open>So a prefix in another case is accepted; one that is longer than the string is not.\<close>

lemma isCaseInsensitivePrefix_runes:
  "simple_fold E F \<Longrightarrow> isCaseInsensitivePrefix F pre s =
     Some (length pre \<le> length s \<and> list_all2 E (runes pre) (runes (take (length pre) s)))"
  by (simp add: isCaseInsensitivePrefix_def EqualFold_runes)

text \<open>A folding that is known: of ASCII alone. Its classes are the letters with their other case.\<close>

definition ascii_other :: "nat \<Rightarrow> nat" where
  "ascii_other r =
    (if 0x41 \<le> r \<and> r \<le> 0x5A then r + 32 else if 0x61 \<le> r \<and> r \<le> 0x7A then r - 32 else r)"

lemma ascii_simple_fold: "simple_fold (\<lambda>a b. b = a \<or> b = ascii_other a) ascii_other"
proof -
  let ?E = "\<lambda>a b. b = a \<or> b = ascii_other a"
  have "equivp ?E"
    by (rule equivpI) (auto simp: reflp_def symp_def transp_def ascii_other_def split: if_splits)
  moreover have "ascii_other r = (if \<exists>q>r. ?E r q then LEAST q. r < q \<and> ?E r q else LEAST q. ?E r q)" for r
  proof (cases "r < ascii_other r")
    case True
    then have "(LEAST q. r < q \<and> ?E r q) = ascii_other r" by (intro Least_equality) auto
    then show ?thesis using True by auto
  next
    case False
    then have "(LEAST q. ?E r q) = ascii_other r" by (intro Least_equality) auto
    then show ?thesis using False by auto
  qed
  moreover have "?E a b \<longleftrightarrow> 0x41 \<le> a \<and> a \<le> 0x5A \<and> b = a + 0x61 - 0x41" if "a < b" "b < 0x80" for a b
    using that by (auto simp: ascii_other_def)
  ultimately show ?thesis unfolding simple_fold_def by blast
qed

lemma isCaseInsensitivePrefix_example:
  "isCaseInsensitivePrefix ascii_other [0x54, 0x72] [0x74, 0x52, 0x75] = Some True"
  "isCaseInsensitivePrefix ascii_other [0x54, 0x72] [0x74] = Some False"
  by (simp_all add: isCaseInsensitivePrefix_runes [OF ascii_simple_fold] runes.simps next_rune_def ascii_other_def)

end
