(* ===== verification/Query_Theorems.thy ===== *)
theory Query_Theorems
  imports Query_Main Engine_Text Fold_Text
begin

text \<open>
  The properties of the execution engine, with the concrete inputs that show their hypotheses
  can hold: type soundness and row-by-row meaning of expressions, the relation's contents,
  what a query reads, and the arithmetic and comparison of values.
\<close>

section \<open>A concrete relation and query\<close>

text \<open>Two segments of an integer column \<open>x\<close> and a float column \<open>y\<close>.\<close>

definition xy_meta :: Metadata where
  "xy_meta = \<lparr>md_Num = 0, md_Attrs = [\<lparr>m_Type = T_int, m_Name = ''x''\<rparr>, \<lparr>m_Type = T_float, m_Name = ''y''\<rparr>]\<rparr>"

definition xy_segments :: "column_data list list" where
  "xy_segments =
    [[Int64s [1, 2], Float64s [0x3FF0000000000000, 0x4000000000000000]],
     [Int64s [7], Float64s [0x4008000000000000]]]"

definition xy_query :: "Named list" where
  "xy_query =
    [\<lparr>Alias = '''', expr = Attribute T_int ''x''\<rparr>,
     \<lparr>Alias = ''sum'', expr = BinaryExtend Plus (Attribute T_int ''x'') (Attribute T_float ''y'')\<rparr>]"

definition xy_relation :: relation where
  "xy_relation = snd (the (add_segments xy_segments (storage_New xy_meta)))"

lemma xy_fit: "list_all (list_all2 fits (md_Attrs xy_meta)) xy_segments"
  by (simp add: xy_meta_def xy_segments_def fits_def)

lemma xy_stores: "stores xy_meta xy_segments xy_relation"
proof -
  have "\<exists>r. add_segments xy_segments (storage_New xy_meta) = Some (None, r) \<and> stores xy_meta ([] @ xy_segments) r"
    using xy_fit by (intro add_segments_stores stores_New) (simp_all add: xy_meta_def)
  then show ?thesis by (auto simp: xy_relation_def)
qed

lemma xy_good: "good_query xy_meta xy_query"
  by (simp add: good_query_def xy_meta_def xy_query_def aliasList_def output_name_def op_type_def
      MergeAttributes_def)

definition xy_columns :: columns where
  "xy_columns = segment_map xy_meta (xy_segments ! 0) [''x'', ''y'']"

lemma xy_uniform: "uniform 2 xy_columns"
  by (simp add: xy_columns_def segment_map_def uniform_def column_at_def xy_meta_def xy_segments_def)

lemma xy_conforms: "conforms 2 xy_columns (BinaryExtend Plus (Attribute T_int ''x'') (Attribute T_float ''y''))"
  by (simp add: xy_columns_def segment_map_def column_at_def xy_meta_def xy_segments_def column_def)

section \<open>Expressions\<close>

text \<open>C16: Type soundness. Over columns of equal length whose values have the types the
  expression's attributes declare, evaluation never panics, whatever entry of the column map the
  runtime picks: it returns a column of exactly the length of its inputs, all of whose values
  have the type the operator table gives the expression, or, for an expression without a type,
  the error value the typing predicts.\<close>

theorem Eval_sound:
  assumes "uniform N mp" and "conforms N mp e"
  shows "\<exists>vs. Eval d e mp = Some (map_sum id (\<lambda>t. (vs, t)) (expr_type (fst ` set mp) e)) \<and>
    (\<forall>t. expr_type (fst ` set mp) e = Inr t \<longrightarrow> column N t vs)"
proof -
  let ?vs = "map (\<lambda>i. denote e (row mp i)) [0..<N]"
  have "Eval d e mp = Some (map_sum id (\<lambda>t. (?vs, t)) (expr_type (fst ` set mp) e))"
    by (cases "expr_type (fst ` set mp) e") (simp_all add: Eval_rows(1) [OF assms] eval_spec_def)
  with Eval_rows(2) [OF assms] show ?thesis by blast
qed

theorem Eval_sound_witness:
  "\<exists>vs. Eval (\<lambda>_. 0) (BinaryExtend Plus (Attribute T_int ''x'') (Attribute T_float ''y'')) xy_columns =
      Some (Inr (vs, T_float)) \<and> column 2 T_float vs"
  using Eval_sound [OF xy_uniform xy_conforms, of "\<lambda>_. 0"]
  by (simp add: xy_columns_def segment_map_def op_type_def)

text \<open>C17: Column-at-a-time evaluation is row-at-a-time meaning. For a typed expression the
  column \<^verbatim>\<open>Eval\<close> returns has, at every row, the value the expression denotes at that row: the
  sums and differences of the row's integers (wrapping) and floats, constants repeated at every
  row.\<close>

theorem Eval_row_by_row:
  assumes "uniform N mp" and "conforms N mp e" and "expr_type (fst ` set mp) e = Inr t"
  shows "Eval d e mp = Some (Inr (map (\<lambda>i. denote e (row mp i)) [0..<N], t))"
  using assms(3) by (simp add: Eval_rows(1) [OF assms(1,2)] eval_spec_def)

theorem Eval_row_by_row_witness:
  "Eval (\<lambda>_. 5) (BinaryExtend Plus (Attribute T_int ''x'') (Attribute T_float ''y'')) xy_columns =
    Some (Inr ([FloatV 0x4000000000000000, FloatV 0x4010000000000000], T_float))"
  by (subst Eval_row_by_row [OF xy_uniform xy_conforms, of T_float])
    (simp_all add: xy_columns_def segment_map_def op_type_def upt_rec row_def column_at_def xy_meta_def
      xy_segments_def f64_eval)

text \<open>C32: \<^verbatim>\<open>ReturnType\<close> against the evaluation. Where no operator has a float on its left and an
  integer on its right, \<^verbatim>\<open>ReturnType\<close> is the type of the column \<^verbatim>\<open>Eval\<close> returns; where the outermost
  operator has, \<^verbatim>\<open>Eval\<close> returns floats and \<^verbatim>\<open>ReturnType\<close>, and so the attribute list of a
  projection, says integer.\<close>

theorem ReturnType_exact:
  assumes "uniform N mp" and "conforms N mp e" and "expr_type (fst ` set mp) e = Inr t"
  shows "(\<exists>vs. Eval d e mp = Some (Inr (vs, t))) \<and>
    (\<not> float_on_left (fst ` set mp) e \<longrightarrow> Extend_ReturnType e = t) \<and>
    (\<forall>op l r. e = BinaryExtend op l r \<and> Extend_ReturnType l = T_float \<and> Extend_ReturnType r = T_int \<and>
      expr_type (fst ` set mp) l = Inr T_float \<and> expr_type (fst ` set mp) r = Inr T_int \<longrightarrow>
      Extend_ReturnType e = T_int \<and> t = T_float)"
proof (intro conjI allI impI)
  show "\<exists>vs. Eval d e mp = Some (Inr (vs, t))"
    using assms(3) by (simp add: Eval_rows(1) [OF assms(1,2)] eval_spec_def)
  show "Extend_ReturnType e = t" if "\<not> float_on_left (fst ` set mp) e"
    using ReturnType_agrees assms(3) that by blast
next
  fix op l r
  assume e: "e = BinaryExtend op l r \<and> Extend_ReturnType l = T_float \<and> Extend_ReturnType r = T_int \<and>
    expr_type (fst ` set mp) l = Inr T_float \<and> expr_type (fst ` set mp) r = Inr T_int"
  with assms(2) show "Extend_ReturnType e = T_int" by (auto simp: returnType_def)
  from e assms(3) show "t = T_float" by (auto simp: op_type_def split: if_splits)
qed

theorem ReturnType_exact_witness:
  "let e = BinaryExtend Minus (Attribute T_float ''y'') (Attribute T_int ''x'')
   in Extend_ReturnType e = T_int \<and> (\<exists>vs. Eval (\<lambda>_. 0) e xy_columns = Some (Inr (vs, T_float)))"
proof -
  let ?e = "BinaryExtend Minus (Attribute T_float ''y'') (Attribute T_int ''x'')"
  have t: "expr_type (fst ` set xy_columns) ?e = Inr T_float"
    by (simp add: xy_columns_def op_type_def)
  have c: "conforms 2 xy_columns ?e"
    by (simp add: xy_columns_def segment_map_def column_at_def xy_meta_def xy_segments_def column_def)
  show ?thesis
    using ReturnType_exact [OF xy_uniform c t, of "\<lambda>_. 0"] by (simp add: xy_columns_def)
qed

section \<open>Relations and queries\<close>

text \<open>C19: What a relation holds. Segments added to a new relation, one slice per column and each of
  its column's type, are all accepted; reading segment \<open>seg\<close> returns, for every requested name,
  the values of that segment's slice at the name's column. A name the relation does not have is
  read as the first column.\<close>

theorem segments_read_back:
  assumes "md_Num meta = 0" and "md_Attrs meta \<noteq> []" and "list_all (list_all2 fits (md_Attrs meta)) bs"
  shows "\<exists>r. add_segments bs (storage_New meta) = Some (None, r) \<and>
    Segments r = word_of_nat (length bs) \<and>
    (\<forall>seg < length bs. \<forall>attrs. relation_Read r (int seg) attrs =
      Some (Inr (map (\<lambda>a. data_values (bs ! seg ! column_at meta a)) attrs))) \<and>
    (distinct (map m_Name (md_Attrs meta)) \<longrightarrow>
      (\<forall>i < length (md_Attrs meta). column_at meta (m_Name (md_Attrs meta ! i)) = i)) \<and>
    (\<forall>a. a \<notin> m_Name ` set (md_Attrs meta) \<longrightarrow> column_at meta a = 0)"
proof -
  obtain r where r: "add_segments bs (storage_New meta) = Some (None, r)" "stores meta bs r"
    using add_segments_stores [OF stores_New [OF assms(1)] assms(3)] by auto
  then have "Segments r = word_of_nat (length bs)" by (simp add: stores_def)
  with r relation_Read_stores [OF r(2) assms(2,3)] show ?thesis
    by (auto simp: column_at_name column_at_unknown)
qed

theorem segments_read_back_witness:
  "\<exists>r. add_segments xy_segments (storage_New xy_meta) = Some (None, r) \<and>
    relation_Read r 1 [''y'', ''no such name''] = Some (Inr [[FloatV 0x4008000000000000], [IntV 7]])"
proof -
  obtain r where added: "add_segments xy_segments (storage_New xy_meta) = Some (None, r)"
    and read: "\<forall>seg < length xy_segments. \<forall>attrs. relation_Read r (int seg) attrs =
      Some (Inr (map (\<lambda>a. data_values (xy_segments ! seg ! column_at xy_meta a)) attrs))"
    using segments_read_back [OF _ _ xy_fit] by (auto simp: xy_meta_def)
  have "1 < length xy_segments" by (simp add: xy_segments_def)
  from read [rule_format, OF this, of "[''y'', ''no such name'']"] have "relation_Read r 1 [''y'', ''no such name''] = Some (Inr [[FloatV 0x4008000000000000], [IntV 7]])"
    by (simp add: xy_segments_def xy_meta_def column_at_def)
  with added show ?thesis by blast
qed

text \<open>C18: What a query reads. The first \<^verbatim>\<open>Read\<close> of a projection over an unread relation returns, for
  the expressions whose names are requested and in their order, the column of their values at
  every row of the segment; or nothing when the segment is empty or the first requested name
  is no attribute the expressions use. Every later \<^verbatim>\<open>Read\<close> returns nothing.\<close>

theorem query_reads_segment:
  assumes "stores meta bs r" and "list_all (list_all2 fits (md_Attrs meta)) bs"
    and "seg < length bs" and "rectangular N (bs ! seg)"
    and "good_query meta es" and "es \<noteq> []"
    and "attrs \<noteq> []" and "distinct attrs" and "set attrs \<subseteq> set (aliasList es)"
  shows "\<exists>o'. OP_Read d (projection_New (relation_New (int seg) r) es) attrs =
      Some (Inr (projected N meta (bs ! seg) es attrs), o') \<and>
    (\<forall>d' attrs'. OP_Read d' o' attrs' = Some (Inr None, o'))"
  using query_Read [OF assms] query_Read_again by blast

theorem query_reads_segment_witness:
  "\<exists>o'. OP_Read (\<lambda>_. 0) (projection_New (relation_New 0 xy_relation) xy_query) [''x'', ''sum''] =
      Some (Inr (Some [(''x'', [IntV 1, IntV 2]),
        (''sum'', [FloatV 0x4000000000000000, FloatV 0x4010000000000000])]), o') \<and>
    OP_Read (\<lambda>_. 0) o' [''x''] = Some (Inr None, o')"
proof -
  have "rectangular 2 (xy_segments ! 0)" by (simp add: rectangular_def xy_segments_def)
  then obtain o' where o: "OP_Read (\<lambda>_. 0) (projection_New (relation_New (int 0) xy_relation) xy_query) [''x'', ''sum''] =
      Some (Inr (projected 2 xy_meta (xy_segments ! 0) xy_query [''x'', ''sum'']), o')"
    "\<forall>d' attrs'. OP_Read d' o' attrs' = Some (Inr None, o')"
    using query_reads_segment [OF xy_stores xy_fit _ _ xy_good, of 0 2 "[''x'', ''sum'']" "\<lambda>_. 0"]
    by (auto simp: xy_query_def xy_segments_def aliasList_def output_name_def)
  have sub: "subExtend xy_query [''x'', ''sum''] = xy_query"
    by (simp add: subExtend_def xy_query_def output_name_def)
  have below: "attributeList xy_query = [''x'', ''y'']"
    by (simp add: attributeList_def xy_query_def MergeAttributes_def)
  have "projected 2 xy_meta (xy_segments ! 0) xy_query [''x'', ''sum''] =
      Some [(''x'', [IntV 1, IntV 2]), (''sum'', [FloatV 0x4000000000000000, FloatV 0x4010000000000000])]"
    by (simp add: projected_def sub below Let_def)
      (simp add: xy_query_def row_column_def row_def segment_map_def column_at_def xy_meta_def
        xy_segments_def output_name_def upt_rec f64_eval)
  with o show ?thesis by auto
qed

text \<open>C31: The test program processes nothing. Whatever the number of rows, its first \<^verbatim>\<open>Read\<close> finds
  no column under the alias \<^verbatim>\<open>A\<close> in what the relation returned, so the program ends without having
  verified one batch; and the expression of its query has no type in the operator table, since
  it adds a float to a float.\<close>

theorem test_program_verifies_nothing:
  "main (Suc fuel) num d = Some (Some (Processed 0)) \<and>
   expr_type {''a'', ''b'', ''c''} query_expr = Inl (Not_yet_implemented ''+'' types_Float types_Float)"
  by (simp add: main_reads_nothing query_expr_type)

section \<open>Values\<close>

text \<open>C33: The width of sums. An integer sum wraps around at 64 bits; a sum of an integer and a
  float that holds an integer is exact as long as the operands and the result have at most 53 bits.\<close>

theorem sums_exact_or_wrap:
  "(\<exists>z. plus_int_int (IntV x) (IntV y) = Some (IntV z) \<and>
      sint z = (sint x + sint y + 2 ^ 63) mod 2 ^ 64 - 2 ^ 63) \<and>
   (\<not> is_nan f \<and> \<not> is_inf f \<and> fval f = n * 2 ^ 1074 \<and> \<bar>sint x\<bar> < 2 ^ 53 \<and> \<bar>sint x + n\<bar> < 2 ^ 53 \<longrightarrow>
    (\<exists>g. plus_int_float (IntV x) (FloatV f) = Some (FloatV g) \<and> fval g = (sint x + n) * 2 ^ 1074))"
proof (intro conjI impI)
  have "sint (x + y) = (sint x + sint y + 2 ^ 63) mod 2 ^ 64 - 2 ^ 63"
    by (simp add: sint_word_ariths signed_take_bit_eq_take_bit_shift take_bit_eq_mod)
  then show "\<exists>z. plus_int_int (IntV x) (IntV y) = Some (IntV z) \<and>
      sint z = (sint x + sint y + 2 ^ 63) mod 2 ^ 64 - 2 ^ 63"
    by (simp add: op_fn_defs)
  assume a: "\<not> is_nan f \<and> \<not> is_inf f \<and> fval f = n * 2 ^ 1074 \<and> \<bar>sint x\<bar> < 2 ^ 53 \<and> \<bar>sint x + n\<bar> < 2 ^ 53"
  then have x: "fval (f64_of_int x) = sint x * 2 ^ 1074" "\<not> is_nan (f64_of_int x)" "\<not> is_inf (f64_of_int x)"
    using f64_of_int_exact [of x] by blast+
  have "fval (f64_of_int x) + fval f = (sint x + n) * 2 ^ 1074"
    using a by (simp only: x(1) distrib_right)
  moreover from this have "representable (fval (f64_of_int x) + fval f)"
    using a representable_int [of "sint x + n"] by metis
  ultimately have "fval (f64_add (f64_of_int x) f) = (sint x + n) * 2 ^ 1074"
    using f64_add_exact(1) [OF x(2,3)] a by metis
  then show "\<exists>g. plus_int_float (IntV x) (FloatV f) = Some (FloatV g) \<and> fval g = (sint x + n) * 2 ^ 1074"
    by (simp add: op_fn_defs)
qed

theorem sums_exact_or_wrap_witness:
  "(\<exists>z. plus_int_int (IntV 0x7FFFFFFFFFFFFFFF) (IntV 1) = Some (IntV z) \<and> sint z = - (2 ^ 63)) \<and>
   (\<exists>g. plus_int_float (IntV 5) (FloatV (f64_of_int 7)) = Some (FloatV g) \<and> fval g = 12 * 2 ^ 1074)"
proof
  show "\<exists>z. plus_int_int (IntV 0x7FFFFFFFFFFFFFFF) (IntV 1) = Some (IntV z) \<and> sint z = - (2 ^ 63)"
    using sums_exact_or_wrap [of "0x7FFFFFFFFFFFFFFF" 1 0 0] by simp
  have "fval (f64_of_int 7) = 7 * 2 ^ 1074" "\<not> is_nan (f64_of_int 7)" "\<not> is_inf (f64_of_int 7)"
    using f64_of_int_exact [of 7] by auto
  then show "\<exists>g. plus_int_float (IntV 5) (FloatV (f64_of_int 7)) = Some (FloatV g) \<and> fval g = 12 * 2 ^ 1074"
    using sums_exact_or_wrap [of 5 0 "f64_of_int 7" 7] by simp
qed

text \<open>C34: The order of values. Two values of one type compare as the sign of the difference of
  their keys, so \<^verbatim>\<open>Compare\<close> is a total preorder on them: integers by their signed value, floats by
  their exact value, the two zeros equal and every NaN below all else; values of different types
  panic.\<close>

theorem Compare_is_key_order:
  "Compare a b =
    (if Value_ReturnType a = Value_ReturnType b then Some (sgn (sort_key a - sort_key b)) else panic)"
  by (rule Compare_key)

text \<open>An integer's text parses back to it: \<^verbatim>\<open>ParseInt\<close> of what \<^verbatim>\<open>String\<close> prints is the integer, for
  all 64-bit values, the least one included.\<close>

theorem Int_text_round_trip: "ParseInt (Int_String x) = Inr (NewInt x)"
  by (simp add: ParseInt_def Int_String_def strconv_round_trip)

text \<open>C35: A float's text parses back to it. What \<^verbatim>\<open>String\<close> prints, with one decimal place for an
  integral value below a million and the shortest digits that identify the value otherwise, is
  parsed by \<^verbatim>\<open>ParseFloat\<close> to the same bits, for both zeros, the denormal values, the greatest values
  and the infinities; of a NaN the payload is lost.\<close>

theorem Float_text_round_trip:
  "ParseFloat (Float_String x) = Inr (NewFloat (if is_nan x then qnan else x))"
  by (simp only: ParseFloat_def float_round_trip sum.case)

end
