(* ===== verification/Http_Client.thy ===== *)
theory Http_Client
  imports Store_Api Http_Text
begin

text \<open>
  The HTTP client (\<^verbatim>\<open>pkg/client/client.go\<close>) with the messages it exchanges (\<^verbatim>\<open>pkg/model\<close>), and the routes of
  the server (\<^verbatim>\<open>api/server.go\<close>). The exchange of a request for a response is fasthttp's, a
  parameter \<open>http\<close> of the client; the locale \<open>http_server\<close> states what the client relies on: a
  request whose line is well formed is answered as the server's routes answer it. \<open>http_store\<close> adds
  that the server's store is a map. The first is interpreted on the server over the raft store and
  on that over the memory store, the second on the latter.
\<close>

section \<open>Messages\<close>

text \<open>The JSON object of a request; an empty value is left out.\<close>

record json_request =
  jqKey :: bytes
  jqValue :: "bytes option"

definition MustMarshal :: "Api_Request \<Rightarrow> json_request" where
  "MustMarshal r =
    \<lparr>jqKey = json_string (reqKey r),
     jqValue = (if reqValue r = [] then None else Some (json_string (reqValue r)))\<rparr>"

definition bind_request :: "json_request \<Rightarrow> Api_Request" where
  "bind_request j = \<lparr>reqKey = jqKey j, reqValue = (case jqValue j of None \<Rightarrow> [] | Some v \<Rightarrow> v)\<rparr>"

text \<open>The JSON object of a result: nil data and an empty error are left out, bytes are base64.\<close>

datatype json_value = JNull | JString string | JOther

record json_result =
  jrCode :: int
  jrData :: "json_value option"
  jrErr :: "string option"

definition result_json :: "JSONResult \<Rightarrow> json_result" where
  "result_json r =
    \<lparr>jrCode = Code r,
     jrData = (case Data r of
        NoData \<Rightarrow> None
      | BytesData None \<Rightarrow> Some JNull
      | BytesData (Some v) \<Rightarrow> Some (JString (b64_encode v))
      | TextData t \<Rightarrow> Some (JString t)),
     jrErr = (if Err r = [] then None else Some (Err r))\<rparr>"

text \<open>
  \<^verbatim>\<open>MustUnmarshalResult\<close> ends the process on a body that is no such object; the data is
  then an interface that is nil, a string or something else.
\<close>

datatype any_data = Nil_data | String_data string | Any_data

record client_result =
  crCode :: int
  crData :: any_data
  crErr :: string

definition MustUnmarshalResult :: "json_result option \<Rightarrow> client_result run" where
  "MustUnmarshalResult body =
    (case body of
       None \<Rightarrow> panic
     | Some j \<Rightarrow>
         Some \<lparr>crCode = jrCode j,
           crData = (case jrData j of
              None \<Rightarrow> Nil_data | Some JNull \<Rightarrow> Nil_data | Some (JString s) \<Rightarrow> String_data s | Some JOther \<Rightarrow> Any_data),
           crErr = (case jrErr j of None \<Rightarrow> [] | Some e \<Rightarrow> e)\<rparr>)"

section \<open>The client\<close>

datatype http_method = GET | POST | DELETE

record http_request =
  req_method :: http_method
  uri :: bytes
  content :: "json_request option"

record http_response =
  StatusCode :: nat
  Body :: "json_result option"

type_synonym 's http = "http_request \<Rightarrow> 's \<Rightarrow> (string + http_response) \<times> 's"

datatype client_error = Transport string | Error_code nat | Server_error string | Corrupt_data

record httpClient =
  url :: bytes
  addrs :: "bytes list"

definition client_New :: "bytes list \<Rightarrow> httpClient run" where
  "client_New as =
    (case as of
       [] \<Rightarrow> panic
     | a # _ \<Rightarrow> Some \<lparr>url = text_bytes ''http://'' @ a @ text_bytes ''/kv'', addrs = as\<rparr>)"

definition doHTTP :: "'s http \<Rightarrow> http_request \<Rightarrow> 's \<Rightarrow> ((client_error + client_result) \<times> 's) run" where
  "doHTTP http req w =
    (case http req w of
       (Inl err, w') \<Rightarrow> Some (Inl (Transport err), w')
     | (Inr resp, w') \<Rightarrow>
         if StatusCode resp \<noteq> 200 then Some (Inl (Error_code (StatusCode resp)), w')
         else do { result \<leftarrow> MustUnmarshalResult (Body resp);
                   if crCode result \<noteq> 0 then Some (Inl (Server_error (crErr result)), w')
                   else Some (Inr result, w') })"

definition key_uri :: "httpClient \<Rightarrow> bytes \<Rightarrow> bytes" where
  "key_uri c key = url c @ text_bytes ''?key='' @ key"

definition client_Set :: "'s http \<Rightarrow> httpClient \<Rightarrow> bytes \<Rightarrow> bytes \<Rightarrow> 's \<Rightarrow> (client_error option \<times> 's) run" where
  "client_Set http c key val w =
    do { (res, w') \<leftarrow> doHTTP http
           \<lparr>req_method = POST, uri = url c, content = Some (MustMarshal \<lparr>reqKey = key, reqValue = val\<rparr>)\<rparr> w;
         case res of
           Inl err \<Rightarrow> Some (Some err, w')
         | Inr _ \<Rightarrow> Some (None, w') }"

definition client_Get :: "'s http \<Rightarrow> httpClient \<Rightarrow> bytes \<Rightarrow> 's \<Rightarrow> ((client_error + bytes option) \<times> 's) run" where
  "client_Get http c key w =
    do { (r, w') \<leftarrow> doHTTP http \<lparr>req_method = GET, uri = key_uri c key, content = None\<rparr> w;
         case r of
           Inl err \<Rightarrow> Some (Inl err, w')
         | Inr res \<Rightarrow>
             (case crData res of
                Nil_data \<Rightarrow> Some (Inr None, w')
              | Any_data \<Rightarrow> panic
              | String_data s \<Rightarrow>
                  (case b64_decode s of
                     None \<Rightarrow> Some (Inl Corrupt_data, w')
                   | Some v \<Rightarrow> Some (Inr (Some v), w'))) }"

definition client_Delete :: "'s http \<Rightarrow> httpClient \<Rightarrow> bytes \<Rightarrow> 's \<Rightarrow> (client_error option \<times> 's) run" where
  "client_Delete http c key w =
    do { (res, w') \<leftarrow> doHTTP http \<lparr>req_method = DELETE, uri = key_uri c key, content = None\<rparr> w;
         case res of
           Inl err \<Rightarrow> Some (None, w')
         | Inr _ \<Rightarrow> Some (None, w') }"

text \<open>An error of a delete is dropped, whatever the exchange does.\<close>

lemma client_Delete_no_error: "client_Delete http c key w = Some (err, w') \<Longrightarrow> err = None"
  by (auto simp: client_Delete_def split: sum.splits)

section \<open>The server's routes\<close>

definition uri_path :: "bytes \<Rightarrow> bytes" where
  "uri_path u = takeWhile (\<lambda>b. b \<noteq> 63 \<and> b \<noteq> 35) (dropWhile (\<lambda>b. b \<noteq> 47) (drop 7 u))"

definition ok_response :: "JSONResult \<Rightarrow> http_response" where
  "ok_response r = \<lparr>StatusCode = 200, Body = Some (result_json r)\<rparr>"

text \<open>
  \<^verbatim>\<open>Start\<close> registers three handlers for one path; gin answers 404 to everything else.
  \<open>no_body\<close> is gin's error for a body that does not bind.
\<close>

definition Start ::
    "(err \<Rightarrow> string) \<Rightarrow> err \<Rightarrow> (bytes \<Rightarrow> bytes option \<Rightarrow> 's \<Rightarrow> err option \<times> 's) \<Rightarrow>
     (bytes \<Rightarrow> 's \<Rightarrow> err + bytes option) \<Rightarrow> (bytes \<Rightarrow> 's \<Rightarrow> err option \<times> 's) \<Rightarrow>
     http_request \<Rightarrow> 's \<Rightarrow> http_response \<times> 's" where
  "Start lib no_body set_op get_op delete_op req s =
    (if uri_path (uri req) \<noteq> text_bytes ''/kv'' then (\<lparr>StatusCode = 404, Body = None\<rparr>, s)
     else let key = query_value (text_bytes ''key'') (raw_query (uri req))
          in case req_method req of
               GET \<Rightarrow> (ok_response (doGet lib get_op key s), s)
             | POST \<Rightarrow>
                 (let body = (case content req of None \<Rightarrow> Inl no_body | Some j \<Rightarrow> Inr (bind_request j));
                      (r, s') = doSet lib set_op body s
                  in (ok_response r, s'))
             | DELETE \<Rightarrow> (let (r, s') = doDelete lib delete_op key s in (ok_response r, s')))"

text \<open>A request line without blanks and control characters, which the server's parser accepts.\<close>

definition request_line_ok :: "http_request \<Rightarrow> bool" where
  "request_line_ok req \<longleftrightarrow> list_all (\<lambda>b. 33 \<le> b \<and> b \<noteq> 127) (uri req)"

locale http_server =
  fixes set_op :: "bytes \<Rightarrow> bytes option \<Rightarrow> 's \<Rightarrow> err option \<times> 's"
    and get_op :: "bytes \<Rightarrow> 's \<Rightarrow> err + bytes option"
    and delete_op :: "bytes \<Rightarrow> 's \<Rightarrow> err option \<times> 's"
    and http :: "'s http"
    and lib :: "err \<Rightarrow> string"
    and no_body :: err
  assumes delivered: "request_line_ok req \<Longrightarrow>
    http req s = (case Start lib no_body set_op get_op delete_op req s of (resp, s') \<Rightarrow> (Inr resp, s'))"

locale http_store =
  kv_store set_op get_op delete_op val + http_server set_op get_op delete_op http lib no_body
  for set_op :: "bytes \<Rightarrow> bytes option \<Rightarrow> 's \<Rightarrow> err option \<times> 's" and get_op delete_op val http lib no_body

text \<open>The exchange that hands every request to the server.\<close>

definition direct_http ::
    "(err \<Rightarrow> string) \<Rightarrow> err \<Rightarrow> memoryStore http" where
  "direct_http lib no_body req s =
    (case Start lib no_body mem_Set mem_Get mem_Delete req s of (resp, s') \<Rightarrow> (Inr resp, s'))"

section \<open>What the client sees of the store\<close>

lemma bytes_key [simp]:
  "text_bytes ''key'' = [107, 101, 121]" "text_bytes ''?key='' = [63, 107, 101, 121, 61]"
  "text_bytes ''/kv'' = [47, 107, 118]" "text_bytes ''http://'' = [104, 116, 116, 112, 58, 47, 47]"
  by (simp_all add: text_bytes_def)

text \<open>Host names and ports: no slash, question mark or hash, and nothing a request line excludes.\<close>

definition host_ok :: "bytes \<Rightarrow> bool" where
  "host_ok a \<longleftrightarrow> list_all (\<lambda>b. 33 \<le> b \<and> b \<noteq> 127 \<and> b \<noteq> 47 \<and> b \<noteq> 63 \<and> b \<noteq> 35) a"

lemma dropWhile_host: "host_ok a \<Longrightarrow> dropWhile (\<lambda>b. b \<noteq> 47) (a @ 47 # s) = 47 # s"
  by (induction a) (auto simp: host_ok_def)

lemma raw_query_host:
  assumes "host_ok a" "list_all plain k"
  shows "raw_query (text_bytes ''http://'' @ a @ text_bytes ''/kv'' @ text_bytes ''?key='' @ k) =
    text_bytes ''key'' @ 61 # k"
proof -
  let ?u = "text_bytes ''http://'' @ a @ text_bytes ''/kv'' @ text_bytes ''?key='' @ k"
  have "list_all (\<lambda>b. \<not> b = 35) ?u" using assms by (auto simp: list_all_iff host_ok_def plain_def)
  then have f: "fst (cut_at (\<lambda>b. b = 35) ?u) = ?u" by (simp only: cut_at_none fst_conv)
  have "list_all (\<lambda>b. \<not> b = 63) (text_bytes ''http://'' @ a @ text_bytes ''/kv'')"
    using assms(1) by (auto simp: list_all_iff host_ok_def)
  from cut_at_first [OF this, of 63 "text_bytes ''key'' @ 61 # k"]
  have "snd (cut_at (\<lambda>b. b = 63) ?u) = text_bytes ''key'' @ 61 # k" by simp
  then show ?thesis by (simp only: raw_query_def f Let_def)
qed

lemma uri_path_host:
  "host_ok a \<Longrightarrow> uri_path (text_bytes ''http://'' @ a @ text_bytes ''/kv'') = text_bytes ''/kv''"
  "host_ok a \<Longrightarrow> uri_path (text_bytes ''http://'' @ a @ text_bytes ''/kv'' @ text_bytes ''?key='' @ k) =
    text_bytes ''/kv''"
  by (simp_all add: uri_path_def dropWhile_host)

text \<open>What a result is after the server has written it and the client has read it.\<close>

lemma client_reads_result:
  "MustUnmarshalResult (Body (ok_response (returnData (BytesData v)))) =
    Some \<lparr>crCode = 0, crData = (case v of None \<Rightarrow> Nil_data | Some b \<Rightarrow> String_data (b64_encode b)), crErr = []\<rparr>"
  "MustUnmarshalResult (Body (ok_response (returnData (TextData t)))) =
    Some \<lparr>crCode = 0, crData = String_data t, crErr = []\<rparr>"
  "MustUnmarshalResult (Body (ok_response (returnError lib e))) =
    Some \<lparr>crCode = 1, crData = Nil_data, crErr = Error lib e\<rparr>"
  by (simp_all add: MustUnmarshalResult_def ok_response_def result_json_def returnData_def
      returnError_def split: option.split)

lemma StatusCode_ok [simp]: "StatusCode (ok_response r) = 200"
  by (simp add: ok_response_def)

lemma bind_MustMarshal:
  "bind_request (MustMarshal \<lparr>reqKey = k, reqValue = v\<rparr>) = \<lparr>reqKey = json_string k, reqValue = json_string v\<rparr>"
  by (simp add: bind_request_def MustMarshal_def json_string.simps [of "[]"])

definition connected :: "httpClient \<Rightarrow> bool" where
  "connected c \<longleftrightarrow> (\<exists>a as. host_ok a \<and> client_New (a # as) = Some c)"

lemma connected_url:
  assumes "connected c"
  obtains a where "host_ok a" "url c = text_bytes ''http://'' @ a @ text_bytes ''/kv''"
  using assms by (auto simp: connected_def client_New_def)

lemma connected_requests:
  assumes "connected c" and "list_all plain k"
  shows "request_line_ok \<lparr>req_method = m, uri = key_uri c k, content = b\<rparr>"
    and "request_line_ok \<lparr>req_method = m, uri = url c, content = b\<rparr>"
    and "uri_path (key_uri c k) = text_bytes ''/kv''" and "uri_path (url c) = text_bytes ''/kv''"
    and "query_value (text_bytes ''key'') (raw_query (key_uri c k)) = k"
proof -
  obtain a where a: "host_ok a" and u: "url c = text_bytes ''http://'' @ a @ text_bytes ''/kv''"
    using connected_url [OF assms(1)] by blast
  show "request_line_ok \<lparr>req_method = m, uri = key_uri c k, content = b\<rparr>"
    "request_line_ok \<lparr>req_method = m, uri = url c, content = b\<rparr>"
    using a assms(2) by (auto simp: request_line_ok_def key_uri_def u list_all_iff host_ok_def plain_def)
  show "uri_path (key_uri c k) = text_bytes ''/kv''" "uri_path (url c) = text_bytes ''/kv''"
    using uri_path_host [OF a] by (simp_all only: key_uri_def u append_assoc)
  have "query_value (text_bytes ''key'') (text_bytes ''key'' @ 61 # k) = k"
    by (rule query_value_plain [OF assms(2)]) (simp_all add: plain_def)
  then show "query_value (text_bytes ''key'') (raw_query (key_uri c k)) = k"
    using raw_query_host [OF a assms(2)] by (simp only: key_uri_def u append_assoc)
qed

text \<open>Whatever the store behind the server: the client returns what the store's operation returns.\<close>

context http_server
begin

lemma client_Get_returns:
  assumes "connected c" "list_all plain k"
  shows "client_Get http c k s =
    Some (case get_op k s of Inl e \<Rightarrow> Inl (Server_error (Error lib e)) | Inr v \<Rightarrow> Inr v, s)"
proof -
  note r = connected_requests [OF assms]
  have "http \<lparr>req_method = GET, uri = key_uri c k, content = None\<rparr> s =
      (Inr (ok_response (doGet lib get_op k s)), s)"
    by (simp add: delivered r Start_def Let_def del: bytes_key)
  then show ?thesis
    by (cases "get_op k s")
      (simp_all add: client_Get_def doHTTP_def doGet_def client_reads_result split: option.split)
qed

lemma client_Set_returns:
  assumes "connected c"
  shows "client_Set http c k v s =
    (case set_op (json_string k) (Some (json_string v)) s of
       (e, s') \<Rightarrow> Some (map_option (\<lambda>e. Server_error (Error lib e)) e, s'))"
proof -
  note r = connected_requests [OF assms, of "[]", simplified]
  obtain e s' where o: "set_op (json_string k) (Some (json_string v)) s = (e, s')" by fastforce
  then have "http \<lparr>req_method = POST, uri = url c, content = Some (MustMarshal \<lparr>reqKey = k, reqValue = v\<rparr>)\<rparr> s =
      (Inr (ok_response (case e of Some x \<Rightarrow> returnError lib x | None \<Rightarrow> returnData (TextData ''OK''))), s')"
    by (simp add: delivered r Start_def doSet_def bind_MustMarshal Let_def split: option.split)
  with o show ?thesis
    by (cases e) (simp_all add: client_Set_def doHTTP_def client_reads_result)
qed

lemma client_Delete_returns:
  assumes "connected c" "list_all plain k"
  shows "client_Delete http c k s = Some (None, snd (delete_op k s))"
proof -
  note r = connected_requests [OF assms]
  obtain e s' where o: "delete_op k s = (e, s')" by fastforce
  then have "http \<lparr>req_method = DELETE, uri = key_uri c k, content = None\<rparr> s =
      (Inr (ok_response (case e of Some x \<Rightarrow> returnError lib x | None \<Rightarrow> returnData (TextData ''OK''))), s')"
    by (simp add: delivered r Start_def doDelete_def Let_def split: option.split del: bytes_key)
  with o show ?thesis
    by (cases e) (simp_all add: client_Delete_def doHTTP_def client_reads_result)
qed

end

context http_store
begin

lemma client_Get_reads:
  "connected c \<Longrightarrow> list_all plain k \<Longrightarrow> client_Get http c k s = Some (Inr (val s k), s)"
  by (simp add: client_Get_returns get_ok)

lemma client_Set_writes:
  assumes "connected c"
  shows "\<exists>s'. client_Set http c k v s = Some (None, s') \<and>
    val s' = (val s)(json_string k \<mapsto> json_string v)"
  using set_ok [of "json_string k" "json_string v" s]
  by (auto simp: client_Set_returns [OF assms] split: prod.splits)

lemma client_Delete_removes:
  "connected c \<Longrightarrow> list_all plain k \<Longrightarrow>
   \<exists>s'. client_Delete http c k s = Some (None, s') \<and> val s' = (val s)(k := None)"
  by (simp add: client_Delete_returns delete_ok)

end

interpretation memory_http:
  http_store mem_Set mem_Get mem_Delete "\<lambda>s k. Option.bind (db s k) id" "direct_http lib no_body" lib no_body
  for lib no_body
  by unfold_locales (simp add: direct_http_def)

section \<open>The server over the raft store\<close>

text \<open>
  The three operations of \<^verbatim>\<open>RaftStore\<close> as the handlers call them, on the peer of the node that got
  the request. A read is registered and its response awaited; \<open>at\<close> is the storage in which it is
  served, if that happens within the second. \<open>served\<close> does not panic (\<open>served_answer\<close>).
\<close>

definition raft_Set :: "'n raft_node \<Rightarrow> bytes \<Rightarrow> bytes option \<Rightarrow> ('d, 'n, 'w) peer \<Rightarrow> err option \<times> ('d, 'n, 'w) peer" where
  "raft_Set N key val pr = RaftStore_Set N key (slice val) pr"

definition raft_Get ::
    "'d pebble \<Rightarrow> 'd peerStorage option \<Rightarrow> u64 \<Rightarrow> nat \<Rightarrow> bytes \<Rightarrow> ('d, 'n, 'w) peer \<Rightarrow> err + bytes option" where
  "raft_Get P at now n key pr =
     map_sum id Some (the (case at of None \<Rightarrow> RaftStore_Get_end None | Some s \<Rightarrow> served P now key n s))"

definition raft_http ::
    "'d pebble \<Rightarrow> 'n raft_node \<Rightarrow> 'd peerStorage option \<Rightarrow> u64 \<Rightarrow> nat \<Rightarrow> (err \<Rightarrow> string) \<Rightarrow> err \<Rightarrow> ('d, 'n, 'w) peer http" where
  "raft_http P N at now n lib no_body req pr =
     (case Start lib no_body (raft_Set N) (raft_Get P at now n) (RaftStore_Delete N) req pr of
        (resp, pr') \<Rightarrow> (Inr resp, pr'))"

interpretation raft_server:
  http_server "raft_Set N" "raft_Get P at now n" "RaftStore_Delete N" "raft_http P N at now n lib no_body" lib no_body
  for P N at now n lib no_body
  by unfold_locales (simp add: raft_http_def)

lemma raft_Get_answer:
  "healthy P \<Longrightarrow> raft_Get P (Some s) now n key pr = map_sum id Some (answer (kv_map P (engines s) key))"
  "raft_Get P None now n key pr = Inl ErrLostReadResponse"
  by (simp_all add: raft_Get_def served_answer RaftStore_Get_end_def)

text \<open>
  A key with a separator in it is cut there: the client does not escape it, and asks for
  another key than it set.
\<close>

lemma separator_cuts_key:
  assumes "host_ok a" "list_all plain k"
  shows "raw_query (text_bytes ''http://'' @ a @ text_bytes ''/kv'' @ text_bytes ''?key='' @ k @ 35 # k') =
    text_bytes ''key'' @ 61 # k"
proof -
  let ?u = "text_bytes ''http://'' @ a @ text_bytes ''/kv'' @ text_bytes ''?key='' @ k"
  have "list_all (\<lambda>b. \<not> b = 35) ?u" using assms(1,2) by (auto simp: list_all_iff host_ok_def plain_def)
  from cut_at_first [OF this, of 35 k']
  have f: "fst (cut_at (\<lambda>b. b = 35) (?u @ 35 # k')) = ?u" by simp
  have "list_all (\<lambda>b. \<not> b = 63) (text_bytes ''http://'' @ a @ text_bytes ''/kv'')"
    using assms(1) by (auto simp: list_all_iff host_ok_def)
  from cut_at_first [OF this, of 63 "text_bytes ''key'' @ 61 # k"]
  have "snd (cut_at (\<lambda>b. b = 63) ?u) = text_bytes ''key'' @ 61 # k" by simp
  with f show ?thesis by (simp only: raw_query_def Let_def append_assoc append_Cons)
qed

end
