(* ===== verification/Server_Main.thy ===== *)
theory Server_Main
  imports Http_Client
begin

text \<open>
  The server program (\<^verbatim>\<open>cmd/server/main.go\<close>): its configuration (\<^verbatim>\<open>pkg/cfg\<close>), the construction of
  the API server, and the signals that end it. Reading a TOML file and building a store are
  parameters. The program's state is whether it is stopping, the goroutine that stops it and the
  status it ended with; a step is a signal or the run of that goroutine.
\<close>

section \<open>Configuration and construction\<close>

record APICfg =
  Addr :: string

record StoreCfg =
  Memory :: bool
  DataPath :: string

record Cfg =
  API :: APICfg
  Store :: StoreCfg

text \<open>\<^verbatim>\<open>log.Fatalf\<close> ends the process.\<close>

definition MustParseCfg :: "(string \<Rightarrow> 'e + Cfg) \<Rightarrow> string \<Rightarrow> Cfg run" where
  "MustParseCfg decodeFile file = (case decodeFile file of Inl err \<Rightarrow> panic | Inr c \<Rightarrow> Some c)"

record 's Server =
  server_cfg :: Cfg
  server_store :: 's

definition NewServer :: "(StoreCfg \<Rightarrow> 'e + 's) \<Rightarrow> Cfg \<Rightarrow> 'e + 's Server" where
  "NewServer newStore c =
    (case newStore (Store c) of
       Inl err \<Rightarrow> Inl err
     | Inr s \<Rightarrow> Inr \<lparr>server_cfg = c, server_store = s\<rparr>)"

definition Server_Stop :: "'s Server \<Rightarrow> string option" where
  "Server_Stop s = None"

section \<open>Signals\<close>

datatype signal_kind = SIGHUP | SIGINT | SIGTERM | SIGQUIT

record server_process =
  stopping :: bool
  stopper :: "signal_kind option"
  exit_status :: "int option"

definition server_started :: server_process where
  "server_started = \<lparr>stopping = False, stopper = None, exit_status = None\<rparr>"

definition on_signal :: "signal_kind \<Rightarrow> server_process \<Rightarrow> server_process" where
  "on_signal sig p =
    (if \<not> stopping p then p\<lparr>stopping := True, stopper := Some sig\<rparr>
     else p\<lparr>exit_status := Some 0\<rparr>)"

definition run_stopper :: "server_process \<Rightarrow> server_process" where
  "run_stopper p =
    (case stopper p of
       None \<Rightarrow> p
     | Some SIGTERM \<Rightarrow> p\<lparr>stopper := None, exit_status := Some 0\<rparr>
     | Some _ \<Rightarrow> p\<lparr>stopper := None, exit_status := Some 1\<rparr>)"

text \<open>The goroutine of \<^verbatim>\<open>Start\<close> ends the process when the server cannot listen or stops listening.\<close>

definition start_returned :: "server_process \<Rightarrow> server_process" where
  "start_returned p = p\<lparr>exit_status := Some 1\<rparr>"

definition server_main :: "(string \<Rightarrow> 'e + Cfg) \<Rightarrow> (StoreCfg \<Rightarrow> 'e + 's) \<Rightarrow> string \<Rightarrow> ('s Server \<times> server_process) run" where
  "server_main decodeFile newStore file =
    do { c \<leftarrow> MustParseCfg decodeFile file;
         case NewServer newStore c of
           Inl err \<Rightarrow> panic
         | Inr svr \<Rightarrow> Some (svr, server_started) }"

inductive server_step :: "server_process \<Rightarrow> server_process \<Rightarrow> bool" where
  signal: "exit_status p = None \<Longrightarrow> server_step p (on_signal sig p)"
| stop: "exit_status p = None \<Longrightarrow> stopper p \<noteq> None \<Longrightarrow> server_step p (run_stopper p)"
| fail: "exit_status p = None \<Longrightarrow> server_step p (start_returned p)"

inductive_cases server_stepE: "server_step p q"

text \<open>
  A process that has not ended is stopping exactly when its stopper is under way, so it always
  ends once the stopper runs, with status 0 after \<^verbatim>\<open>SIGTERM\<close> and 1 after the other signals.
\<close>

definition server_inv :: "server_process \<Rightarrow> bool" where
  "server_inv p \<longleftrightarrow>
    (exit_status p = None \<longrightarrow> (stopping p \<longleftrightarrow> stopper p \<noteq> None)) \<and>
    (exit_status p \<in> {None, Some 0, Some 1})"

lemma server_inv_step: "server_step p q \<Longrightarrow> server_inv p \<Longrightarrow> server_inv q"
  by (elim server_stepE)
    (auto simp: server_inv_def on_signal_def run_stopper_def start_returned_def split: option.splits signal_kind.splits)

lemma server_inv_run: "server_step\<^sup>*\<^sup>* server_started p \<Longrightarrow> server_inv p"
  by (induction rule: rtranclp_induct) (auto simp: server_inv_step, simp add: server_inv_def server_started_def)

lemma stopper_ends: "server_inv p \<Longrightarrow> stopping p \<Longrightarrow> exit_status p = None \<Longrightarrow>
    exit_status (run_stopper p) = Some (if stopper p = Some SIGTERM then 0 else 1)"
  by (auto simp: server_inv_def run_stopper_def split: option.splits signal_kind.splits)

end
