(* ===== verification/Logger.thy ===== *)
theory Logger
  imports Prelude
begin

text \<open>
  The logger (\<^verbatim>\<open>pkg/logger/logger.go\<close>): levels as sets of message types, the filter, and the ways a
  call ends. The standard library's logger that it writes to is the record \<open>std_logger\<close>; its
  output is the list of the texts handed to \<^verbatim>\<open>Output\<close>, without the header the library puts before
  each. Formatting is \<^verbatim>\<open>fmt\<close>'s: \<open>sprintf\<close> and \<open>sprint\<close>, parameters of the definitions that
  format. The package's global logger is the state its functions are given.
\<close>

section \<open>Levels\<close>

type_synonym LogType = u64
type_synonym LogLevel = u64

definition LogFatal :: LogType where
  "LogFatal = 0x1"

definition LogError :: LogType where
  "LogError = 0x2"

definition LogWarning :: LogType where
  "LogWarning = 0x4"

definition LogInfo :: LogType where
  "LogInfo = 0x8"

definition LogDebug :: LogType where
  "LogDebug = 0x10"

definition LogLevelNone :: LogLevel where
  "LogLevelNone = 0x0"

definition LogLevelFatal :: LogLevel where
  "LogLevelFatal = LogLevelNone OR LogFatal"

definition LogLevelError :: LogLevel where
  "LogLevelError = LogLevelFatal OR LogError"

definition LogLevelWarn :: LogLevel where
  "LogLevelWarn = LogLevelError OR LogWarning"

definition LogLevelInfo :: LogLevel where
  "LogLevelInfo = LogLevelWarn OR LogInfo"

definition LogLevelDebug :: LogLevel where
  "LogLevelDebug = LogLevelInfo OR LogDebug"

definition LogLevelAll :: LogLevel where
  "LogLevelAll = LogLevelDebug"

lemmas log_defs =
  LogFatal_def LogError_def LogWarning_def LogInfo_def LogDebug_def LogLevelNone_def LogLevelFatal_def
  LogLevelError_def LogLevelWarn_def LogLevelInfo_def LogLevelDebug_def LogLevelAll_def

definition StringToLogLevel :: "string \<Rightarrow> LogLevel" where
  "StringToLogLevel level =
    (if level = ''fatal'' then LogLevelFatal
     else if level = ''error'' then LogLevelError
     else if level = ''warn'' then LogLevelWarn
     else if level = ''warning'' then LogLevelWarn
     else if level = ''debug'' then LogLevelDebug
     else if level = ''info'' then LogLevelInfo
     else LogLevelAll)"

definition LogTypeToString :: "LogType \<Rightarrow> string \<times> string" where
  "LogTypeToString t =
    (if t = LogFatal then (''fatal'', ''[0;31'')
     else if t = LogError then (''error'', ''[0;31'')
     else if t = LogWarning then (''warning'', ''[0;33'')
     else if t = LogDebug then (''debug'', ''[0;36'')
     else if t = LogInfo then (''info'', ''[0;37'')
     else (''unknown'', ''[0;37''))"

section \<open>The logger\<close>

record std_logger =
  lflags :: int
  lprefix :: string
  lout :: "string list"

record Logger =
  inner_log :: std_logger
  log_level :: LogLevel
  highlighting :: bool

text \<open>\<^verbatim>\<open>LstdFlags\<close> is 3 and \<^verbatim>\<open>Ldate | Ltime | Lshortfile\<close> is 19; \<open>env\<close> is the variable \<^verbatim>\<open>LOG_LEVEL\<close>.\<close>

definition NewLogger :: "string \<Rightarrow> string \<Rightarrow> Logger" where
  "NewLogger env prefix =
    (let level = (if length env \<noteq> 0 then StringToLogLevel env else LogLevelInfo)
     in \<lparr>inner_log = \<lparr>lflags = 3, lprefix = prefix, lout = []\<rparr>, log_level = level, highlighting = True\<rparr>)"

definition log_New :: "string \<Rightarrow> Logger" where
  "log_New env = NewLogger env ''''"

definition Logger_SetHighlighting :: "bool \<Rightarrow> Logger \<Rightarrow> Logger" where
  "Logger_SetHighlighting h l = l\<lparr>highlighting := h\<rparr>"

definition Logger_SetFlags :: "int \<Rightarrow> Logger \<Rightarrow> Logger" where
  "Logger_SetFlags f l = l\<lparr>inner_log := (inner_log l)\<lparr>lflags := f\<rparr>\<rparr>"

definition Logger_Flags :: "Logger \<Rightarrow> int" where
  "Logger_Flags l = lflags (inner_log l)"

definition Logger_SetLevel :: "LogLevel \<Rightarrow> Logger \<Rightarrow> Logger" where
  "Logger_SetLevel level l = l\<lparr>log_level := level\<rparr>"

definition Logger_SetLevelByString :: "string \<Rightarrow> Logger \<Rightarrow> Logger" where
  "Logger_SetLevelByString level l = l\<lparr>log_level := StringToLogLevel level\<rparr>"

definition Output :: "string \<Rightarrow> Logger \<Rightarrow> Logger" where
  "Output s l = l\<lparr>inner_log := (inner_log l)\<lparr>lout := lout (inner_log l) @ [s]\<rparr>\<rparr>"

text \<open>An argument of a format: a value, or the slice of all arguments that \<^verbatim>\<open>log\<close> passes on as one.\<close>

datatype 'v arg = Value_arg 'v | Slice_arg "'v list"

type_synonym 'v sprintf = "string \<Rightarrow> 'v arg list \<Rightarrow> string"

definition logf :: "'v sprintf \<Rightarrow> LogType \<Rightarrow> string \<Rightarrow> 'v arg list \<Rightarrow> Logger \<Rightarrow> Logger" where
  "logf sprintf t format v l =
    (if log_level l OR t \<noteq> log_level l then l
     else (let (logStr, logColor) = LogTypeToString t;
               s = (if highlighting l
                    then CHR 0x1B # logColor @ ''m['' @ logStr @ ''] '' @ sprintf format v @ [CHR 0x1B] @ ''[0m''
                    else ''['' @ logStr @ ''] '' @ sprintf format v)
           in Output s l))"

definition log_args :: "'v sprintf \<Rightarrow> LogType \<Rightarrow> 'v list \<Rightarrow> Logger \<Rightarrow> Logger" where
  "log_args sprintf t v l = logf sprintf t (''%v'' @ [CHR 0x0A]) [Slice_arg v] l"

text \<open>How a call ends: it returns, or ends the process, or panics.\<close>

datatype ending = Returns | Exits int | Panics string

definition Logger_Fatal :: "'v sprintf \<Rightarrow> 'v list \<Rightarrow> Logger \<Rightarrow> Logger \<times> ending" where
  "Logger_Fatal sprintf v l = (log_args sprintf LogFatal v l, Exits (- 1))"

definition Logger_Fatalf :: "'v sprintf \<Rightarrow> string \<Rightarrow> 'v list \<Rightarrow> Logger \<Rightarrow> Logger \<times> ending" where
  "Logger_Fatalf sprintf format v l = (logf sprintf LogFatal format (map Value_arg v) l, Exits (- 1))"

text \<open>\<^verbatim>\<open>Panic\<close> goes to the standard logger without looking at the level.\<close>

definition Logger_Panic :: "('v list \<Rightarrow> string) \<Rightarrow> 'v list \<Rightarrow> Logger \<Rightarrow> Logger \<times> ending" where
  "Logger_Panic sprint v l = (let s = sprint v in (Output s l, Panics s))"

definition Logger_Panicf :: "'v sprintf \<Rightarrow> string \<Rightarrow> 'v list \<Rightarrow> Logger \<Rightarrow> Logger \<times> ending" where
  "Logger_Panicf sprintf format v l = (let s = sprintf format (map Value_arg v) in (Output s l, Panics s))"

definition Logger_Error :: "'v sprintf \<Rightarrow> 'v list \<Rightarrow> Logger \<Rightarrow> Logger" where
  "Logger_Error sprintf v l = log_args sprintf LogError v l"

definition Logger_Errorf :: "'v sprintf \<Rightarrow> string \<Rightarrow> 'v list \<Rightarrow> Logger \<Rightarrow> Logger" where
  "Logger_Errorf sprintf format v l = logf sprintf LogError format (map Value_arg v) l"

definition Logger_Warn :: "'v sprintf \<Rightarrow> 'v list \<Rightarrow> Logger \<Rightarrow> Logger" where
  "Logger_Warn sprintf v l = log_args sprintf LogWarning v l"

definition Logger_Warnf :: "'v sprintf \<Rightarrow> string \<Rightarrow> 'v list \<Rightarrow> Logger \<Rightarrow> Logger" where
  "Logger_Warnf sprintf format v l = logf sprintf LogWarning format (map Value_arg v) l"

definition Logger_Debug :: "'v sprintf \<Rightarrow> 'v list \<Rightarrow> Logger \<Rightarrow> Logger" where
  "Logger_Debug sprintf v l = log_args sprintf LogDebug v l"

definition Logger_Debugf :: "'v sprintf \<Rightarrow> string \<Rightarrow> 'v list \<Rightarrow> Logger \<Rightarrow> Logger" where
  "Logger_Debugf sprintf format v l = logf sprintf LogDebug format (map Value_arg v) l"

definition Logger_Info :: "'v sprintf \<Rightarrow> 'v list \<Rightarrow> Logger \<Rightarrow> Logger" where
  "Logger_Info sprintf v l = log_args sprintf LogInfo v l"

definition Logger_Infof :: "'v sprintf \<Rightarrow> string \<Rightarrow> 'v list \<Rightarrow> Logger \<Rightarrow> Logger" where
  "Logger_Infof sprintf format v l = logf sprintf LogInfo format (map Value_arg v) l"

section \<open>The package's functions on its global logger\<close>

definition SetLevel :: "LogLevel \<Rightarrow> Logger \<Rightarrow> Logger" where
  "SetLevel level g = Logger_SetLevel level g"

definition GetLogLevel :: "Logger \<Rightarrow> LogLevel" where
  "GetLogLevel g = log_level g"

definition SetFlags :: "int \<Rightarrow> Logger \<Rightarrow> Logger" where
  "SetFlags f g = Logger_SetFlags f g"

definition SetLevelByString :: "string \<Rightarrow> Logger \<Rightarrow> Logger" where
  "SetLevelByString level g = Logger_SetLevelByString level g"

definition SetHighlighting :: "bool \<Rightarrow> Logger \<Rightarrow> Logger" where
  "SetHighlighting h g = Logger_SetHighlighting h g"

definition GlobalLogger :: "Logger \<Rightarrow> std_logger" where
  "GlobalLogger g = inner_log g"

definition global_log :: "string \<Rightarrow> Logger" where
  "global_log env = SetHighlighting True (SetFlags 19 (log_New env))"

definition global_Info :: "'v sprintf \<Rightarrow> 'v list \<Rightarrow> Logger \<Rightarrow> Logger" where
  "global_Info sprintf v g = Logger_Info sprintf v g"

definition global_Infof :: "'v sprintf \<Rightarrow> string \<Rightarrow> 'v list \<Rightarrow> Logger \<Rightarrow> Logger" where
  "global_Infof sprintf format v g = Logger_Infof sprintf format v g"

definition global_Panic :: "('v list \<Rightarrow> string) \<Rightarrow> 'v list \<Rightarrow> Logger \<Rightarrow> Logger \<times> ending" where
  "global_Panic sprint v g = Logger_Panic sprint v g"

definition global_Panicf :: "'v sprintf \<Rightarrow> string \<Rightarrow> 'v list \<Rightarrow> Logger \<Rightarrow> Logger \<times> ending" where
  "global_Panicf sprintf format v g = Logger_Panicf sprintf format v g"

definition global_Debug :: "'v sprintf \<Rightarrow> 'v list \<Rightarrow> Logger \<Rightarrow> Logger" where
  "global_Debug sprintf v g = Logger_Debug sprintf v g"

definition global_Debugf :: "'v sprintf \<Rightarrow> string \<Rightarrow> 'v list \<Rightarrow> Logger \<Rightarrow> Logger" where
  "global_Debugf sprintf format v g = Logger_Debugf sprintf format v g"

definition global_Warn :: "'v sprintf \<Rightarrow> 'v list \<Rightarrow> Logger \<Rightarrow> Logger" where
  "global_Warn sprintf v g = Logger_Warn sprintf v g"

definition global_Warnf :: "'v sprintf \<Rightarrow> string \<Rightarrow> 'v list \<Rightarrow> Logger \<Rightarrow> Logger" where
  "global_Warnf sprintf format v g = Logger_Warnf sprintf format v g"

definition global_Error :: "'v sprintf \<Rightarrow> 'v list \<Rightarrow> Logger \<Rightarrow> Logger" where
  "global_Error sprintf v g = Logger_Error sprintf v g"

definition global_Errorf :: "'v sprintf \<Rightarrow> string \<Rightarrow> 'v list \<Rightarrow> Logger \<Rightarrow> Logger" where
  "global_Errorf sprintf format v g = Logger_Errorf sprintf format v g"

definition global_Fatal :: "'v sprintf \<Rightarrow> 'v list \<Rightarrow> Logger \<Rightarrow> Logger \<times> ending" where
  "global_Fatal sprintf v g = Logger_Fatal sprintf v g"

definition global_Fatalf :: "'v sprintf \<Rightarrow> string \<Rightarrow> 'v list \<Rightarrow> Logger \<Rightarrow> Logger \<times> ending" where
  "global_Fatalf sprintf format v g = Logger_Fatalf sprintf format v g"

section \<open>What is logged\<close>

text \<open>A type is enabled when its bit is in the level; the levels enable types in the order of their severity.\<close>

definition enabled :: "LogLevel \<Rightarrow> LogType \<Rightarrow> bool" where
  "enabled level t \<longleftrightarrow> level OR t = level"

definition types_upto :: "nat \<Rightarrow> LogType list" where
  "types_upto n = take n [LogFatal, LogError, LogWarning, LogInfo, LogDebug]"

lemma enabled_levels:
  assumes "t \<in> {LogFatal, LogError, LogWarning, LogInfo, LogDebug}"
  shows "enabled LogLevelNone t \<longleftrightarrow> t \<in> set (types_upto 0)"
    and "enabled LogLevelFatal t \<longleftrightarrow> t \<in> set (types_upto 1)"
    and "enabled LogLevelError t \<longleftrightarrow> t \<in> set (types_upto 2)"
    and "enabled LogLevelWarn t \<longleftrightarrow> t \<in> set (types_upto 3)"
    and "enabled LogLevelInfo t \<longleftrightarrow> t \<in> set (types_upto 4)"
    and "enabled LogLevelDebug t \<longleftrightarrow> t \<in> set (types_upto 5)"
  using assms by (auto simp: enabled_def types_upto_def log_defs)

lemma logf_enabled:
  "lout (inner_log (logf sprintf t format v l)) =
    lout (inner_log l) @
      (if enabled (log_level l) t
       then [let (logStr, logColor) = LogTypeToString t; s = ''['' @ logStr @ ''] '' @ sprintf format v
             in if highlighting l then CHR 0x1B # logColor @ ''m'' @ s @ [CHR 0x1B] @ ''[0m'' else s]
       else [])"
  by (auto simp: logf_def enabled_def Output_def Let_def split: prod.split)

lemma logf_frame [frame]:
  "log_level (logf sprintf t format v l) = log_level l"
  "highlighting (logf sprintf t format v l) = highlighting l"
  "lflags (inner_log (logf sprintf t format v l)) = lflags (inner_log l)"
  by (auto simp: logf_def Output_def Let_def split: prod.split)

text \<open>An unknown name of a level, such as one in capitals or \<^verbatim>\<open>none\<close>, enables everything.\<close>

lemma unknown_level:
  "level \<notin> {''fatal'', ''error'', ''warn'', ''warning'', ''info''} \<Longrightarrow> StringToLogLevel level = LogLevelDebug"
  by (auto simp: StringToLogLevel_def LogLevelAll_def)

text \<open>\<^verbatim>\<open>Fatal\<close> ends the process whether or not it logs; \<^verbatim>\<open>Panic\<close> logs whatever the level.\<close>

lemma Fatal_exits: "snd (Logger_Fatal sprintf v l) = Exits (- 1)"
  by (simp add: Logger_Fatal_def)

lemma Panic_logs: "lout (inner_log (fst (Logger_Panic sprint v l))) = lout (inner_log l) @ [sprint v]"
  by (simp add: Logger_Panic_def Output_def Let_def)

lemma global_log_level: "log_level (global_log env) = (if env = [] then LogLevelInfo else StringToLogLevel env)"
  by (simp add: global_log_def SetHighlighting_def SetFlags_def Logger_SetHighlighting_def Logger_SetFlags_def
      log_New_def NewLogger_def Let_def)

end
