(* ===== verification/Startup.thy ===== *)
theory Startup
  imports Read_Loop Server_Main Logger
begin

text \<open>
  How a store comes up: the data path chooses the node and the two databases
  (\<^verbatim>\<open>store.go\<close>, \<^verbatim>\<open>peer_storage.go\<close>, \<^verbatim>\<open>engines.go\<close>), \<^verbatim>\<open>NewRaftStore\<close> builds the peer and \<^verbatim>\<open>run\<close>
  starts its goroutines, one of which serves the messages of the other peers. The file system with
  Pebble's \<^verbatim>\<open>Open\<close> and the network's \<^verbatim>\<open>Listen\<close> are parameters.
\<close>

section \<open>The databases of a path\<close>

record 'd disk =
  dk_stat :: "string \<Rightarrow> err option"
  dk_mkdirAll :: "string \<Rightarrow> err option"
  dk_open :: "string \<Rightarrow> err + 'd"

definition KvPath :: string where
  "KvPath = ''/kv''"

definition MetaPath :: string where
  "MetaPath = ''/meta''"

definition peer_engines :: "'d disk \<Rightarrow> string \<Rightarrow> 'd engines run" where
  "peer_engines D path =
     NewEngines (dk_stat D) (dk_mkdirAll D) (dk_open D) (path @ KvPath) (path @ MetaPath)"

section \<open>The goroutines of a peer\<close>

text \<open>
  The state of a running peer: \<^verbatim>\<open>onTick\<close> is at its \<^verbatim>\<open>select\<close> and \<^verbatim>\<open>handleReadState\<close> waits for a
  signal. The message loop has no state of its own.
\<close>

definition run_peer :: "('d, 'n, 'w) peer \<Rightarrow> ('d, 'n, 'w) peer \<times> pc \<times> read_pc" where
  "run_peer pr = (pr, Select, Waiting)"

text \<open>
  The message server: the options given to gRPC, durations in nanoseconds, and the handler of a
  received request. Reading \<^verbatim>\<open>peerMap\<close> at a missing key gives the empty address. \<open>listen\<close> is
  whether the address can be listened on.
\<close>

definition second :: int where
  "second = 1000000000"

record grpc_server =
  gsAddr :: string
  gsMinTime :: int
  gsPermitWithoutStream :: bool
  gsMaxConnectionIdle :: int
  gsTime :: int
  gsTimeout :: int
  gsHandler :: "RaftMsgReq \<Rightarrow> Message list \<Rightarrow> Message list run"

definition serveGrpc :: "(string \<Rightarrow> bool) \<Rightarrow> u64 \<Rightarrow> grpc_server run" where
  "serveGrpc listen i =
     (let addr = (case peerMap i of Some a \<Rightarrow> a | None \<Rightarrow> '''')
      in if \<not> listen addr then panic
         else Some \<lparr>gsAddr = addr, gsMinTime = 5 * second, gsPermitWithoutStream = True,
           gsMaxConnectionIdle = 15 * second, gsTime = 5 * second, gsTimeout = 1 * second,
           gsHandler = RaftMessage\<rparr>)"

section \<open>Stores\<close>

text \<open>\<open>start\<close> and \<open>restart\<close> are the library's constructors of a node, as in \<open>newPeer\<close>.\<close>

definition NewRaftStore ::
    "'d disk \<Rightarrow> 'd pebble \<Rightarrow> 'n raft_node \<Rightarrow> ('d peerStorage \<Rightarrow> u64 \<Rightarrow> u64 list \<Rightarrow> 'n) \<Rightarrow>
     ('d peerStorage \<Rightarrow> u64 \<Rightarrow> 'n) \<Rightarrow> 'w \<Rightarrow> u64 \<Rightarrow> string \<Rightarrow> Logger \<Rightarrow>
     ((('d, 'n, 'w) peer \<times> pc \<times> read_pc) \<times> Logger) run" where
  "NewRaftStore D P N start restart w storeId dataPath lg =
     do {
       e \<leftarrow> peer_engines D dataPath;
       pr \<leftarrow> newPeer P N start restart storeId e w;
       Some (run_peer pr, SetLevel LogLevelInfo lg)
     }"

datatype ('d, 'n, 'w) store =
    Memory_store memoryStore
  | Raft_store "('d, 'n, 'w) peer \<times> pc \<times> read_pc"

definition open_store ::
    "'d disk \<Rightarrow> 'd pebble \<Rightarrow> 'n raft_node \<Rightarrow> ('d peerStorage \<Rightarrow> u64 \<Rightarrow> u64 list \<Rightarrow> 'n) \<Rightarrow>
     ('d peerStorage \<Rightarrow> u64 \<Rightarrow> 'n) \<Rightarrow> 'w \<Rightarrow> StoreCfg \<Rightarrow> Logger \<Rightarrow> (('d, 'n, 'w) store \<times> Logger) run" where
  "open_store D P N start restart w c lg =
     (case NewStore (Memory c) (DataPath c) of
        MemoryStore \<Rightarrow> Some (Memory_store newMemoryStore, lg)
      | RaftStore i path \<Rightarrow>
          map_option (map_prod Raft_store id) (NewRaftStore D P N start restart w i path lg))"

section \<open>What a start gives\<close>

definition opens :: "'d disk \<Rightarrow> string \<Rightarrow> 'd \<Rightarrow> bool" where
  "opens D dir d \<longleftrightarrow> (exist (dk_stat D) dir \<or> dk_mkdirAll D dir = None) \<and> dk_open D dir = Inr d"

lemma newStorage_opens: "newStorage (dk_stat D) (dk_mkdirAll D) (dk_open D) dir = Some d \<longleftrightarrow> opens D dir d"
  by (auto simp: newStorage_def opens_def split: sum.splits)

lemma peer_engines_opens:
  "peer_engines D path = Some e \<longleftrightarrow>
     (\<exists>d d'. opens D (path @ ''/kv'') d \<and> opens D (path @ ''/meta'') d' \<and>
       e = \<lparr>kv = d, kvPath = path @ ''/kv'', meta = d', metaPath = path @ ''/meta''\<rparr>)"
  by (auto simp: peer_engines_def NewEngines_def newStorage_opens KvPath_def MetaPath_def)

text \<open>On two databases that are empty a raft store comes up as a freshly started peer, the start of
  every interleaving of \<open>Interleaving\<close> and \<open>Read_Loop\<close>.\<close>

lemma NewRaftStore_starts:
  assumes P: "pebble_ok P" "healthy P"
    and d: "opens D (path @ ''/kv'') d" "opens D (path @ ''/meta'') d'"
    and c: "contents P d = Map.empty" "contents P d' = Map.empty"
  shows "\<exists>pr. NewRaftStore D P N start restart w i path lg = Some ((pr, Select, Waiting), SetLevel LogLevelInfo lg) \<and>
    started_on P N pr \<and> prId pr = i"
proof -
  let ?e = "\<lparr>kv = d, kvPath = path @ ''/kv'', meta = d', metaPath = path @ ''/meta''\<rparr>"
  have e: "peer_engines D path = Some ?e" using d by (auto simp: peer_engines_opens)
  have m: "meta_map P ?e = Map.empty" "kv_map P ?e = Map.empty"
    using c by simp_all
  obtain s where s: "newPeerStorage P ?e = Some s" "engines s = ?e" "persisted P s"
    "refines P s NewMemoryStorage" "lsHardState (localState s) = Some (msHardState NewMemoryStorage)"
    using newPeerStorage_empty [OF P(2) m(1)] by (auto simp: NewMemoryStorage_def)
  obtain pr where n: "newPeer P N start restart i ?e w = Some pr"
    using newPeer_reopens [OF P s(4,3), of N start restart i w] s(2,5) by auto
  then have "prId pr = i" by (auto simp: newPeer_def Let_def)
  moreover have "started_on P N pr" using m n unfolding started_on_def by blast
  ultimately show ?thesis using e n by (simp add: NewRaftStore_def run_peer_def)
qed

text \<open>The three nodes listen on addresses of their own, the ones the other peers dial.\<close>

lemma serveGrpc_fields:
  "serveGrpc listen i = Some srv \<Longrightarrow>
     gsAddr srv = (case peerMap i of Some a \<Rightarrow> a | None \<Rightarrow> []) \<and> gsHandler srv = RaftMessage"
  by (auto simp: serveGrpc_def Let_def split: if_split_asm)

lemma serveGrpc_dialled:
  assumes "peerMap (mTo msg) = Some addr" "serveGrpc listen (mTo msg) = Some srv"
  shows "gsAddr srv = addr \<and> gsHandler srv (peer_msg msg) q = Some (q @ [msg])"
  using serveGrpc_fields [OF assms(2)] assms(1) by (simp add: RaftMessage_def raftMsg_def peer_msg_def)

lemma serveGrpc_addresses:
  assumes "serveGrpc listen i = Some srv" "serveGrpc listen j = Some srv'" "i \<noteq> j"
    "peerMap i \<noteq> None"
  shows "gsAddr srv \<noteq> gsAddr srv'"
  using serveGrpc_fields [OF assms(1)] serveGrpc_fields [OF assms(2)] assms(3,4)
  by (simp add: peerMap_def split: if_split_asm)

end
