(* ===== verification/Message_Pb.thy ===== *)
theory Message_Pb
  imports Store_Pb
begin

text \<open>
  The messages that peers exchange, on the wire: snapshots and raft messages as the generated code
  of \<^verbatim>\<open>raftpb\<close> writes and reads them, and the request \<^verbatim>\<open>RaftMsgReq\<close> of \<^verbatim>\<open>raftstorepb\<close> that carries a
  raft message, as the protobuf runtime does. Every message whose encoding is a Go slice is read
  back as it was written.
\<close>

section \<open>Snapshots\<close>

definition ConfState_into :: "ConfState \<Rightarrow> bytes \<Rightarrow> ConfState option" where
  "ConfState_into m bs = unmarshal_into Gogo schema_ConfState ConfState_field m bs"

definition zero_SnapshotMetadata :: SnapshotMetadata where
  "zero_SnapshotMetadata = \<lparr>smConfState = zero_ConfState, smIndex = 0, smTerm = 0\<rparr>"

definition SnapshotMetadata_fields :: "SnapshotMetadata \<Rightarrow> (nat \<times> wire_val) list" where
  "SnapshotMetadata_fields m =
     [(1, VBytes (marshal_ConfState (smConfState m))), (2, VInt (smIndex m)), (3, VInt (smTerm m))]"

definition marshal_SnapshotMetadata :: "SnapshotMetadata \<Rightarrow> bytes" where
  "marshal_SnapshotMetadata m = put_fields (SnapshotMetadata_fields m)"

definition schema_SnapshotMetadata :: schema where
  "schema_SnapshotMetadata n =
     (if n = 1 then Some KBytes else if n = 2 \<or> n = 3 then Some KVarint else None)"

fun SnapshotMetadata_field :: "SnapshotMetadata \<Rightarrow> nat \<times> wire_val \<Rightarrow> SnapshotMetadata option" where
  "SnapshotMetadata_field m (n, VInt v) =
     Some (if n = 2 then m\<lparr>smIndex := v\<rparr> else if n = 3 then m\<lparr>smTerm := v\<rparr> else m)"
| "SnapshotMetadata_field m (n, VBytes b) =
     (if n = 1 then map_option (\<lambda>c. m\<lparr>smConfState := c\<rparr>) (ConfState_into (smConfState m) b)
      else Some m)"

definition SnapshotMetadata_into :: "SnapshotMetadata \<Rightarrow> bytes \<Rightarrow> SnapshotMetadata option" where
  "SnapshotMetadata_into m bs =
     unmarshal_into Gogo schema_SnapshotMetadata SnapshotMetadata_field m bs"

definition Snapshot_fields :: "Snapshot \<Rightarrow> (nat \<times> wire_val) list" where
  "Snapshot_fields m =
     (case snData m of None \<Rightarrow> [] | Some d \<Rightarrow> [(1, VBytes d)]) @
     [(2, VBytes (marshal_SnapshotMetadata (snMetadata m)))]"

definition marshal_Snapshot :: "Snapshot \<Rightarrow> bytes" where
  "marshal_Snapshot m = put_fields (Snapshot_fields m)"

definition schema_Snapshot :: schema where
  "schema_Snapshot n = (if n = 1 \<or> n = 2 then Some KBytes else None)"

fun Snapshot_field :: "Snapshot \<Rightarrow> nat \<times> wire_val \<Rightarrow> Snapshot option" where
  "Snapshot_field m (n, VInt v) = Some m"
| "Snapshot_field m (n, VBytes b) =
     (if n = 1 then Some (m\<lparr>snData := Some b\<rparr>)
      else if n = 2 then map_option (\<lambda>d. m\<lparr>snMetadata := d\<rparr>) (SnapshotMetadata_into (snMetadata m) b)
      else Some m)"

definition Snapshot_into :: "Snapshot \<Rightarrow> bytes \<Rightarrow> Snapshot option" where
  "Snapshot_into m bs = unmarshal_into Gogo schema_Snapshot Snapshot_field m bs"

section \<open>Raft messages\<close>

definition zero_Message :: Message where
  "zero_Message = \<lparr>mType = 0, mTo = 0, mFrom = 0, mTerm = 0, mLogTerm = 0, mIndex = 0, mEntries = [],
     mCommit = 0, mSnapshot = zero_Snapshot, mReject = False, mRejectHint = 0, mContext = None\<rparr>"

definition Message_fields :: "Message \<Rightarrow> (nat \<times> wire_val) list" where
  "Message_fields m =
     [(1, VInt (scast (mType m))), (2, VInt (mTo m)), (3, VInt (mFrom m)), (4, VInt (mTerm m)),
      (5, VInt (mLogTerm m)), (6, VInt (mIndex m))] @
     map (\<lambda>e. (7, VBytes (marshal_Entry e))) (mEntries m) @
     [(8, VInt (mCommit m)), (9, VBytes (marshal_Snapshot (mSnapshot m))),
      (10, VInt (if mReject m then 1 else 0)), (11, VInt (mRejectHint m))] @
     (case mContext m of None \<Rightarrow> [] | Some c \<Rightarrow> [(12, VBytes c)])"

definition marshal_Message :: "Message \<Rightarrow> bytes" where
  "marshal_Message m = put_fields (Message_fields m)"

definition schema_Message :: schema where
  "schema_Message n =
     (if n \<in> {1, 2, 3, 4, 5, 6, 8, 10, 11} then Some KVarint
      else if n \<in> {7, 9, 12} then Some KBytes else None)"

fun Message_field :: "Message \<Rightarrow> nat \<times> wire_val \<Rightarrow> Message option" where
  "Message_field m (n, VInt v) =
     Some (if n = 1 then m\<lparr>mType := ucast v\<rparr>
           else if n = 2 then m\<lparr>mTo := v\<rparr>
           else if n = 3 then m\<lparr>mFrom := v\<rparr>
           else if n = 4 then m\<lparr>mTerm := v\<rparr>
           else if n = 5 then m\<lparr>mLogTerm := v\<rparr>
           else if n = 6 then m\<lparr>mIndex := v\<rparr>
           else if n = 8 then m\<lparr>mCommit := v\<rparr>
           else if n = 10 then m\<lparr>mReject := (v \<noteq> 0)\<rparr>
           else if n = 11 then m\<lparr>mRejectHint := v\<rparr> else m)"
| "Message_field m (n, VBytes b) =
     (if n = 7 then map_option (\<lambda>e. m\<lparr>mEntries := mEntries m @ [e]\<rparr>) (unmarshal_Entry b)
      else if n = 9 then map_option (\<lambda>s. m\<lparr>mSnapshot := s\<rparr>) (Snapshot_into (mSnapshot m) b)
      else if n = 12 then Some (m\<lparr>mContext := Some b\<rparr>)
      else Some m)"

definition Message_into :: "Message \<Rightarrow> bytes \<Rightarrow> Message option" where
  "Message_into m bs = unmarshal_into Gogo schema_Message Message_field m bs"

section \<open>The request that carries a message\<close>

definition zero_RaftMsgReq :: RaftMsgReq where
  "zero_RaftMsgReq = \<lparr>rmMessage = None, rmFromPeer = 0, rmToPeer = 0\<rparr>"

definition RaftMsgReq_fields :: "RaftMsgReq \<Rightarrow> (nat \<times> wire_val) list" where
  "RaftMsgReq_fields m =
     opt_msg 1 marshal_Message (rmMessage m) @ opt_int 2 (rmFromPeer m) @ opt_int 3 (rmToPeer m)"

definition marshal_RaftMsgReq :: "RaftMsgReq \<Rightarrow> bytes" where
  "marshal_RaftMsgReq m = put_fields (RaftMsgReq_fields m)"

fun RaftMsgReq_field :: "RaftMsgReq \<Rightarrow> nat \<times> wire_val \<Rightarrow> RaftMsgReq option" where
  "RaftMsgReq_field m (n, VInt v) =
     Some (if n = 2 then m\<lparr>rmFromPeer := v\<rparr> else if n = 3 then m\<lparr>rmToPeer := v\<rparr> else m)"
| "RaftMsgReq_field m (n, VBytes b) =
     (if n = 1
      then map_option (\<lambda>x. m\<lparr>rmMessage := Some x\<rparr>) (sub_into zero_Message Message_into (rmMessage m) b)
      else Some m)"

definition unmarshal_RaftMsgReq :: "bytes \<Rightarrow> RaftMsgReq option" where
  "unmarshal_RaftMsgReq bs =
     unmarshal_into Golang (bytes_schema {2, 3} {1}) RaftMsgReq_field zero_RaftMsgReq bs"

section \<open>Round trips\<close>

lemma ConfState_into_marshal: "ConfState_into zero_ConfState (marshal_ConfState m) = Some m"
  using unmarshal_marshal_ConfState [of m] by (simp add: unmarshal_ConfState_def ConfState_into_def)

lemma SnapshotMetadata_into_marshal:
  "slice_size (marshal_SnapshotMetadata m) \<Longrightarrow>
   SnapshotMetadata_into zero_SnapshotMetadata (marshal_SnapshotMetadata m) = Some m"
  unfolding SnapshotMetadata_into_def marshal_SnapshotMetadata_def
  by (rule unmarshal_via)
    (auto simp: schema_SnapshotMetadata_def SnapshotMetadata_fields_def zero_SnapshotMetadata_def
      ConfState_into_marshal dest: payload_slice)

lemma Snapshot_into_marshal:
  assumes "slice_size (marshal_Snapshot m)"
  shows "Snapshot_into zero_Snapshot (marshal_Snapshot m) = Some m"
proof -
  have p: "(n, VBytes b) \<in> set (Snapshot_fields m) \<Longrightarrow> slice_size b" for n b
    using assms unfolding marshal_Snapshot_def by (rule payload_slice)
  have s: "slice_size (marshal_SnapshotMetadata (snMetadata m))" "\<And>d. snData m = Some d \<Longrightarrow> slice_size d"
    by (rule p [of 2] p [of 1]; simp add: Snapshot_fields_def)+
  show ?thesis
    unfolding Snapshot_into_def marshal_Snapshot_def
    by (rule unmarshal_via)
      (use s SnapshotMetadata_into_marshal [OF s(1)] in \<open>auto simp: Snapshot_fields_def schema_Snapshot_def
        zero_Snapshot_def zero_SnapshotMetadata_def split: option.splits\<close>)
qed

lemma apply_entries:
  "list_all Entry_fits es \<Longrightarrow>
   apply_fields Message_field m (map (\<lambda>e. (7, VBytes (marshal_Entry e))) es) =
     Some (m\<lparr>mEntries := mEntries m @ es\<rparr>)"
  by (induction es arbitrary: m) (auto simp: unmarshal_marshal_Entry)

lemma Entry_fits_slice: "slice_size (marshal_Entry e) \<Longrightarrow> Entry_fits e"
  using payload_slice [of "Entry_fields e" 4]
  by (auto simp: marshal_Entry_def Entry_fits_def Entry_fields_def split: option.splits)

lemma Message_into_marshal:
  assumes "slice_size (marshal_Message m)"
  shows "Message_into zero_Message (marshal_Message m) = Some m"
proof -
  have p: "(n, VBytes b) \<in> set (Message_fields m) \<Longrightarrow> slice_size b" for n b
    using assms unfolding marshal_Message_def by (rule payload_slice)
  have s: "slice_size (marshal_Snapshot (mSnapshot m))" "\<And>c. mContext m = Some c \<Longrightarrow> slice_size c"
    "\<And>e. e \<in> set (mEntries m) \<Longrightarrow> slice_size (marshal_Entry e)"
    by (rule p [of 9] p [of 12] p [of 7]; simp add: Message_fields_def)+
  have "list_all (field_fits schema_Message) (Message_fields m)"
    using s by (auto simp: Message_fields_def schema_Message_def list_all_iff split: option.splits)
  moreover have "list_all Entry_fits (mEntries m)"
    using s(3) by (auto simp: list_all_iff intro: Entry_fits_slice)
  then have "apply_fields Message_field zero_Message (Message_fields m) = Some m"
    using Snapshot_into_marshal [OF s(1)]
    by (simp add: Message_fields_def apply_fields_append apply_entries zero_Message_def ucast_scast_type
        split: option.splits)
  ultimately show ?thesis
    unfolding Message_into_def marshal_Message_def by (rule unmarshal_via)
qed

definition RaftMsgReq_fits :: "RaftMsgReq \<Rightarrow> bool" where
  "RaftMsgReq_fits m \<longleftrightarrow> slice_size (marshal_RaftMsgReq m)"

lemma unmarshal_marshal_RaftMsgReq:
  assumes "RaftMsgReq_fits m"
  shows "unmarshal_RaftMsgReq (marshal_RaftMsgReq m) = Some m"
proof -
  have s: "rmMessage m = Some x \<Longrightarrow> slice_size (marshal_Message x)" for x
    using assms unfolding RaftMsgReq_fits_def marshal_RaftMsgReq_def
    by (rule payload_slice [of _ 1]) (simp add: RaftMsgReq_fields_def opt_msg_def)
  have "list_all (field_fits (bytes_schema {2, 3} {1})) (RaftMsgReq_fields m)"
    using s by (auto simp: RaftMsgReq_fields_def bytes_schema_def)
  moreover have "apply_fields RaftMsgReq_field zero_RaftMsgReq (RaftMsgReq_fields m) = Some m"
    using s by (auto simp: RaftMsgReq_fields_def opt_defs zero_RaftMsgReq_def sub_into_def
        Message_into_marshal split: option.splits)
  ultimately show ?thesis
    unfolding unmarshal_RaftMsgReq_def marshal_RaftMsgReq_def by (rule unmarshal_via)
qed

interpretation raft_msg_req: message_codec marshal_RaftMsgReq unmarshal_RaftMsgReq RaftMsgReq_fits
  by unfold_locales (rule unmarshal_marshal_RaftMsgReq)

end
