(* ===== verification/Transport.thy ===== *)
theory Transport
  imports Message_Pb Peer
begin

text \<open>
  From one peer's router to another peer's raft node (\<^verbatim>\<open>raftstore/router.go\<close>, \<^verbatim>\<open>raft_conn\<close>, the
  service of \<^verbatim>\<open>raftstorepb/messagepb.pb.go\<close> and \<^verbatim>\<open>handleRaftMsgs\<close>). A stream of gRPC carries the
  bytes of the requests handed to it in order, and the server's loop decodes a prefix of them; which
  prefix, and how the streams that lead to a peer interleave, is left open. The locale \<open>message_net\<close>
  states what the router relies on.
\<close>

section \<open>The receiving end of a stream\<close>

text \<open>The server is built without an option for the size of a received message, so gRPC's default
  is the limit; a longer message ends the stream with an error.\<close>

definition maxReceiveMessageSize :: nat where
  "maxReceiveMessageSize = 1024 * 1024 * 4"

definition Recv :: "bytes \<Rightarrow> RaftMsgReq option" where
  "Recv frame = (if maxReceiveMessageSize < length frame then None else unmarshal_RaftMsgReq frame)"

text \<open>The loop over the frames that have come; the flag is whether it has returned an error.\<close>

fun RaftMessage_loop :: "bytes list \<Rightarrow> Message list \<Rightarrow> (Message list \<times> bool) run" where
  "RaftMessage_loop [] msgc = Some (msgc, False)"
| "RaftMessage_loop (frame # frames) msgc =
     (case Recv frame of
        None \<Rightarrow> Some (msgc, True)
      | Some msg \<Rightarrow> Option.bind (RaftMessage msg msgc) (RaftMessage_loop frames))"

definition receivable :: "Message \<Rightarrow> bool" where
  "receivable m \<longleftrightarrow> length (marshal_RaftMsgReq (peer_msg m)) \<le> maxReceiveMessageSize"

lemma Recv_marshal: "receivable m \<Longrightarrow> Recv (marshal_RaftMsgReq (peer_msg m)) = Some (peer_msg m)"
  by (auto simp: Recv_def receivable_def maxReceiveMessageSize_def RaftMsgReq_fits_def
      intro: unmarshal_marshal_RaftMsgReq)

lemma RaftMessage_peer_msg: "RaftMessage (peer_msg m) q = Some (q @ [m])"
  by (simp add: RaftMessage_def raftMsg_def peer_msg_def)

text \<open>The loop takes the messages in until one is longer, as a large snapshot is: that one never comes
  through, and the stream ends at it.\<close>

lemma RaftMessage_loop_marshal:
  "RaftMessage_loop (map (\<lambda>m. marshal_RaftMsgReq (peer_msg m)) ms) q =
     Some (q @ takeWhile receivable ms, \<not> list_all receivable ms)"
proof (induction ms arbitrary: q)
  case (Cons m ms)
  have "Recv (marshal_RaftMsgReq (peer_msg m)) = None" if "\<not> receivable m"
    using that by (simp add: Recv_def receivable_def)
  then show ?case using Cons.IH by (simp add: Recv_marshal RaftMessage_peer_msg)
qed simp

section \<open>The sending end\<close>

text \<open>
  What the router relies on of gRPC, in terms of the requests handed to each stream, \<open>sent\<close>, and
  the address a stream leads to: a dialled stream is a new one; a send hands the request to its
  stream, and one that reports an error may or may not have; cancelling hands over nothing.
\<close>

locale message_net =
  fixes G :: "'w grpc" and sent :: "'w \<Rightarrow> nat \<Rightarrow> RaftMsgReq list" and leads :: "'w \<Rightarrow> nat \<Rightarrow> string option"
  assumes dial_ok: "gr_dial G addr w = (Inr c, w') \<Longrightarrow>
      leads w c = None \<and> leads w' = (leads w)(c \<mapsto> addr) \<and> sent w' = sent w"
    and dial_error: "gr_dial G addr w = (Inl e, w') \<Longrightarrow> leads w' = leads w \<and> sent w' = sent w"
    and send_one: "gr_send G c msg w = (er, w') \<Longrightarrow> leads w' = leads w \<and>
      (sent w' = (sent w)(c := sent w c @ [msg]) \<or> er \<noteq> None \<and> sent w' = sent w)"
    and cancel_none: "leads (gr_cancel G c w) = leads w" "sent (gr_cancel G c w) = sent w"
begin

definition router_ok :: "'w router \<Rightarrow> bool" where
  "router_ok r \<longleftrightarrow> (\<forall>addr c. conns r addr = Some c \<longrightarrow> leads (net r) c = Some addr)"

text \<open>\<open>handed cs msg r r'\<close>: from \<open>r\<close> to \<open>r'\<close> the request was handed to the streams \<open>cs\<close>, once each.\<close>

definition handed :: "nat list \<Rightarrow> RaftMsgReq \<Rightarrow> 'w router \<Rightarrow> 'w router \<Rightarrow> bool" where
  "handed cs msg r r' \<longleftrightarrow>
     distinct cs \<and> leads (net r) \<subseteq>\<^sub>m leads (net r') \<and>
     (\<forall>c. sent (net r') c = sent (net r) c @ (if c \<in> set cs then [msg] else []))"

lemma handed_none: "handed [] msg r r' \<longleftrightarrow> leads (net r) \<subseteq>\<^sub>m leads (net r') \<and> sent (net r') = sent (net r)"
  by (auto simp: handed_def)

lemma handed_append:
  "handed cs msg r1 r2 \<Longrightarrow> handed cs' msg r2 r3 \<Longrightarrow> set cs \<inter> set cs' = {} \<Longrightarrow> handed (cs @ cs') msg r1 r3"
  by (auto simp: handed_def intro: map_le_trans)

lemma GetRaftConn_handed:
  assumes "router_ok r" "GetRaftConn G addr r = (x, r')"
  shows "router_ok r' \<and> handed [] msg r r' \<and>
    (\<forall>c. x = Inr c \<longrightarrow> leads (net r') c = Some addr \<and> (conns r addr = None \<longrightarrow> leads (net r) c = None))"
proof (cases "conns r addr")
  case (Some c)
  then show ?thesis using assms by (auto simp: GetRaftConn_def router_ok_def handed_none)
next
  case None
  obtain y w' where d: "gr_dial G addr (net r) = (y, w')" by fastforce
  then have g: "GetRaftConn G addr r =
      (y, case y of Inl _ \<Rightarrow> r\<lparr>net := w'\<rparr> | Inr c \<Rightarrow> r\<lparr>net := w', conns := (conns r)(addr \<mapsto> c)\<rparr>)"
    using None by (auto simp: GetRaftConn_def newRaftConn_def split: sum.split)
  show ?thesis
  proof (cases y)
    case (Inl er)
    with g d assms show ?thesis using dial_error by (auto simp: router_ok_def handed_none)
  next
    case (Inr c)
    with d have l: "leads (net r) c = None" "leads w' = (leads (net r))(c \<mapsto> addr)" "sent w' = sent (net r)"
      using dial_ok by blast+
    then have "leads (net r) \<subseteq>\<^sub>m leads w'" by (auto simp: map_le_def)
    with g Inr l assms show ?thesis by (auto simp: router_ok_def handed_none)
  qed
qed

lemma conn_send_handed:
  assumes "router_ok r" "conn_send G c msg r = (er, r')"
  shows "router_ok r' \<and> leads (net r') = leads (net r) \<and> conns r' = conns r \<and>
    (handed [c] msg r r' \<or> er \<noteq> None \<and> handed [] msg r r')"
proof -
  obtain w' where s: "gr_send G c msg (net r) = (er, w')" and r: "r' = r\<lparr>net := w'\<rparr>"
    using assms(2) by (auto simp: conn_send_def split: prod.splits)
  show ?thesis using send_one [OF s] assms(1) unfolding r by (auto simp: router_ok_def handed_def)
qed

lemma drop_conn_handed:
  assumes "router_ok r"
  shows "router_ok ((conn_stop G c r)\<lparr>conns := (conns r)(addr := None)\<rparr>) \<and>
    leads (net (conn_stop G c r)) = leads (net r) \<and> sent (net (conn_stop G c r)) = sent (net r)"
  using assms by (auto simp: router_ok_def conn_stop_def cancel_none)

lemma client_send_handed:
  assumes ok: "router_ok r" and s: "client_send G addr msg r = (er, r')"
  shows "router_ok r' \<and> (\<exists>cs. length cs \<le> 2 \<and> (er = None \<longrightarrow> cs \<noteq> []) \<and> handed cs msg r r' \<and>
    (\<forall>c \<in> set cs. leads (net r') c = Some addr))"
proof -
  obtain x r1 where g: "GetRaftConn G addr r = (x, r1)" by fastforce
  note h = GetRaftConn_handed [OF ok g, of msg]
  show ?thesis
  proof (cases x)
    case (Inl e)
    with s g h show ?thesis by (auto simp: client_send_def intro!: exI [of _ "[]"])
  next
    case (Inr c)
    obtain e1 r2 where c: "conn_send G c msg r1 = (e1, r2)" by fastforce
    note h1 = conn_send_handed [OF conjunct1 [OF h] c]
    have l: "leads (net r2) c = Some addr" using h h1 Inr by auto
    obtain cs where cs: "cs = [c] \<or> e1 \<noteq> None \<and> cs = []" "handed cs msg r r2"
      using h1 handed_append [of "[]" msg r r1 "[c]" r2] handed_append [of "[]" msg r r1 "[]" r2] h by auto
    show ?thesis
    proof (cases e1)
      case None
      with s g c Inr have "r' = r2" by (simp add: client_send_def)
      with cs l h1 None show ?thesis by (auto intro!: exI [of _ cs])
    next
      case (Some e)
      let ?r = "(conn_stop G c r2)\<lparr>conns := (conns r2)(addr := None)\<rparr>"
      have d: "router_ok ?r" "leads (net ?r) = leads (net r2)" "sent (net ?r) = sent (net r2)"
        using drop_conn_handed [OF conjunct1 [OF h1]] by simp_all
      obtain y r5 where g2: "GetRaftConn G addr ?r = (y, r5)" by fastforce
      note h2 = GetRaftConn_handed [OF d(1) g2, of msg]
      have "handed [] msg r2 ?r" using d by (simp add: handed_none)
      with cs(2) h2 have t: "handed cs msg r r5"
        using handed_append [of cs msg r r2 "[]" ?r] handed_append [of cs msg r ?r "[]" r5] by simp
      have s': "client_send G addr msg r = (case y of Inl e' \<Rightarrow> (Some e', r5) | Inr c' \<Rightarrow> conn_send G c' msg r5)"
        using g c Inr Some g2 by (simp add: client_send_def conn_stop_def split: sum.split)
      have k: "leads (net r5) c = Some addr" using l h2 d(2) by (auto simp: handed_none map_le_def dom_def)
      show ?thesis
      proof (cases y)
        case (Inl e')
        with s s' t h2 cs(1) k show ?thesis by (auto intro!: exI [of _ cs])
      next
        case (Inr c')
        with s s' have c': "conn_send G c' msg r5 = (er, r')" by simp
        note h3 = conn_send_handed [OF conjunct1 [OF h2] c']
        have new: "leads (net r5) c' = Some addr" "c' \<noteq> c" using h2 Inr l d(2) by auto
        from h3 obtain cs2 where "handed cs2 msg r r'" "cs2 = cs \<and> er \<noteq> None \<or> cs2 = cs @ [c']"
          using handed_append [OF t, of "[]" r'] handed_append [OF t, of "[c']" r'] new(2) cs(1) by auto
        then show ?thesis
          using h3 k new(1) cs(1) by (intro conjI exI [of _ cs2]) auto
      qed
    qed
  qed
qed

end

text \<open>
  The streams that each message of a batch was handed to: at most two, both to the peer it is
  addressed to; and the messages that were handed to the stream \<open>c\<close>, in their order.
\<close>

definition routed :: "(nat \<Rightarrow> string option) \<Rightarrow> Message list \<Rightarrow> nat list list \<Rightarrow> bool" where
  "routed to_addr = list_all2 (\<lambda>m cs. length cs \<le> 2 \<and> distinct cs \<and>
     (\<forall>c \<in> set cs. peerMap (mTo m) \<noteq> None \<and> to_addr c = peerMap (mTo m)))"

definition once_each :: "Message list \<Rightarrow> nat list list \<Rightarrow> bool" where
  "once_each = list_all2 (\<lambda>m cs. peerMap (mTo m) \<noteq> None \<longrightarrow> cs \<noteq> [])"

definition carried :: "nat \<Rightarrow> Message list \<Rightarrow> nat list list \<Rightarrow> Message list" where
  "carried c msgs css = map fst (filter (\<lambda>(m, cs). c \<in> set cs) (zip msgs css))"

lemma carried_simps [simp]:
  "carried c [] css = []"
  "carried c (m # msgs) (cs # css) = (if c \<in> set cs then [m] else []) @ carried c msgs css"
  by (simp_all add: carried_def)

lemma set_carried: "set (carried c msgs css) = {m. \<exists>cs. (m, cs) \<in> set (zip msgs css) \<and> c \<in> set cs}"
  by (auto simp: carried_def image_iff)

context message_net
begin

definition reliable :: bool where
  "reliable \<longleftrightarrow> (\<forall>addr w e. fst (gr_dial G addr w) \<noteq> Inl e) \<and> (\<forall>c msg w. fst (gr_send G c msg w) = None)"

lemma client_send_reliable: "reliable \<Longrightarrow> fst (client_send G addr msg r) = None"
  by (auto simp: client_send_def GetRaftConn_def newRaftConn_def conn_send_def reliable_def
      split: option.split sum.split prod.split) (metis fst_conv option.distinct(1))+

lemma sendRaftMsgs_handed:
  assumes "router_ok r" "sendRaftMsgs G msgs r = r'"
  shows "router_ok r' \<and> leads (net r) \<subseteq>\<^sub>m leads (net r') \<and>
    (\<exists>css. routed (leads (net r')) msgs css \<and> (reliable \<longrightarrow> once_each msgs css) \<and>
      (\<forall>c. sent (net r') c = sent (net r) c @ map peer_msg (carried c msgs css)))"
  using assms
proof (induction msgs arbitrary: r)
  case (Cons m msgs)
  show ?case
  proof (cases "peerMap (mTo m)")
    case None
    with Cons.prems have "sendRaftMsgs G msgs r = r'" by simp
    from Cons.IH [OF Cons.prems(1) this] obtain css where "router_ok r'" "leads (net r) \<subseteq>\<^sub>m leads (net r')"
      "routed (leads (net r')) msgs css" "reliable \<longrightarrow> once_each msgs css"
      "\<forall>c. sent (net r') c = sent (net r) c @ map peer_msg (carried c msgs css)" by blast
    then show ?thesis using None by (auto simp: routed_def once_each_def intro!: exI [of _ "[] # css"])
  next
    case (Some addr)
    obtain er r1 where c: "client_send G addr (peer_msg m) r = (er, r1)" by fastforce
    obtain cs where cs: "router_ok r1" "length cs \<le> 2" "handed cs (peer_msg m) r r1"
      "\<forall>c \<in> set cs. leads (net r1) c = Some addr" "er = None \<longrightarrow> cs \<noteq> []"
      using client_send_handed [OF Cons.prems(1) c] by blast
    have "sendRaftMsgs G msgs r1 = r'" using Cons.prems(2) Some c by simp
    from Cons.IH [OF cs(1) this] obtain css where o: "router_ok r'" "leads (net r1) \<subseteq>\<^sub>m leads (net r')"
      "routed (leads (net r')) msgs css" "reliable \<longrightarrow> once_each msgs css"
      "\<forall>c. sent (net r') c = sent (net r1) c @ map peer_msg (carried c msgs css)" by blast
    have "leads (net r') c = Some addr" if "c \<in> set cs" for c
      using o(2) cs(4) that by (auto simp: map_le_def dom_def)
    moreover have "reliable \<longrightarrow> cs \<noteq> []" using client_send_reliable [of addr "peer_msg m" r] c cs(5) by auto
    ultimately show ?thesis
      using o cs(2,3) Some
      by (intro conjI exI [of _ "cs # css"]) (auto simp: handed_def routed_def once_each_def intro: map_le_trans)
  qed
qed (auto simp: routed_def once_each_def)

end

section \<open>A network with any failures\<close>

text \<open>
  A network in memory: the addresses of the streams, the requests handed to each, and the number of
  operations so far. Which dials fail, which sends report an error and which of these hand the
  request over all the same are arbitrary: \<open>F\<close> and \<open>H\<close>, by the operation's number.
\<close>

record stream_net =
  routes :: "string list"
  handed_over :: "nat \<Rightarrow> RaftMsgReq list"
  operations :: nat

definition empty_net :: stream_net where
  "empty_net = \<lparr>routes = [], handed_over = (\<lambda>_. []), operations = 0\<rparr>"

definition leads_to :: "stream_net \<Rightarrow> nat \<Rightarrow> string option" where
  "leads_to w c = (if c < length (routes w) then Some (routes w ! c) else None)"

definition stream_grpc :: "(nat \<Rightarrow> bool) \<Rightarrow> (nat \<Rightarrow> bool \<times> bool) \<Rightarrow> stream_net grpc" where
  "stream_grpc F H =
    \<lparr>gr_dial = (\<lambda>addr w.
       if F (operations w) then (Inl (OsErr 0), w\<lparr>operations := operations w + 1\<rparr>)
       else (Inr (length (routes w)), w\<lparr>operations := operations w + 1, routes := routes w @ [addr]\<rparr>)),
     gr_send = (\<lambda>c msg w.
       let (error, hands) = H (operations w);
           w1 = w\<lparr>operations := operations w + 1\<rparr>
       in (if error then Some (OsErr 1) else None,
           if error \<and> \<not> hands then w1
           else w1\<lparr>handed_over := (handed_over w1)(c := handed_over w1 c @ [msg])\<rparr>)),
     gr_cancel = (\<lambda>c w. w)\<rparr>"

interpretation stream_net: message_net "stream_grpc F H" handed_over leads_to
  by unfold_locales
    (auto simp: stream_grpc_def leads_to_def Let_def fun_eq_iff nth_append split: if_split_asm prod.splits)

lemma stream_net_reliable:
  assumes "\<And>k. \<not> F k" "\<And>k. \<not> fst (H k)"
  shows "stream_net.reliable F H"
  unfolding stream_net.reliable_def using assms by (auto simp: stream_grpc_def Let_def split: prod.split) (metis fst_conv)

definition frames :: "stream_net \<Rightarrow> nat \<Rightarrow> bytes list" where
  "frames w c = map marshal_RaftMsgReq (handed_over w c)"

text \<open>Everything a peer's router hands to a new network.\<close>

lemma sent_on_stream_net:
  fixes msgs F H
  defines "w \<equiv> net (sendRaftMsgs (stream_grpc F H) msgs (newRouter empty_net))"
  shows "\<exists>css. routed (leads_to w) msgs css \<and>
    ((\<forall>k. \<not> F k \<and> \<not> fst (H k)) \<longrightarrow> once_each msgs css) \<and>
    (\<forall>c. frames w c = map (\<lambda>m. marshal_RaftMsgReq (peer_msg m)) (carried c msgs css))"
proof -
  have "stream_net.router_ok (newRouter empty_net)"
    by (simp add: stream_net.router_ok_def newRouter_def)
  from stream_net.sendRaftMsgs_handed [OF this refl, of F H msgs]
  obtain css where css: "routed (leads_to w) msgs css" "stream_net.reliable F H \<longrightarrow> once_each msgs css"
    "\<forall>c. handed_over w c = map peer_msg (carried c msgs css)"
    unfolding w_def by (auto simp: newRouter_def empty_net_def)
  then show ?thesis using stream_net_reliable [of F H] by (auto simp: frames_def intro!: exI [of _ css])
qed

section \<open>The message loop\<close>

lemma peerMap_inj: "peerMap i = peerMap j \<Longrightarrow> peerMap i \<noteq> None \<Longrightarrow> i = j"
  by (auto simp: peerMap_def split: if_split_asm)

lemma foldl_addressed:
  "\<forall>m \<in> set q. mTo m = i \<Longrightarrow> foldl (\<lambda>n m. if mTo m = i then f m n else n) g q = fold f q g"
  by (induction q arbitrary: g) auto

lemma handleRaftMsgs_all:
  "\<forall>m \<in> set (recvc pr). mTo m = prId pr \<Longrightarrow>
   raftGroup (handleRaftMsgs N pr) = fold (nd_step N) (recvc pr) (raftGroup pr)"
  by (simp add: handleRaftMsgs_def foldl_addressed)

lemma carried_addressee:
  "routed to_addr msgs css \<Longrightarrow> m \<in> set (carried c msgs css) \<Longrightarrow>
   peerMap (mTo m) \<noteq> None \<and> to_addr c = peerMap (mTo m)"
  by (auto simp: routed_def set_carried list_all2_iff)

end
