(* ===== verification/Spec2Isabelle.thy ===== *)
theory Spec2Isabelle
  imports Storage_Theorems Peer_Theorems Replica_Theorems Query_Theorems Startup Transport
begin

text \<open>
  A model and a verification of the two Go programs of this repository: the distributed key-value
  store of \<^verbatim>\<open>matrixone/distributed/consensus\<close>, which three nodes replicate with the etcd raft library and
  keep in Pebble databases, and the query execution engine of \<^verbatim>\<open>matrixone/execution/homework\<close>. Paths
  of the store are relative to \<^verbatim>\<open>src/matrixone/distributed/consensus/\<close>, paths of the engine to
  \<^verbatim>\<open>src/matrixone/execution/homework/pkg/\<close>.

  \<^bold>\<open>The store.\<close> A client (\<^verbatim>\<open>pkg/client\<close>) sends requests over HTTP; a request comes in (\<^verbatim>\<open>pkg/api\<close>) and goes to a \<^verbatim>\<open>Store\<close>
  (\<^verbatim>\<open>pkg/store\<close>): a map in memory, or the raft store (\<^verbatim>\<open>pkg/store/raftstore\<close>). The raft store
  proposes writes to the raft node and registers reads with it. A peer's loop takes \<^verbatim>\<open>Ready\<close> batches
  from the node: it saves the new entries and the hard state in the meta database, installs a
  snapshot, sends messages to the other peers, and applies the committed entries to the key-value
  database. The raft library reads the log back through its \<^verbatim>\<open>Storage\<close> interface, which the peer's
  storage implements. Compactions are proposed, committed and applied like commands; a collector
  goroutine is to delete the compacted entries.

  \<^bold>\<open>The engine.\<close> A relation (\<^verbatim>\<open>storage\<close>) holds typed columns in segments; a query is a tree of
  operators (\<^verbatim>\<open>vm/op\<close>), a block relation that hands out one segment and projections that evaluate
  expressions (\<^verbatim>\<open>vm/extend\<close>) on whole columns of values (\<^verbatim>\<open>vm/value\<close>), with a table of binary
  operators (\<^verbatim>\<open>vm/extend/overload\<close>). A test program (\<^verbatim>\<open>cmd/test\<close>) fills a relation and runs one query.

  \<^bold>\<open>The theories\<close>, in the order of their imports:
  \<^item> \<open>Prelude\<close>: bytes, little-endian integers, \<open>run\<close> (an option whose \<open>None\<close>, written \<open>panic\<close>, is a
    panic or a loop that does not end), the collections \<open>frame\<close> and \<open>roundtrip\<close>.
  \<^item> \<open>Wire\<close>: the protobuf wire format as the generated code of raftpb and the golang runtime read and
    write it, with the round trip of a field list and the locale \<open>message_codec\<close>. \<open>Raft_Pb\<close> and
    \<open>Store_Pb\<close>: the messages of raftpb and of \<^verbatim>\<open>raftstorepb\<close>, each codec an interpretation of it.
    \<open>Message_Pb\<close>: the messages that peers send each other, snapshots included.
  \<^item> \<open>Pair_Codec\<close> (\<^verbatim>\<open>storage/pair.go\<close>), \<open>Engines\<close> (\<^verbatim>\<open>storage/storage.go, modify.go, engines.go\<close>),
    \<open>Meta\<close> (\<^verbatim>\<open>raftstore/meta\<close>): the databases and what is kept under which key.
  \<^item> \<open>Peer_Storage\<close> (\<^verbatim>\<open>raftstore/peer_storage.go\<close>): the record \<open>peerStorage\<close> and every operation.
  \<^item> \<open>Memory_Storage\<close>: the raft library's own \<^verbatim>\<open>MemoryStorage\<close>, the specification of the log.
    \<open>Peer_Log\<close> has the abstraction \<open>peer_ents\<close> (the log read back from disk), the invariant
    \<open>log_ok\<close> and the relation \<open>refines\<close>; \<open>Log_Refinement\<close> shows that reads, \<open>Log_Writes\<close> that
    appends, and \<open>Ready_Save\<close> that the saving of batches and snapshots keep it, and what a start
    finds on disk (\<open>persisted\<close>, \<open>reopened\<close>).
  \<^item> \<open>Raft_Log\<close>: what the library needs of a storage, as the locale \<open>raft_storage\<close>, with its client
    \<^verbatim>\<open>raftLog\<close> and the checks that \<^verbatim>\<open>newRaft\<close> makes when it starts; both storages are interpretations.
  \<^item> \<open>Crash_Save\<close>: the writes of \<^verbatim>\<open>saveReadyState\<close> as a list, shown to be what the code writes, and the
    storage that is opened after a crash behind any number of them. \<open>Save_Steps\<close>: the same save as
    steps, one for each write with the assignments in memory before it (\<open>save_pc\<close>, \<open>save_next\<close>); that they
    are, undisturbed, \<open>saveReadyState\<close>, and that they end (\<open>save_ends\<close>).
  \<^item> \<open>Snapshot_Gen\<close>: the protocol of snapshot generation, with its step relation. A generating goroutine
    looks at the storage three times, for the term, for the index and configuration and for the pairs,
    and then sends: four steps (\<open>gen_pc\<close>, \<open>SchedSnapGen\<close>), between which the storage may change.
    \<open>make_snapshot\<close> is what comes out, a function of the three storages it has seen.
  \<^item> \<open>Router\<close> (\<^verbatim>\<open>raftstore/router.go, raft_conn\<close>), \<open>Peer\<close> and \<open>Read_Path\<close> (\<^verbatim>\<open>raftstore/peer.go,
    internal\<close>): the peer's record and its operations. \<open>Peer_Apply\<close> and \<open>Peer_Ready\<close> give the effect
    of an entry and of a batch, \<open>Peer_Runs\<close> the step relation of a whole peer that handles its batches
    one after the other, with restarts and crashes, also between the writes of a save that adds entries
    behind the log, and the invariant of its reachable states. The crashes that are not steps of such a
    run are those behind which the log or the map is not the memory storage's: C8, C13 and C38.
  \<^item> \<open>Interleaving\<close>: the goroutines of \<^verbatim>\<open>run\<close> beside each other. \<open>apply_step\<close> is the goroutine of
    \<^verbatim>\<open>onTick\<close> with its program counter \<open>pc\<close>: each write of a save (of an installed snapshot too) is a
    step, and each half of \<^verbatim>\<open>process\<close>. \<open>thread_step\<close> adds the others, a generating goroutine in its four
    steps, and a restart anywhere; a run of a collector, a turn of the message loop, of the read loop and
    the answer to a read are one step each. The committed entries come next in a log that raft gives all
    peers (\<open>follows\<close>); of what is in a snapshot nothing is assumed. A history (\<open>event\<close>) notes
    what happened to the map: \<open>replay\<close> is the map it gives, \<open>hist_index\<close> the number of entries it counts,
    \<open>settled\<close> the keys whose value is the committed one. \<open>thread_ok\<close> is the invariant, and
    \<open>handleReady_run\<close> shows that the steps, undisturbed, are the function \<open>handleReady\<close>. \<open>Read_Loop\<close>:
    the read loop in steps beside the others (\<open>system_step\<close>). \<open>Transport\<close>: from a router over the
    streams of gRPC (locale \<open>message_net\<close>, interpreted on a network with any failures) to the message
    loop of another peer. \<open>Startup\<close> (\<^verbatim>\<open>store.go, raftstore.go\<close>,
    \<^verbatim>\<open>run\<close> and \<^verbatim>\<open>serveGrpc\<close>): from a data path to the running goroutines.
  \<^item> \<open>Store_Api\<close> (\<^verbatim>\<open>pkg/store, pkg/api, pkg/model\<close>): the stores and the handlers, with the locale
    \<open>kv_store\<close> interpreted on the memory store.
  \<^item> \<open>Http_Text\<close>: UTF-8 in JSON strings, base64 and query strings, as Go's library has them.
    \<open>Http_Client\<close> (\<^verbatim>\<open>pkg/client, pkg/model\<close> and the routes of \<^verbatim>\<open>pkg/api\<close>): the client, with the
    locale \<open>http_server\<close> for the exchange it relies on, interpreted on the server over either store,
    and its extension \<open>http_store\<close> for a server whose store is a \<open>kv_store\<close>.
    \<open>Server_Main\<close> (\<^verbatim>\<open>cmd/server, pkg/cfg\<close>): the configuration and the signals that end the
    program. \<open>Logger\<close> (\<^verbatim>\<open>pkg/logger\<close>): levels, filter and endings of the logger.
  \<^item> \<open>Float64\<close>: Go's \<^verbatim>\<open>float64\<close>, an executable IEEE binary64 with exact results where they fit.
    \<open>Vm_Value\<close> (\<^verbatim>\<open>vm/types, vm/value, vm/util\<close>), \<open>Int_Text\<close> and \<open>Float_Text\<close> (the text of integers and of
    doubles, as \<^verbatim>\<open>strconv\<close> and \<^verbatim>\<open>fmt\<close> have it), \<open>Fold_Text\<close> (comparing strings without regard to case), \<open>Extend\<close>
    (\<^verbatim>\<open>vm/extend, vm/extend/overload\<close>), \<open>Column_Store\<close> (\<^verbatim>\<open>vm/values, storage\<close>), \<open>Query_Ops\<close>
    (\<^verbatim>\<open>vm/op\<close>), \<open>Engine_Text\<close> (the \<^verbatim>\<open>String\<close> methods) and \<open>Query_Main\<close> (\<^verbatim>\<open>cmd/test\<close>): the engine's
    records and operations.
    \<open>Extend_Typing\<close> has the typing \<open>expr_type\<close>, the meaning \<open>denote\<close> of an expression at a row and
    the agreement of \<open>Eval\<close> with both; \<open>Query_Rows\<close> what a projection over a relation reads.
  \<^item> \<open>Examples\<close>: concrete states for the witnesses. \<open>Storage_Theorems\<close>, \<open>Peer_Theorems\<close>,
    \<open>Replica_Theorems\<close>, \<open>Query_Theorems\<close> and this theory: the properties C1 to C40.

  \<^bold>\<open>How the code is modelled.\<close> A struct is a record, an operation a function on it that returns the
  new state, a Go error an element of \<open>err\<close>, a panic \<open>None\<close>. Integers are 64-bit words and wrap; a Go
  map is a partial function; a nil slice is \<open>None\<close> where the code tells it from an empty one. A
  goroutine that is started is an element of a list in the state (\<open>generating\<close>, \<open>gc_tasks\<close>,
  \<open>read_tasks\<close>) and its run a step; a step that waits has a guard (\<open>can_\<close>) beside it. The loops over
  word indexes are recursions with a measure; the one that may not end, \<open>stale_entries\<close>, is a
  partial function and proved to return unless its bound is the greatest word; \<open>fold_loop\<close>, over a table
  of the standard library, is one too and returns when the table is as documented. Only the loop of the
  engine's test program has fuel, and one unit of it is enough (C31). The order in which Go ranges over a map is
  a parameter of the evaluation (\<open>d\<close>): the numbers the runtime draws.

  \<^bold>\<open>What is a parameter.\<close> Pebble (\<open>pebble\<close>; that writes are read back is \<open>pebble_ok\<close>, that operations
  do not fail \<open>healthy\<close>), the raft node (\<open>raft_node\<close>, with \<open>batch_allowed\<close> for what raft promises of a
  batch: consecutive entries from at most the next index, a snapshot that is newer and decodes, committed
  entries that decode to commands, compactions with the right term; in the interleaved runs only
  \<open>committed_log\<close> and \<open>follows\<close>), gRPC (\<open>grpc\<close>), the clock and the file
  system. \<open>mem_pebble\<close> and the states of \<open>Examples\<close> show that these assumptions can hold.

  \<^bold>\<open>What the properties show.\<close> C1, C3, C7, C9 and C11: the replicated map. Under every interleaving of its
  goroutines a peer's map is what its history of committed entries, installed pairs and lost commands
  gives, and on the settled keys that of a prefix of the committed log; reads see at least what was
  committed when raft answered them, but for one entry and for keys that an installed snapshot or a
  crash has left unsettled; and a batch is applied to its end.
  C2, C4, C10: the reachable states of a peer with whole batches, and one batch with a restart. C5, C8,
  C13, C38: crashes inside the saving of a batch and the applying of an entry. C6, C40: the client, the
  server and either store together. C14, C20, C22 to C24: the log on disk against the memory storage,
  and the library's log over it. C9, C21, C25, C27, C28: snapshots and their codec. C15, C26, C29:
  applying, compaction, collection. C30: the messages. C12, C36, C37: the read loop. C39: transport.
  C16 to C19 and C31 to C35: the engine's type soundness, the row-by-row meaning of its expressions,
  relations and queries, the types it declares, the width of its arithmetic, the order of values and
  their texts. Several state behaviour that the code hardly means: a read overtakes the write it has to
  see (C7), a crash while a snapshot is installed leaves a node that cannot be started again (C8), a
  snapshot made while an entry is applied loses the entry (C9), the read loop waits for itself (C12), a
  crash tears a log that is overwritten (C13), a snapshot removes no key (C21), a snapshot over 4 MiB ends the stream it is sent on (C39), a value that is
  deleted or empty is an error of the raft store and not of the memory store (C6, C40), the collector deletes
  nothing (C29), the test program verifies nothing (C31), a float added to an integer is declared an
  integer (C32), a read is served without an answer (C37), a crash loses a command (C38), the client
  changes values that are no UTF-8 (C40).

  \<^bold>\<open>Not modelled.\<close> The raft state machine, Pebble, gRPC, gin, fasthttp and JSON's syntax; log
  output of the components; generated getters and descriptors of the messages; Unicode's
  table of case foldings, which is a parameter; interleavings within one assignment
  to the apply state or to the table of read states, which Go leaves undefined (a data race), and
  between the deletions of one run of a collector, which lie before the log; the
  sharing of memory between a typed array and its bytes; a crash inside one write of Pebble, which
  is atomic there.
\<close>

section \<open>Runs of a peer\<close>

text \<open>C2: From a first start on empty databases, through every sequence of batches, ticks, received
  messages, proposals, reads, collector runs, snapshots asked for and made step by step, restarts,
  crashes after the save of a batch and, for a batch that only adds entries behind the log, crashes
  between any two writes of its save, which lose the batch: the log on disk is the log of the raft
  library's memory storage after the batches that are not lost, the hard state is
  the memory storage's, the key-value database holds the map that the batches' snapshots and
  commands give, what is in memory is what a restart would load, and the applied index is within the
  log. A batch is handled whole here. The other crashes are not steps, since behind them this does not
  hold: in a save that overwrites entries (C13) or installs a snapshot (C8), and between the halves of
  \<^verbatim>\<open>process\<close> (C38).\<close>

theorem peer_run_refines:
  assumes "pebble_ok P" "healthy P" "meta_map P e = Map.empty"
    and "newPeer P N start restart i e w = Some pr0"
    and "(peer_step P N G)\<^sup>*\<^sup>* (pr0, NewMemoryStorage, kv_map P e) (pr, ms, m)"
  shows "log_ok P (ps pr) \<and> peer_ents P (ps pr) = msEnts ms \<and>
    lsHardState (localState (ps pr)) = Some (msHardState ms) \<and>
    kv_map P (engines (ps pr)) = m \<and> persisted P (ps pr) \<and>
    trunc (ps pr) \<le> LastIndex (ps pr) \<and> AppliedIndex (ps pr) \<le> LastIndex (ps pr)"
proof -
  have "run_ok P (pr, ms, m)"
    by (rule peer_run_ok [OF assms(1,2,5) first_start [OF assms(1-4)]])
  then show ?thesis by (auto simp: run_ok_def peer_ok_def refines_def log_ok_def)
qed

lemma peer_run_refines_witness:
  "\<exists>pr0 pr ms. ex_started ex_engines = Some pr0 \<and>
     ex_step\<^sup>*\<^sup>* (pr0, NewMemoryStorage, kv_map mem_pebble ex_engines) (pr, ms, [[1] \<mapsto> [2]]) \<and>
     log_ok mem_pebble (ps pr) \<and> kv_map mem_pebble (engines (ps pr)) = [[1] \<mapsto> [2]]"
proof -
  obtain pr0 pr ms where r: "ex_started ex_engines = Some pr0"
    "ex_step\<^sup>*\<^sup>* (pr0, NewMemoryStorage, kv_map mem_pebble ex_engines) (pr, ms, [[1] \<mapsto> [2]])"
    using ex_run by blast
  from peer_run_refines [OF mem_pebble_ok mem_pebble_healthy ex_meta_empty r] r show ?thesis by blast
qed

text \<open>C10: In every state that a run reaches, the peer goes on: a tick, a collector run, a request for a
  snapshot, every step of the making of one, a restart and the handling of every batch that raft may
  hand out return and do not panic.\<close>

theorem peer_run_progress:
  assumes "pebble_ok P" "healthy P" "meta_map P e = Map.empty"
    and "newPeer P N start restart i e w = Some pr0"
    and "(peer_step P N G)\<^sup>*\<^sup>* (pr0, NewMemoryStorage, kv_map P e) (pr, ms, m)"
  shows "tick P N pr \<noteq> panic \<and> (\<forall>k. run_gc_task P k pr \<noteq> panic) \<and>
    newPeer P N start restart i (engines (ps pr)) w \<noteq> panic \<and>
    Snapshot_op (ps pr) \<noteq> panic \<and> (\<forall>n. SchedSnapGen P n (ps pr) \<noteq> panic) \<and>
    (\<forall>spare rd cs. batch_allowed spare rd cs (ps pr) ms \<longrightarrow> handleReady P N G spare rd pr \<noteq> panic)"
proof -
  have "run_ok P (pr, ms, m)"
    by (rule peer_run_ok [OF assms(1,2,5) first_start [OF assms(1-4)]])
  note g = run_progress [OF assms(1,2) this]
  show ?thesis by (intro conjI allI impI) (rule g; assumption?)+
qed

lemma peer_run_progress_witness:
  "\<exists>pr0. ex_started ex_engines = Some pr0 \<and> tick mem_pebble ex_node pr0 \<noteq> panic"
proof -
  obtain pr0 where r: "ex_started ex_engines = Some pr0" using ex_start by blast
  from peer_run_progress [OF mem_pebble_ok mem_pebble_healthy ex_meta_empty r rtranclp.rtrancl_refl,
      of ex_grpc] r show ?thesis by blast
qed

text \<open>C4: Handling one batch returns, and a peer that is started on the databases it leaves finds the
  whole of it: the log and hard state of the memory storage after the batch, the map with the
  snapshot's pairs and the committed commands applied in order, and the applied index of the last
  committed entry.\<close>

theorem batch_survives_restart:
  assumes "pebble_ok P" "healthy P" "peer_ok P pr ms" "batch_ok spare rd cs (ps pr) ms"
  shows "\<exists>pr' ms' s. handleReady P N G spare rd pr = Some pr' \<and> ms_batch rd cs ms = Some ms' \<and>
    newPeerStorage P (engines (ps pr')) = Some s \<and> refines P s ms' \<and>
    map_option fst (InitialState s) = Some (msHardState ms') \<and>
    kv_map P (engines s) = fold apply_command cs (kv_map P (engines (ps pr)) ++ batch_map spare rd) \<and>
    AppliedIndex s = batch_applied rd (AppliedIndex (ps pr))"
proof -
  obtain pr' ms' where h: "handleReady P N G spare rd pr = Some pr'" "ms_batch rd cs ms = Some ms'"
    "peer_ok P pr' ms'" "kv_map P (engines (ps pr')) = map_batch spare rd cs (kv_map P (engines (ps pr)))"
    "AppliedIndex (ps pr') = batch_applied rd (AppliedIndex (ps pr))"
    using handleReady_refines [OF assms, of N G] by blast
  then have o: "refines P (ps pr') ms'" "persisted P (ps pr')"
    "lsHardState (localState (ps pr')) = Some (msHardState ms')" by (auto simp: peer_ok_def)
  have "map_option fst (InitialState (reopened (ps pr'))) = Some (msHardState ms')"
    using o(3) by (simp add: InitialState_def reopened_def IsEmptyHardState_iff)
  moreover have "engines (reopened (ps pr')) = engines (ps pr')"
    "AppliedIndex (reopened (ps pr')) = AppliedIndex (ps pr')"
    by (simp_all add: reopened_def AppliedIndex_def)
  ultimately show ?thesis
    using h newPeerStorage_persisted [OF o(2)] reopened_refines [OF o(1)]
    by (auto simp: map_batch_def)
qed

lemma batch_survives_restart_witness:
  "\<exists>pr' s. handleReady mem_pebble ex_node ex_grpc [] ex_ready ex_peer = Some pr' \<and>
     newPeerStorage mem_pebble (engines (ps pr')) = Some s \<and>
     map_option fst (InitialState s) = Some \<lparr>hsTerm = 1, hsVote = 1, hsCommit = 1\<rparr> \<and> AppliedIndex s = 1"
proof -
  have p: "ps ex_peer = ex_storage" by (simp add: ex_peer_def)
  have a: "batch_applied ex_ready 0 = 1" "rdHardState ex_ready = \<lparr>hsTerm = 1, hsVote = 1, hsCommit = 1\<rparr>"
    by (simp_all add: batch_applied_def ex_ready_def ex_put_def)
  show ?thesis
    using batch_survives_restart [OF mem_pebble_ok mem_pebble_healthy ex_peer_ok
        ex_ready_ok [of "ps ex_peer"], of ex_node ex_grpc]
      ex_ready_allowed(2) [of "ps ex_peer"] a by (auto simp: p)
qed

text \<open>A first start, on empty databases, starts a raft node for the three configured peers and
  writes the configuration it reports; when that has a voter, every later start on these databases
  restarts the node from the stored state instead and keeps the configuration.\<close>

theorem first_start_then_restart:
  assumes "pebble_ok P" "healthy P" "meta_map P e = Map.empty"
    and "newPeer P N start restart i e w = Some pr" "\<not> isEmptyConfState (nd_conf N (raftGroup pr))"
  shows "(\<exists>s. engines s = e \<and> raftGroup pr = start s 0 [1, 2, 3]) \<and>
    confState (ps pr) = nd_conf N (raftGroup pr) \<and>
    (\<exists>pr'. newPeer P N' start' restart' i' (engines (ps pr)) w' = Some pr' \<and>
      raftGroup pr' = restart' (reopened (ps pr)) 0 \<and> confState (ps pr') = confState (ps pr))"
proof -
  obtain s where s: "engines s = e" "persisted P s" "refines P s NewMemoryStorage"
    "lsHardState (localState s) = Some (msHardState NewMemoryStorage)" "AppliedIndex s = 0" "bootstrap s"
    using newPeerStorage_empty [OF assms(2,3)] by (auto simp: NewMemoryStorage_def bootstrap_def)
  have p: "peer_ok P pr NewMemoryStorage" "applyState (ps pr) = applyState s"
    "raftGroup pr = start (reopened s) 0 loadRaftPeers" "confState (ps pr) = nd_conf N (raftGroup pr)"
    using newPeer_reopens [OF assms(1,2) s(3,2,4), of N start restart i w] assms(4) s(1,5,6) by auto
  have "\<not> bootstrap (ps pr)" "AppliedIndex (ps pr) = 0"
    using assms(5) p(2,4) s(5) by (simp_all add: bootstrap_def AppliedIndex_def)
  moreover have "refines P (ps pr) NewMemoryStorage" "persisted P (ps pr)"
    "lsHardState (localState (ps pr)) = Some (msHardState NewMemoryStorage)"
    using p(1) by (auto simp: peer_ok_def)
  ultimately have "\<exists>pr'. newPeer P N' start' restart' i' (engines (ps pr)) w' = Some pr' \<and>
      raftGroup pr' = restart' (reopened (ps pr)) 0 \<and> confState (ps pr') = confState (ps pr)"
    using newPeer_reopens [OF assms(1,2), of "ps pr" NewMemoryStorage N' start' restart' i' w']
    by (auto simp: reopened_def)
  moreover have "\<exists>s. engines s = e \<and> raftGroup pr = start s 0 [1, 2, 3]"
    using s(1) p(3) by (intro exI [of _ "reopened s"]) (simp add: loadRaftPeers_def upt_rec)
  ultimately show ?thesis using p(4) by blast
qed

lemma first_start_then_restart_witness:
  "\<exists>pr pr'. ex_started ex_engines = Some pr \<and> ex_started (engines (ps pr)) = Some pr' \<and>
     confState (ps pr') = zero_ConfState\<lparr>csVoters := [1, 2, 3]\<rparr>"
proof -
  obtain pr where r: "ex_started ex_engines = Some pr" using ex_start by blast
  have "nd_conf ex_node n = zero_ConfState\<lparr>csVoters := [1, 2, 3]\<rparr>" for n by (simp add: ex_node_def)
  then show ?thesis
    using first_start_then_restart [OF mem_pebble_ok mem_pebble_healthy ex_meta_empty r,
        of ex_node "\<lambda>s a ids. ()" "\<lambda>s a. ()" 1 "()"] r
    by (auto simp: isEmptyConfState_def)
qed

section \<open>Requests\<close>

text \<open>A set, from the store's interface to a read: the data that \<^verbatim>\<open>Set\<close> proposes, committed
  as an entry and applied, make every later \<^verbatim>\<open>Get\<close> of the key answer the value, and leave the
  answers for the other keys as they were. The one exception is the empty value, whose \<^verbatim>\<open>Get\<close>
  answers that there is no such key.\<close>

theorem set_then_get:
  assumes "pebble_ok P" "healthy P" "asTruncatedState (applyState (ps pr)) \<noteq> None"
    and "length k + length v < 2 ^ 62"
  shows "\<exists>d pr'. RaftStore_Set N k v pr0 =
      (fst (nd_propose N d (raftGroup pr0)), pr0\<lparr>raftGroup := snd (nd_propose N d (raftGroup pr0))\<rparr>) \<and>
    process P (ent\<lparr>eData := Some d\<rparr>) pr = Some pr' \<and>
    (\<forall>now n. served P now k n (ps pr') = Some (if v = [] then Inl ErrNotFound else Inr v)) \<and>
    (\<forall>now n key. key \<noteq> k \<longrightarrow> served P now key n (ps pr') = served P now key n (ps pr))"
proof -
  let ?d = "marshal_RaftCmd (NewPutCmdRequest k v)"
  obtain pr' where "process P (ent\<lparr>eData := Some ?d\<rparr>) pr = Some pr'"
    "kv_map P (engines (ps pr')) = (kv_map P (engines (ps pr)))(k \<mapsto> v)"
    using process_proposed [OF assms(1-3) RaftCmd_fits_Put [OF assms(4)], of "CPut k v" ent] by auto
  then show ?thesis
    by (intro exI [of _ ?d] exI [of _ pr'])
      (simp add: RaftStore_Set_def propose_def served_answer [OF assms(2)] answer_def split: prod.split)
qed

lemma set_then_get_witness:
  "\<exists>d pr'. process mem_pebble (zero_Entry\<lparr>eData := Some d\<rparr>) ex_peer = Some pr' \<and>
     served mem_pebble 0 [1] 0 (ps pr') = Some (Inr [2])"
  using set_then_get [OF mem_pebble_ok mem_pebble_healthy, of ex_peer "[1]" "[2]" ex_node ex_peer zero_Entry]
  by (auto simp: ex_peer_def)

text \<open>A delete, likewise: once applied, \<^verbatim>\<open>Get\<close> of the key answers that it does not exist, whatever
  was there before, and the other keys keep their answers.\<close>

theorem delete_then_get:
  assumes "pebble_ok P" "healthy P" "asTruncatedState (applyState (ps pr)) \<noteq> None"
    and "length k < 2 ^ 62"
  shows "\<exists>d pr'. RaftStore_Delete N k pr0 =
      (fst (nd_propose N d (raftGroup pr0)), pr0\<lparr>raftGroup := snd (nd_propose N d (raftGroup pr0))\<rparr>) \<and>
    process P (ent\<lparr>eData := Some d\<rparr>) pr = Some pr' \<and>
    (\<forall>now n. served P now k n (ps pr') = Some (Inl ErrNotFound)) \<and>
    (\<forall>now n key. key \<noteq> k \<longrightarrow> served P now key n (ps pr') = served P now key n (ps pr))"
proof -
  let ?d = "marshal_RaftCmd (NewDeleteCmdRequest k)"
  obtain pr' where "process P (ent\<lparr>eData := Some ?d\<rparr>) pr = Some pr'"
    "kv_map P (engines (ps pr')) = (kv_map P (engines (ps pr)))(k := None)"
    using process_proposed [OF assms(1-3) RaftCmd_fits_Delete [OF assms(4)], of "CDelete k" ent] by auto
  then show ?thesis
    by (intro exI [of _ ?d] exI [of _ pr'])
      (simp add: RaftStore_Delete_def propose_def served_answer [OF assms(2)] answer_def split: prod.split)
qed

lemma delete_then_get_witness:
  "\<exists>d pr'. process mem_pebble (zero_Entry\<lparr>eData := Some d\<rparr>) ex_peer = Some pr' \<and>
     served mem_pebble 0 [1] 0 (ps pr') = Some (Inl ErrNotFound)"
  using delete_then_get [OF mem_pebble_ok mem_pebble_healthy, of ex_peer "[1]" ex_node ex_peer zero_Entry]
  by (auto simp: ex_peer_def)

text \<open>A client, connected to a host, and a key that needs no escaping.\<close>

abbreviation ex_client :: httpClient where
  "ex_client \<equiv> \<lparr>url = text_bytes ''http://h/kv'', addrs = [[104]]\<rparr>"

lemma ex_connected: "connected ex_client" "list_all plain [107]" "valid_utf8 [107]"
proof -
  have "client_New ([104] # []) = Some ex_client" by (simp add: client_New_def text_bytes_def)
  moreover have "host_ok [104]" by (simp add: host_ok_def)
  ultimately show "connected ex_client" unfolding connected_def by blast
qed (simp_all add: plain_def valid_utf8_ascii)

text \<open>C6: The HTTP client against a server over the raft store. \<^verbatim>\<open>Set\<close> returns what raft's answer to
  the proposal is, an error or none; the data it proposes, once committed as an entry and applied on
  any node, make every later \<^verbatim>\<open>Get\<close> that is served there return the value as JSON carries it, and the
  error that there is no such key when the value is empty; the answers for other keys stay. \<^verbatim>\<open>Delete\<close>
  returns no error whatever raft answers, and what it proposes, once applied, makes \<^verbatim>\<open>Get\<close> answer
  that the key does not exist: an error, where the repository's \<^verbatim>\<open>TestDelete\<close> (\<^verbatim>\<open>client_test.go\<close>, against
  a server of this kind) asserts that there is none and an empty value, as the memory store of C40 has
  it. A read that is not served within the second is an error too.\<close>

theorem client_over_raft:
  assumes P: "pebble_ok P" "healthy P" and ts: "asTruncatedState (applyState (ps pr)) \<noteq> None"
    and c: "connected c" "list_all plain k" "valid_utf8 k" and sz: "length k + length (json_string v) < 2 ^ 62"
  shows "\<exists>d d' pr' pr''.
    client_Set (raft_http P N at now n lib nb) c k v pr0 =
      Some (map_option (\<lambda>e. Server_error (Error lib e)) (fst (nd_propose N d (raftGroup pr0))),
        pr0\<lparr>raftGroup := snd (nd_propose N d (raftGroup pr0))\<rparr>) \<and>
    process P (ent\<lparr>eData := Some d\<rparr>) pr = Some pr' \<and>
    (\<forall>now n. client_Get (raft_http P N (Some (ps pr')) now n lib nb) c k pr1 =
      Some (if v = [] then Inl (Server_error ''key does not exist'') else Inr (Some (json_string v)), pr1)) \<and>
    client_Delete (raft_http P N at now n lib nb) c k pr0 =
      Some (None, pr0\<lparr>raftGroup := snd (nd_propose N d' (raftGroup pr0))\<rparr>) \<and>
    process P (ent'\<lparr>eData := Some d'\<rparr>) pr = Some pr'' \<and>
    (\<forall>now n. client_Get (raft_http P N (Some (ps pr'')) now n lib nb) c k pr1 =
      Some (Inl (Server_error ''key does not exist''), pr1)) \<and>
    (\<forall>key now n. list_all plain key \<and> key \<noteq> k \<longrightarrow>
      (\<forall>s \<in> {ps pr', ps pr''}. client_Get (raft_http P N (Some s) now n lib nb) c key pr1 =
        client_Get (raft_http P N (Some (ps pr)) now n lib nb) c key pr1)) \<and>
    client_Get (raft_http P N None now n lib nb) c k pr1 =
      Some (Inl (Server_error ''it lost read response, retry read''), pr1)"
proof -
  let ?v = "json_string v"
  let ?d = "marshal_RaftCmd (NewPutCmdRequest k ?v)" and ?d' = "marshal_RaftCmd (NewDeleteCmdRequest k)"
  obtain pr' where p: "process P (ent\<lparr>eData := Some ?d\<rparr>) pr = Some pr'"
    "kv_map P (engines (ps pr')) = (kv_map P (engines (ps pr)))(k \<mapsto> ?v)"
    using process_proposed [OF P ts RaftCmd_fits_Put [OF sz], of "CPut k ?v" ent] by auto
  obtain pr'' where q: "process P (ent'\<lparr>eData := Some ?d'\<rparr>) pr = Some pr''"
    "kv_map P (engines (ps pr'')) = (kv_map P (engines (ps pr)))(k := None)"
    using process_proposed [OF P ts RaftCmd_fits_Delete, of k "CDelete k" ent'] sz by auto
  have e: "Error lib ErrNotFound = ''key does not exist''"
    "Error lib ErrLostReadResponse = ''it lost read response, retry read''" by (simp_all add: Error_def)
  have v: "?v = [] \<longleftrightarrow> v = []" by (rule json_string_empty)
  note get = raft_server.client_Get_returns [OF c(1)] raft_Get_answer(1) [OF P(2)] raft_Get_answer(2)
  show ?thesis
    by (rule exI [of _ ?d], rule exI [of _ ?d'], rule exI [of _ pr'], rule exI [of _ pr''])
      (auto simp: raft_server.client_Set_returns [OF c(1)] raft_server.client_Delete_returns [OF c(1,2)]
        json_string_valid [OF c(3)] raft_Set_def slice_def RaftStore_Set_def RaftStore_Delete_def propose_def
        get c(2) p q e v answer_def split: prod.split)
qed

lemma client_over_raft_witness:
  "\<exists>d pr'. process mem_pebble (zero_Entry\<lparr>eData := Some d\<rparr>) ex_peer = Some pr' \<and>
    client_Get (raft_http mem_pebble ex_node (Some (ps pr')) 0 0 (\<lambda>_. []) ErrNotFound) ex_client [107] ex_peer =
      Some (Inr (Some [0x61]), ex_peer)"
proof -
  have v: "json_string [0x61] = [0x61]" by code_simp
  have "asTruncatedState (applyState (ps ex_peer)) \<noteq> None" by (simp add: ex_peer_def)
  from client_over_raft [OF mem_pebble_ok mem_pebble_healthy this ex_connected, of "[0x61]" ex_node None 0 0
      "\<lambda>_. []" ErrNotFound ex_peer zero_Entry ex_peer zero_Entry] obtain d pr' where
    "process mem_pebble (zero_Entry\<lparr>eData := Some d\<rparr>) ex_peer = Some pr'"
    "client_Get (raft_http mem_pebble ex_node (Some (ps pr')) 0 0 (\<lambda>_. []) ErrNotFound) ex_client [107] ex_peer =
      Some (Inr (Some [0x61]), ex_peer)"
    by (auto simp: v)
  then show ?thesis by blast
qed

text \<open>The memory store behind the HTTP handlers is a map: a GET after a POST of a key returns
  the posted value, a GET after a DELETE no value, other keys are untouched, and both report OK; a
  request body that does not parse changes nothing and is answered with the error.\<close>

theorem api_over_memory_store:
  "doGet lib mem_Get k (snd (doSet lib mem_Set (Inr req) s)) =
     returnData (BytesData (if k = reqKey req then Some (reqValue req) else Option.bind (db s k) id)) \<and>
   fst (doSet lib mem_Set (Inr req) s) = returnData (TextData ''OK'') \<and>
   doGet lib mem_Get k (snd (doDelete lib mem_Delete k' s)) =
     returnData (BytesData (if k = k' then None else Option.bind (db s k) id)) \<and>
   fst (doDelete lib mem_Delete k' s) = returnData (TextData ''OK'') \<and>
   doSet lib mem_Set (Inl e) s = (returnError lib e, s)"
  by (intro conjI memory_kv.doGet_after_doSet memory_kv.doGet_after_doDelete doSet_bad_body)
    (simp_all add: memory_kv.doSet_ok memory_kv.doDelete_ok)

text \<open>C40: The client against the server over the memory store. For a key of characters that
  need no escaping and any value, \<^verbatim>\<open>Set\<close> returns no error and \<^verbatim>\<open>Get\<close> then returns the value as JSON
  carries it, which is the value itself if it is UTF-8; other keys are untouched; after \<^verbatim>\<open>Delete\<close> the
  key has no value. And an error of a \<^verbatim>\<open>Delete\<close> is never reported, whatever the exchange.\<close>

theorem client_end_to_end:
  assumes "connected c" and "list_all plain k" and "valid_utf8 k"
  shows "\<exists>s1 s2. client_Set (direct_http lib nb) c k v s = Some (None, s1) \<and>
    client_Get (direct_http lib nb) c k s1 = Some (Inr (Some (json_string v)), s1) \<and>
    (valid_utf8 v \<longrightarrow> json_string v = v) \<and>
    (\<forall>k'. list_all plain k' \<and> k' \<noteq> k \<longrightarrow> map_option fst (client_Get (direct_http lib nb) c k' s1) =
      map_option fst (client_Get (direct_http lib nb) c k' s)) \<and>
    client_Delete (direct_http lib nb) c k s1 = Some (None, s2) \<and>
    client_Get (direct_http lib nb) c k s2 = Some (Inr None, s2) \<and>
    (\<forall>(http :: 'w http) w err w'. client_Delete http c k w = Some (err, w') \<longrightarrow> err = None)"
proof -
  let ?val = "\<lambda>s k. Option.bind (db s k) id"
  note get = memory_http.client_Get_reads [OF assms(1)]
  obtain s1 where s1: "client_Set (direct_http lib nb) c k v s = Some (None, s1)"
    "?val s1 = (?val s)(k \<mapsto> json_string v)"
    using memory_http.client_Set_writes [OF assms(1), of lib nb k v s] json_string_valid [OF assms(3)] by auto
  obtain s2 where s2: "client_Delete (direct_http lib nb) c k s1 = Some (None, s2)"
    "?val s2 = (?val s1)(k := None)"
    using memory_http.client_Delete_removes [OF assms(1,2), of lib nb s1] by auto
  have v1: "?val s1 k' = (if k' = k then Some (json_string v) else ?val s k')" for k'
    using fun_cong [OF s1(2), of k'] by simp
  have v2: "?val s2 k = None" using fun_cong [OF s2(2), of k] by simp
  show ?thesis
  proof (rule exI [of _ s1], rule exI [of _ s2], intro conjI allI impI)
    show "client_Get (direct_http lib nb) c k s1 = Some (Inr (Some (json_string v)), s1)"
      "client_Get (direct_http lib nb) c k s2 = Some (Inr None, s2)"
      by (simp_all only: get [OF assms(2)] v1 v2 if_True refl)
    show "map_option fst (client_Get (direct_http lib nb) c k' s1) =
        map_option fst (client_Get (direct_http lib nb) c k' s)" if "list_all plain k' \<and> k' \<noteq> k" for k'
      using that by (simp only: get v1 if_False option.map fst_conv)
  qed (rule s1 s2 json_string_valid client_Delete_no_error, assumption?)+
qed

lemma client_end_to_end_witness:
  "\<exists>s1. client_Set (direct_http (\<lambda>_. []) ErrNotFound) ex_client [107] [0x61, 0xFF] newMemoryStore = Some (None, s1) \<and>
    client_Get (direct_http (\<lambda>_. []) ErrNotFound) ex_client [107] s1 = Some (Inr (Some [0x61, 0xEF, 0xBF, 0xBD]), s1)"
proof -
  have "json_string [0x61, 0xFF] = [0x61, 0xEF, 0xBF, 0xBD]" by code_simp
  with client_end_to_end [OF ex_connected, of "\<lambda>_. []" ErrNotFound "[0x61, 0xFF]" newMemoryStore]
  show ?thesis by auto
qed

text \<open>The two stores differ on a key that is absent: the memory store returns a nil value and no
  error, and so a success, where the raft store's \<^verbatim>\<open>Get\<close> returns an error.\<close>

theorem stores_differ_on_absent_keys:
  assumes "healthy P" "kv_map P (engines s) k = None" "db ms k = None"
  shows "served P now k n s = Some (Inl ErrNotFound) \<and> mem_Get k ms = Inr None"
  using assms by (simp add: served_answer answer_def mem_Get_def)

lemma stores_differ_on_absent_keys_witness:
  "served mem_pebble 0 [1] 0 ex_storage = Some (Inl ErrNotFound) \<and> mem_Get [1] newMemoryStore = Inr None"
  by (rule stores_differ_on_absent_keys) (simp_all add: ex_fresh_map newMemoryStore_def)

text \<open>The node of a raft store is named by the last component of its data path, also when the
  path has many; a name other than the three known ones gives node 0.\<close>

theorem NewStore_node:
  assumes "CHR ''/'' \<notin> set name"
  shows "NewStore False (dir @ CHR ''/'' # name) =
    RaftStore (if name = ''node1'' then 1 else if name = ''node2'' then 2 else if name = ''node3'' then 3
               else 0) (dir @ CHR ''/'' # name)"
proof -
  let ?p = "dir @ CHR ''/'' # name"
  have "NewStore False ?p = RaftStore (case nodeMap name of Some i \<Rightarrow> i | None \<Rightarrow> 0) ?p"
    by (simp only: NewStore_def Let_def if_False last_split_at [OF assms] simp_thms)
  also have "(case nodeMap name of Some i \<Rightarrow> i | None \<Rightarrow> 0) =
      (if name = ''node1'' then 1 else if name = ''node2'' then 2 else if name = ''node3'' then 3 else 0)"
    by (simp add: nodeMap_def)
  finally show ?thesis .
qed

lemma NewStore_node_witness: "NewStore False ''/var/node2'' = RaftStore 2 ''/var/node2''"
  using NewStore_node [of "''node2''" "''/var''"] by simp

section \<open>Messages\<close>

text \<open>Sending on a connection that has broken cancels it, dials the peer again and sends the
  message once more; the new connection is kept, the other connections are left alone, and the
  error reported is that of the second attempt.\<close>

theorem broken_connection_is_redialled:
  assumes "conns r addr = Some c" "gr_send G c msg (net r) = (Some er, w1)"
    "gr_dial G addr (gr_cancel G c w1) = (Inr c', w2)"
  shows "\<exists>r'. client_send G addr msg r = (fst (gr_send G c' msg w2), r') \<and>
    net r' = snd (gr_send G c' msg w2) \<and> conns r' addr = Some c' \<and>
    (\<forall>a. a \<noteq> addr \<longrightarrow> conns r' a = conns r a)"
  using client_send_retry [OF assms] by simp

lemma broken_connection_is_redialled_witness:
  "\<exists>r'. client_send (ex_grpc\<lparr>gr_send := (\<lambda>c m w. (if c = 5 then Some (OsErr 0) else None, w))\<rparr>) ''a''
       (peer_msg ex_msg) \<lparr>conns = [''a'' \<mapsto> 5], net = ()\<rparr> = (None, r') \<and> conns r' ''a'' = Some 0"
  using broken_connection_is_redialled [of "\<lparr>conns = [''a'' \<mapsto> 5], net = ()\<rparr>" "''a''" 5
      "ex_grpc\<lparr>gr_send := (\<lambda>c m w. (if c = 5 then Some (OsErr 0) else None, w))\<rparr>" "peer_msg ex_msg"
      "OsErr 0" "()" 0 "()"] by (simp add: ex_grpc_def) blast

text \<open>C39: What one peer's router sends and another peer's raft node is stepped with. Whatever dials
  and sends fail, each message is handed to at most two streams, both to the peer it is addressed
  to, and to at least one where nothing fails; a stream carries the messages handed to it in the order
  of the batch. The server's loop turns any part of the stream that has come into exactly these
  messages up to the first one that is longer than gRPC's limit of 4 MiB; at that one, as a large
  snapshot is, the stream ends and what is behind it is lost. However the streams that lead to a peer
  are mixed, its message loop steps raft with all that came, as each is addressed to it.\<close>

theorem messages_in_order:
  assumes "w = net (sendRaftMsgs (stream_grpc F H) msgs (newRouter empty_net))"
  shows "\<exists>css. routed (leads_to w) msgs css \<and>
    ((\<forall>k. \<not> F k \<and> \<not> fst (H k)) \<longrightarrow> once_each msgs css) \<and>
    (\<forall>c n q. RaftMessage_loop (take n (frames w c)) q =
      Some (q @ takeWhile receivable (take n (carried c msgs css)),
        \<not> list_all receivable (take n (carried c msgs css)))) \<and>
    (\<forall>N pr. (\<forall>m \<in> set (recvc pr). \<exists>c. leads_to w c = peerMap (prId pr) \<and> m \<in> set (carried c msgs css)) \<longrightarrow>
      raftGroup (handleRaftMsgs N pr) = fold (nd_step N) (recvc pr) (raftGroup pr))"
proof -
  obtain css where css: "routed (leads_to w) msgs css" "(\<forall>k. \<not> F k \<and> \<not> fst (H k)) \<longrightarrow> once_each msgs css"
    "\<forall>c. frames w c = map (\<lambda>m. marshal_RaftMsgReq (peer_msg m)) (carried c msgs css)"
    using sent_on_stream_net [of F H msgs] unfolding assms by blast
  have l: "RaftMessage_loop (take n (frames w c)) q = Some (q @ takeWhile receivable (take n (carried c msgs css)),
      \<not> list_all receivable (take n (carried c msgs css)))" for c n q
    using RaftMessage_loop_marshal [of "take n (carried c msgs css)" q] css(3) by (simp only: take_map)
  have "mTo m = prId pr" if "leads_to w c = peerMap (prId pr)" "m \<in> set (carried c msgs css)" for pr c m
    using carried_addressee [OF css(1) that(2)] that(1) peerMap_inj [of "mTo m" "prId pr"] by simp
  then have "raftGroup (handleRaftMsgs N pr) = fold (nd_step N) (recvc pr) (raftGroup pr)"
    if "\<forall>m \<in> set (recvc pr). \<exists>c. leads_to w c = peerMap (prId pr) \<and> m \<in> set (carried c msgs css)" for N pr
    using that by (intro handleRaftMsgs_all) blast
  with css l show ?thesis by blast
qed

lemma messages_in_order_witness:
  "\<exists>c. RaftMessage_loop
      (take 1 (frames (net (sendRaftMsgs (stream_grpc (\<lambda>_. False) (\<lambda>_. (False, False))) [ex_msg] (newRouter empty_net))) c))
      [] = Some ([ex_msg], False)"
proof -
  have "length (marshal_RaftMsgReq (peer_msg ex_msg)) \<le> 100" by code_simp
  then have r: "receivable ex_msg" by (simp add: receivable_def maxReceiveMessageSize_def)
  from messages_in_order [OF refl, of "\<lambda>_. False" "\<lambda>_. (False, False)" "[ex_msg]"]
  obtain css where "once_each [ex_msg] css"
    "\<forall>c n q. RaftMessage_loop
      (take n (frames (net (sendRaftMsgs (stream_grpc (\<lambda>_. False) (\<lambda>_. (False, False))) [ex_msg] (newRouter empty_net))) c))
      q = Some (q @ takeWhile receivable (take n (carried c [ex_msg] css)),
        \<not> list_all receivable (take n (carried c [ex_msg] css)))" by auto
  moreover from this(1) obtain c cs where "css = [c # cs]"
    by (auto simp: once_each_def list_all2_Cons1 ex_msg_def peerMap_def neq_Nil_conv)
  ultimately show ?thesis using r by (intro exI [of _ c]) simp
qed

text \<open>What one peer sends another is what the raft library there is stepped with: the receiver's
  server unpacks exactly the message that the router packed, and the message loop steps the buffered
  messages in order, those addressed to this peer and no others, and empties the buffer.\<close>

theorem messages_reach_raft:
  "RaftMessage (peer_msg m) q = Some (q @ [m]) \<and>
   raftGroup (handleRaftMsgs N pr) =
     fold (nd_step N) (filter (\<lambda>m. mTo m = prId pr) (recvc pr)) (raftGroup pr) \<and>
   recvc (handleRaftMsgs N pr) = [] \<and> ps (handleRaftMsgs N pr) = ps pr"
proof -
  have "foldl (\<lambda>n m. if mTo m = i then f m n else n) g q = fold f (filter (\<lambda>m. mTo m = i) q) g"
    for f :: "Message \<Rightarrow> 'n \<Rightarrow> 'n" and i g q
    by (induction q arbitrary: g) auto
  then show ?thesis
    by (simp add: RaftMessage_def raftMsg_peer_msg handleRaftMsgs_def)
qed

end
